(* ===== verification/Go_Base.thy ===== *)
theory Go_Base
  imports Main "HOL-Library.Word" "HOL-Library.Sublist" "HOL-Library.Monad_Syntax"
begin

text \<open>
  Prelude of the development.  It fixes how values of the Go program are represented and
  collects the list and byte-string facts that the components share.

  \<^item> A Go \<^verbatim>\<open>string\<close> or \<^verbatim>\<open>[]byte\<close> is a list of characters; a HOL character is one byte, so
    \<open>length\<close> is Go's \<^verbatim>\<open>len\<close>.  A fixed-size array is a list whose length is kept by a
    well-formedness invariant of the record that holds it.
  \<^item> \<^verbatim>\<open>uint8\<close>, \<^verbatim>\<open>uint32\<close> and \<^verbatim>\<open>uint64\<close> are words of that width; \<^verbatim>\<open>int\<close> is \<open>int\<close> where a
    negative value can occur and \<open>nat\<close> where the code only counts upwards from zero.
  \<^item> A run-time panic (an index or slice out of range) is the value \<open>None\<close> of the option
    monad, so that the absence of panics is something to be proved.
  \<^item> Clock readings, random identifiers and other inputs of a call are arguments.
\<close>

section \<open>Representation of Go values\<close>

type_synonym bytes = "char list"
type_synonym u8 = "8 word"
type_synonym u32 = "32 word"
type_synonym u64 = "64 word"

text \<open>Instants and durations are nanosecond counts, as \<^verbatim>\<open>time.Duration\<close> is.\<close>

type_synonym instant = int

abbreviation second :: int where
  "second \<equiv> 1000000000"

abbreviation NUL :: char where "NUL \<equiv> CHR 0x00"
abbreviation CR :: char where "CR \<equiv> CHR 0x0D"
abbreviation LF :: char where "LF \<equiv> CHR 0x0A"
abbreviation TAB :: char where "TAB \<equiv> CHR 0x09"

definition crlf :: bytes where
  "crlf = [CR, LF]"

text \<open>Comparing computed bytes: the equation on codes, which the simplifier decides.\<close>

lemma char_of_eq_char [simp]: "char_of (n :: nat) = c \<longleftrightarrow> n mod 256 = of_char c"
  by (simp add: char_of_eq_iff take_bit_eq_mod)

lemma char_eq_char_of [simp]: "c = char_of (n :: nat) \<longleftrightarrow> n mod 256 = of_char c"
  by (metis char_of_eq_char)

named_theorems len_simps \<open>lengths of the byte strings that the operations build\<close>
named_theorems wf_intros \<open>introduction rules for well-formedness invariants\<close>
named_theorems frame_simps \<open>state fields that an operation leaves alone\<close>

lemma crlf_not_Nil [simp]: "crlf \<noteq> []"
  by (simp add: crlf_def)

lemma length_crlf [simp, len_simps]: "length crlf = 2"
  by (simp add: crlf_def)

section \<open>Slices and copies\<close>

text \<open>\<^verbatim>\<open>xs[:n]\<close> panics past the end; \<^verbatim>\<open>copy(dst, src)\<close> never does and never changes the
  length of \<^verbatim>\<open>dst\<close>.\<close>

definition slice_to :: "nat \<Rightarrow> 'a list \<Rightarrow> 'a list option" where
  "slice_to n xs = (if n \<le> length xs then Some (take n xs) else None)"

definition slice_from :: "nat \<Rightarrow> 'a list \<Rightarrow> 'a list option" where
  "slice_from n xs = (if n \<le> length xs then Some (drop n xs) else None)"

definition go_copy :: "'a list \<Rightarrow> 'a list \<Rightarrow> 'a list" where
  "go_copy dst src = take (length dst) src @ drop (length src) dst"

lemma slice_to_Some [simp]: "n \<le> length xs \<Longrightarrow> slice_to n xs = Some (take n xs)"
  by (simp add: slice_to_def)

lemma slice_to_eq_Some_iff: "slice_to n xs = Some ys \<longleftrightarrow> n \<le> length xs \<and> ys = take n xs"
  by (auto simp: slice_to_def)

lemma slice_from_Some [simp]: "n \<le> length xs \<Longrightarrow> slice_from n xs = Some (drop n xs)"
  by (simp add: slice_from_def)

lemma length_go_copy [simp, len_simps]: "length (go_copy dst src) = length dst"
  by (simp add: go_copy_def)

lemma take_go_copy: "n \<le> length dst \<Longrightarrow> n \<le> length src \<Longrightarrow> take n (go_copy dst src) = take n src"
  by (simp add: go_copy_def min_def)

lemma go_copy_same_length: "length src = length dst \<Longrightarrow> go_copy dst src = src"
  by (simp add: go_copy_def)

section \<open>Loops whose body may panic\<close>

fun each :: "('a \<Rightarrow> 's \<Rightarrow> 's option) \<Rightarrow> 'a list \<Rightarrow> 's \<Rightarrow> 's option" where
  "each f [] s = Some s"
| "each f (x # xs) s = Option.bind (f x s) (each f xs)"

lemma each_append: "each f (xs @ ys) s = Option.bind (each f xs s) (each f ys)"
  by (induction xs arbitrary: s) (auto split: Option.bind_split)

lemma each_total:
  "(\<And>x s. x \<in> set xs \<Longrightarrow> P s \<Longrightarrow> \<exists>s'. f x s = Some s' \<and> P s') \<Longrightarrow> P s \<Longrightarrow>
   \<exists>s'. each f xs s = Some s' \<and> P s'"
proof (induction xs arbitrary: s)
  case Nil
  then show ?case by simp
next
  case (Cons x xs)
  then obtain s1 where "f x s = Some s1" "P s1" by (meson list.set_intros(1))
  with Cons show ?case by (metis bind.bind_lunit each.simps(2) list.set_intros(2))
qed

lemma each_pure: "(\<And>x s. x \<in> set xs \<Longrightarrow> f x s = Some (g x s)) \<Longrightarrow> each f xs s = Some (fold g xs s)"
  by (induction xs arbitrary: s) auto

end
