(* ===== verification/Go_Strings.thy ===== *)
theory Go_Strings
  imports Go_Base
begin

text \<open>
  The part of Go's \<^verbatim>\<open>strings\<close>, \<^verbatim>\<open>bytes\<close>, \<^verbatim>\<open>strconv\<close> and \<^verbatim>\<open>fmt\<close> packages that the program
  uses, on byte strings: search, cut and split, trimming of Unicode white space, decimal
  printing and parsing, UTF-8 decoding and the case mappings built on it.  The case tables
  of Unicode beyond ASCII are a parameter (\<open>unicode\<close>).
\<close>

section \<open>Search\<close>

text \<open>\<^verbatim>\<open>strings.Index\<close> and \<^verbatim>\<open>bytes.Index\<close>; \<open>None\<close> is \<^verbatim>\<open>-1\<close>.\<close>

fun index_of :: "'a list \<Rightarrow> 'a list \<Rightarrow> nat option" where
  "index_of [] p = (if p = [] then Some 0 else None)"
| "index_of (x # xs) p =
     (if prefix p (x # xs) then Some 0 else map_option Suc (index_of xs p))"

definition contains :: "'a list \<Rightarrow> 'a list \<Rightarrow> bool" where
  "contains s p = (index_of s p \<noteq> None)"

lemma index_of_Some_iff:
  "index_of s p = Some i \<longleftrightarrow>
     i \<le> length s \<and> prefix p (drop i s) \<and> (\<forall>j<i. \<not> prefix p (drop j s))"
proof (induction s arbitrary: i)
  case Nil
  then show ?case by auto
next
  case (Cons x xs)
  have less_Suc: "(\<forall>j<Suc k. \<not> prefix p (drop j (x # xs))) \<longleftrightarrow>
      \<not> prefix p (x # xs) \<and> (\<forall>j<k. \<not> prefix p (drop j xs))" for k
    by (auto simp: less_Suc_eq_0_disj)
  show ?case
    by (cases i) (auto simp: Cons.IH less_Suc simp del: prefix_Cons)
qed

lemma index_of_None_iff: "index_of s p = None \<longleftrightarrow> (\<forall>j \<le> length s. \<not> prefix p (drop j s))"
proof (induction s)
  case Nil
  then show ?case by auto
next
  case (Cons x xs)
  have "(\<forall>j \<le> length (x # xs). \<not> prefix p (drop j (x # xs))) \<longleftrightarrow>
      \<not> prefix p (x # xs) \<and> (\<forall>j \<le> length xs. \<not> prefix p (drop j xs))"
    by (simp only: less_Suc_eq_le [symmetric] All_less_Suc2 list.size drop_0 drop_Suc_Cons add_Suc_right add_0_right)
  then show ?case by (simp add: Cons.IH del: prefix_Cons)
qed

lemma index_of_bound: "index_of s p = Some i \<Longrightarrow> i + length p \<le> length s"
  by (auto simp: index_of_Some_iff dest!: prefix_length_le)

lemma index_of_split:
  assumes "index_of s p = Some i"
  shows "s = take i s @ p @ drop (i + length p) s"
proof -
  from assms have "prefix p (drop i s)" by (simp add: index_of_Some_iff)
  then obtain t where t: "drop i s = p @ t" by (auto simp: prefix_def)
  then have "drop (i + length p) s = t"
    by (metis add.commute append_eq_conv_conj drop_drop)
  with t show ?thesis by (metis append_take_drop_id)
qed

lemma index_of_take:
  assumes "index_of s p = Some i"
  shows "take (i + length p) s = take i s @ p"
proof -
  have "take (i + length p) s = take (i + length p) (take i s @ p @ drop (i + length p) s)"
    by (rule arg_cong) (rule index_of_split [OF assms])
  also have "\<dots> = take i s @ p"
    using index_of_bound [OF assms] by simp
  finally show ?thesis .
qed

lemma contains_iff: "contains s p \<longleftrightarrow> sublist p s"
proof
  assume "contains s p"
  then obtain i where "index_of s p = Some i" by (auto simp: contains_def)
  then have "s = take i s @ p @ drop (i + length p) s" by (rule index_of_split)
  then show "sublist p s" by (metis sublist_appendI)
next
  assume "sublist p s"
  then obtain us vs where s: "s = us @ p @ vs" by (auto simp: sublist_def)
  then have "prefix p (drop (length us) s)" "length us \<le> length s" by auto
  then show "contains s p" unfolding contains_def index_of_None_iff by blast
qed

lemma index_of_Nil [simp]: "index_of s [] = Some 0"
  by (cases s) auto

lemma index_of_in_middle: "index_of (us @ p @ vs) p = Some i \<Longrightarrow> i \<le> length us"
  by (rule ccontr) (auto simp: index_of_Some_iff not_le)

text \<open>An occurrence is the first one when the text before it cannot overlap the pattern.\<close>

lemma index_of_skip:
  assumes "p \<noteq> []" "\<forall>j < length us. \<not> prefix p (drop j us @ p @ vs)"
  shows "index_of (us @ p @ vs) p = Some (length us)"
  using assms by (auto simp: index_of_Some_iff)

definition last_index :: "'a list \<Rightarrow> 'a list \<Rightarrow> nat option" where
  "last_index s p = map_option (\<lambda>i. length s - i - length p) (index_of (rev s) (rev p))"

lemma last_index_split:
  assumes "last_index s p = Some i"
  shows "s = take i s @ p @ drop (i + length p) s \<and> i + length p \<le> length s"
proof -
  from assms obtain k where k: "index_of (rev s) (rev p) = Some k"
    and i: "i = length s - k - length p" by (auto simp: last_index_def)
  from index_of_split [OF k]
  have "rev (rev s) = rev (take k (rev s) @ rev p @ drop (k + length p) (rev s))" by simp
  then have s: "s = rev (drop (k + length p) (rev s)) @ p @ rev (take k (rev s))" by simp
  have b: "k + length p \<le> length s" using index_of_bound [OF k] by simp
  have len: "length (rev (drop (k + length p) (rev s))) = i" using i by simp
  from s len have "take i s = rev (drop (k + length p) (rev s))"
    and "drop (i + length p) s = rev (take k (rev s))"
    by (metis append_eq_conv_conj, metis append.assoc append_eq_conv_conj length_append)
  with s i b show ?thesis by simp
qed

section \<open>Prefixes and suffixes\<close>

definition has_prefix :: "bytes \<Rightarrow> bytes \<Rightarrow> bool" where
  "has_prefix s p = prefix p s"

definition has_suffix :: "bytes \<Rightarrow> bytes \<Rightarrow> bool" where
  "has_suffix s p = prefix (rev p) (rev s)"

definition trim_prefix :: "bytes \<Rightarrow> bytes \<Rightarrow> bytes" where
  "trim_prefix s p = (if prefix p s then drop (length p) s else s)"

definition trim_suffix :: "bytes \<Rightarrow> bytes \<Rightarrow> bytes" where
  "trim_suffix s p = (if has_suffix s p then take (length s - length p) s else s)"

lemma has_suffix_iff: "has_suffix s p \<longleftrightarrow> (\<exists>t. s = t @ p)"
  by (simp add: has_suffix_def prefix_def) (metis rev_append rev_rev_ident)

lemma trim_prefix_append [simp]: "trim_prefix (p @ s) p = s"
  by (simp add: trim_prefix_def)

lemma trim_suffix_append [simp]: "trim_suffix (s @ p) p = s"
  by (auto simp: trim_suffix_def has_suffix_iff)

section \<open>Cut, split and join\<close>

definition cut :: "bytes \<Rightarrow> bytes \<Rightarrow> bytes \<times> bytes \<times> bool" where
  "cut s sep =
     (case index_of s sep of
        None \<Rightarrow> (s, [], False)
      | Some i \<Rightarrow> (take i s, drop (i + length sep) s, True))"

lemma cut_before_sep:
  "\<forall>j < length us. \<not> prefix sep (drop j us @ sep @ vs) \<Longrightarrow> sep \<noteq> [] \<Longrightarrow>
   cut (us @ sep @ vs) sep = (us, vs, True)"
  by (simp add: cut_def index_of_skip)

function split :: "bytes \<Rightarrow> bytes \<Rightarrow> bytes list" where
  "split s sep =
     (case index_of s sep of
        None \<Rightarrow> [s]
      | Some i \<Rightarrow> if sep = [] then [s] else take i s # split (drop (i + length sep) s) sep)"
  by pat_completeness auto
termination
proof (relation "measure (\<lambda>(s, sep). length s)", simp)
  fix s sep :: bytes and i
  assume "index_of s sep = Some i" "sep \<noteq> []"
  then show "((drop (i + length sep) s, sep), s, sep) \<in> measure (\<lambda>(s, sep). length s)"
    by (cases s) (auto split: if_splits)
qed

declare split.simps [simp del]

fun join :: "bytes \<Rightarrow> bytes list \<Rightarrow> bytes" where
  "join sep [] = []"
| "join sep [x] = x"
| "join sep (x # y # zs) = x @ sep @ join sep (y # zs)"

lemma split_not_Nil [simp]: "split s sep \<noteq> []"
  by (subst split.simps) (simp split: option.split)

lemma join_Cons: "xs \<noteq> [] \<Longrightarrow> join sep (x # xs) = x @ sep @ join sep xs"
  by (cases xs) auto

lemma join_split: "join sep (split s sep) = s"
proof (induction s sep rule: split.induct)
  case (1 s sep)
  then show ?case
    by (subst split.simps) (auto simp: join_Cons index_of_split [symmetric] split: option.split)
qed

section \<open>White space\<close>

text \<open>
  The UTF-8 encodings of the code points with \<^verbatim>\<open>unicode.IsSpace\<close>.  No encoding is a
  prefix of another and none of them starts inside another, so scanning bytes for them is
  scanning runes.
\<close>

definition space_encs :: "bytes list" where
  "space_encs =
     map (\<lambda>c. [c]) [TAB, LF, CHR 0x0B, CHR 0x0C, CR, CHR '' ''] @
     [[CHR 0xC2, CHR 0x85], [CHR 0xC2, CHR 0xA0], [CHR 0xE1, CHR 0x9A, CHR 0x80],
      [CHR 0xE2, CHR 0x80, CHR 0x80], [CHR 0xE2, CHR 0x80, CHR 0x81],
      [CHR 0xE2, CHR 0x80, CHR 0x82], [CHR 0xE2, CHR 0x80, CHR 0x83],
      [CHR 0xE2, CHR 0x80, CHR 0x84], [CHR 0xE2, CHR 0x80, CHR 0x85],
      [CHR 0xE2, CHR 0x80, CHR 0x86], [CHR 0xE2, CHR 0x80, CHR 0x87],
      [CHR 0xE2, CHR 0x80, CHR 0x88], [CHR 0xE2, CHR 0x80, CHR 0x89],
      [CHR 0xE2, CHR 0x80, CHR 0x8A], [CHR 0xE2, CHR 0x80, CHR 0xA8],
      [CHR 0xE2, CHR 0x80, CHR 0xA9], [CHR 0xE2, CHR 0x80, CHR 0xAF],
      [CHR 0xE2, CHR 0x81, CHR 0x9F], [CHR 0xE3, CHR 0x80, CHR 0x80]]"

text \<open>The length of the space rune at the front of the text, 0 when there is none.\<close>

definition space_len :: "bytes list \<Rightarrow> bytes \<Rightarrow> nat" where
  "space_len encs s = (case find (\<lambda>e. prefix e s) encs of None \<Rightarrow> 0 | Some e \<Rightarrow> length e)"

lemma space_len_le: "space_len encs s \<le> length s"
  by (auto simp: space_len_def find_Some_iff dest!: prefix_length_le split: option.split)

function trim_encs :: "bytes list \<Rightarrow> bytes \<Rightarrow> bytes" where
  "trim_encs encs s =
     (if space_len encs s = 0 then s else trim_encs encs (drop (space_len encs s) s))"
  by pat_completeness auto
termination
proof (relation "measure (\<lambda>(encs, s). length s)", simp)
  fix encs s
  assume "space_len encs s \<noteq> 0"
  then show "((encs, drop (space_len encs s) s), encs, s) \<in> measure (\<lambda>(encs, s). length s)"
    using space_len_le [of encs s] by auto
qed

declare trim_encs.simps [simp del]

definition trim_space :: "bytes \<Rightarrow> bytes" where
  "trim_space s =
     rev (trim_encs (map rev space_encs) (rev (trim_encs space_encs s)))"

lemma trim_encs_suffix: "\<exists>k \<le> length s. trim_encs encs s = drop k s"
proof (induction encs s rule: trim_encs.induct)
  case (1 encs s)
  let ?n = "space_len encs s"
  show ?case
  proof (cases "?n = 0")
    case True
    then have "trim_encs encs s = drop 0 s" by (simp add: trim_encs.simps [of encs s])
    then show ?thesis by blast
  next
    case False
    with 1 obtain k where "k \<le> length (drop ?n s)" "trim_encs encs (drop ?n s) = drop k (drop ?n s)"
      by blast
    with False space_len_le [of encs s] have "trim_encs encs s = drop (k + ?n) s" "k + ?n \<le> length s"
      by (simp_all add: trim_encs.simps [of encs s])
    then show ?thesis by blast
  qed
qed

lemma length_trim_encs: "length (trim_encs encs s) \<le> length s"
  using trim_encs_suffix [of s encs] by auto

lemma length_trim_space: "length (trim_space s) \<le> length s"
  unfolding trim_space_def using length_trim_encs [of "map rev space_encs" "rev (trim_encs space_encs s)"]
    length_trim_encs [of space_encs s] by simp

text \<open>\<^verbatim>\<open>strings.Fields\<close>: the maximal runs of text between space runes.\<close>

function fields_aux :: "bytes \<Rightarrow> bytes \<Rightarrow> bytes list" where
  "fields_aux acc [] = (if acc = [] then [] else [rev acc])"
| "fields_aux acc (c # cs) =
     (if space_len space_encs (c # cs) = 0 then fields_aux (c # acc) cs
      else (if acc = [] then [] else [rev acc]) @
           fields_aux [] (drop (space_len space_encs (c # cs)) (c # cs)))"
  by pat_completeness auto
termination
  by (relation "measure (\<lambda>(acc, s). length s)")
    (auto simp del: length_drop simp add: length_drop)

definition fields :: "bytes \<Rightarrow> bytes list" where
  "fields s = fields_aux [] s"

lemma fields_aux_nonempty: "f \<in> set (fields_aux acc s) \<Longrightarrow> f \<noteq> []"
  by (induction acc s rule: fields_aux.induct) (auto split: if_splits)

lemma fields_nonempty: "f \<in> set (fields s) \<Longrightarrow> f \<noteq> []"
  unfolding fields_def by (rule fields_aux_nonempty)

text \<open>Plain text, ASCII without spaces, has nothing to trim and is one field.\<close>

definition plain_char :: "char \<Rightarrow> bool" where
  "plain_char c = (of_char c < (128 :: nat) \<and> c \<notin> {TAB, LF, CHR 0x0B, CHR 0x0C, CR, CHR '' ''})"

lemma space_encs_not_plain:
  "\<forall>e \<in> set space_encs. e \<noteq> [] \<and> \<not> plain_char (hd e) \<and> \<not> plain_char (last e)"
  by (simp add: space_encs_def plain_char_def)

lemma space_len_plain [simp]: "plain_char c \<Longrightarrow> space_len space_encs (c # cs) = 0"
proof -
  assume "plain_char c"
  then have "\<not> prefix e (c # cs)" if "e \<in> set space_encs" for e
    using space_encs_not_plain that by (cases e) auto
  then have "find (\<lambda>e. prefix e (c # cs)) space_encs = None" by (simp add: find_None_iff)
  then show ?thesis by (simp add: space_len_def)
qed

lemma space_len_rev_plain [simp]: "plain_char c \<Longrightarrow> space_len (map rev space_encs) (c # cs) = 0"
proof -
  assume p: "plain_char c"
  have "\<not> prefix (rev e) (c # cs)" if "e \<in> set space_encs" for e
  proof -
    have "e \<noteq> []" "\<not> plain_char (last e)" using space_encs_not_plain that by auto
    then have "rev e \<noteq> []" "\<not> plain_char (hd (rev e))" by (simp_all add: hd_rev)
    with p show ?thesis by (cases "rev e") auto
  qed
  then have "find (\<lambda>e. prefix e (c # cs)) (map rev space_encs) = None" by (auto simp: find_None_iff)
  then show ?thesis by (simp add: space_len_def)
qed

lemma space_len_blank [simp]: "space_len space_encs (CHR '' '' # cs) = 1"
  by (simp add: space_len_def space_encs_def)

lemma space_len_Nil [simp]: "space_len encs [] = 0"
  using space_len_le [of encs "[]"] by simp

lemma trim_space_plain: "s \<noteq> [] \<Longrightarrow> plain_char (hd s) \<Longrightarrow> plain_char (last s) \<Longrightarrow> trim_space s = s"
proof -
  assume s: "s \<noteq> []" "plain_char (hd s)" "plain_char (last s)"
  then have "trim_encs space_encs s = s"
    by (subst trim_encs.simps) (cases s, auto)
  moreover have "trim_encs (map rev space_encs) (rev s) = rev s"
    using s by (subst trim_encs.simps) (cases s rule: rev_cases, auto)
  ultimately show ?thesis by (simp add: trim_space_def)
qed

lemma trim_space_Nil [simp]: "trim_space [] = []"
  by (simp add: trim_space_def trim_encs.simps)

lemma fields_aux_plain:
  "list_all plain_char w \<Longrightarrow> fields_aux acc (w @ CHR '' '' # s) =
     (if acc = [] \<and> w = [] then [] else [rev acc @ w]) @ fields_aux [] s"
  by (induction w arbitrary: acc) auto

lemma fields_aux_plain_end:
  "list_all plain_char w \<Longrightarrow> fields_aux acc w = (if acc = [] \<and> w = [] then [] else [rev acc @ w])"
  by (induction w arbitrary: acc) auto

lemma fields_join_plain:
  "list_all (\<lambda>w. w \<noteq> [] \<and> list_all plain_char w) ws \<Longrightarrow> fields (join '' '' ws) = ws"
proof (induction ws)
  case (Cons w ws)
  then show ?case
    by (cases ws) (auto simp: fields_def fields_aux_plain fields_aux_plain_end)
qed (simp add: fields_def)

section \<open>Cutsets and replacement\<close>

text \<open>\<^verbatim>\<open>strings.TrimRight\<close>, \<^verbatim>\<open>strings.Trim\<close> with an ASCII cutset.\<close>

definition trim_right :: "bytes \<Rightarrow> bytes \<Rightarrow> bytes" where
  "trim_right s cutset = rev (dropWhile (\<lambda>c. c \<in> set cutset) (rev s))"

definition trim_chars :: "bytes \<Rightarrow> bytes \<Rightarrow> bytes" where
  "trim_chars s cutset = trim_right (dropWhile (\<lambda>c. c \<in> set cutset) s) cutset"

lemma trim_right_padding:
  "cutset = [c] \<Longrightarrow> (s = [] \<or> last s \<noteq> c) \<Longrightarrow> trim_right (s @ replicate n c) cutset = s"
proof -
  assume "cutset = [c]" "s = [] \<or> last s \<noteq> c"
  have "dropWhile (\<lambda>x. x = c) (replicate n c @ rev s) = dropWhile (\<lambda>x. x = c) (rev s)"
    by (induction n) auto
  moreover have "dropWhile (\<lambda>x. x = c) (rev s) = rev s"
    using \<open>s = [] \<or> last s \<noteq> c\<close> by (cases s rule: rev_cases) auto
  ultimately show ?thesis using \<open>cutset = [c]\<close> by (simp add: trim_right_def)
qed

definition replace_all :: "bytes \<Rightarrow> bytes \<Rightarrow> bytes \<Rightarrow> bytes" where
  "replace_all s old new = join new (split s old)"

section \<open>Decimal numbers\<close>

definition digit_char :: "nat \<Rightarrow> char" where
  "digit_char d = char_of (48 + d)"

definition is_digit :: "char \<Rightarrow> bool" where
  "is_digit c = (48 \<le> (of_char c :: nat) \<and> (of_char c :: nat) \<le> 57)"

definition digit_val :: "char \<Rightarrow> nat" where
  "digit_val c = of_char c - 48"

fun itoa :: "nat \<Rightarrow> bytes" where
  "itoa n = (if n < 10 then [digit_char n] else itoa (n div 10) @ [digit_char (n mod 10)])"

declare itoa.simps [simp del]

definition itoa_int :: "int \<Rightarrow> bytes" where
  "itoa_int i = (if i < 0 then CHR ''-'' # itoa (nat (- i)) else itoa (nat i))"

definition dec_val :: "bytes \<Rightarrow> nat" where
  "dec_val s = foldl (\<lambda>n c. n * 10 + digit_val c) 0 s"

lemma digit_char_digit [simp]: "d < 10 \<Longrightarrow> is_digit (digit_char d)"
  by (simp add: is_digit_def digit_char_def)

lemma digit_val_char [simp]: "d < 10 \<Longrightarrow> digit_val (digit_char d) = d"
  by (simp add: digit_val_def digit_char_def)

lemma itoa_digits: "\<forall>c \<in> set (itoa n). is_digit c"
proof (induction n rule: itoa.induct)
  case (1 n)
  then show ?case by (cases "n < 10") (auto simp: itoa.simps [of n])
qed

lemma itoa_not_Nil [simp]: "itoa n \<noteq> []"
  by (subst itoa.simps) simp

lemma dec_val_itoa [simp]: "dec_val (itoa n) = n"
proof (induction n rule: itoa.induct)
  case (1 n)
  then show ?case by (cases "n < 10") (auto simp: itoa.simps [of n] dec_val_def)
qed

lemma itoa_inject [simp]: "itoa m = itoa n \<longleftrightarrow> m = n"
  by (metis dec_val_itoa)

lemma not_digit_notin_itoa: "\<not> is_digit c \<Longrightarrow> c \<notin> set (itoa n)"
  using itoa_digits by blast

text \<open>\<^verbatim>\<open>strconv.Atoi\<close> on a 64-bit platform, and the \<^verbatim>\<open>%d\<close> verb of \<^verbatim>\<open>fmt.Sscanf\<close>, which skips
  spaces other than a newline, reads the longest numeral at the front and assigns nothing
  when there is none or it overflows.\<close>

definition int64_range :: "int \<Rightarrow> bool" where
  "int64_range i = (- (2 ^ 63) \<le> i \<and> i < 2 ^ 63)"

definition signed_split :: "bytes \<Rightarrow> int \<times> bytes" where
  "signed_split s =
     (case s of
        [] \<Rightarrow> (1, [])
      | c # cs \<Rightarrow> if c = CHR ''-'' then (-1, cs) else if c = CHR ''+'' then (1, cs) else (1, s))"

definition atoi :: "bytes \<Rightarrow> int option" where
  "atoi s =
     (case signed_split s of (sg, ds) \<Rightarrow>
        if ds \<noteq> [] \<and> list_all is_digit ds \<and> int64_range (sg * int (dec_val ds))
        then Some (sg * int (dec_val ds)) else None)"

definition sscanf_d :: "bytes \<Rightarrow> int option" where
  "sscanf_d s =
     (case signed_split (trim_encs (filter (\<lambda>e. e \<noteq> [LF]) space_encs) s) of (sg, r) \<Rightarrow>
        let ds = takeWhile is_digit r in
        if ds \<noteq> [] \<and> int64_range (sg * int (dec_val ds)) then Some (sg * int (dec_val ds))
        else None)"

lemma signed_split_digits:
  assumes "list_all is_digit s"
  shows "signed_split s = (1, s)"
proof -
  have "\<not> is_digit (CHR ''-'')" "\<not> is_digit (CHR ''+'')" by (simp_all add: is_digit_def)
  with assms show ?thesis by (auto simp: signed_split_def split: list.split)
qed

lemma atoi_itoa: "n < 2 ^ 63 \<Longrightarrow> atoi (itoa n) = Some (int n)"
proof -
  assume n: "n < 2 ^ 63"
  have d: "list_all is_digit (itoa n)" by (simp add: list_all_iff itoa_digits)
  from n have "int n < int (2 ^ 63)" by (simp only: of_nat_less_iff)
  then have "int64_range (int n)" by (simp add: int64_range_def)
  then show ?thesis by (simp add: atoi_def signed_split_digits [OF d] d)
qed

end
