(* ===== verification/IO_Event.thy ===== *)
theory IO_Event
  imports Go_Strings
begin

text \<open>
  The event record \<^verbatim>\<open>ioevent.IOEvent\<close> (api/ioevent/event.go): its fixed-width little-endian
  encoding, the decoder with the errors of \<^verbatim>\<open>io.ReadFull\<close>, the ring-buffer decoder of the
  agent, and the conversion to and from the gRPC message (api/grpcapi/events.go).
  The codecs are instances of the locales \<open>fixed_codec\<close> and \<open>stream_codec\<close>, in which the
  round trips are proved once.
\<close>

section \<open>Codecs of fixed width\<close>

datatype read_error = EOF | UnexpectedEOF

text \<open>\<^verbatim>\<open>io.ReadFull\<close>: nothing left is \<^verbatim>\<open>io.EOF\<close>, too little is \<^verbatim>\<open>io.ErrUnexpectedEOF\<close>.\<close>

definition read_full :: "nat \<Rightarrow> bytes \<Rightarrow> read_error + bytes \<times> bytes" where
  "read_full n r =
     (if r = [] then Inl EOF
      else if length r < n then Inl UnexpectedEOF
      else Inr (take n r, drop n r))"

locale fixed_codec =
  fixes put :: "'a \<Rightarrow> bytes" and get :: "bytes \<Rightarrow> 'a" and width :: nat
    and valid :: "'a \<Rightarrow> bool"
  assumes length_put: "valid x \<Longrightarrow> length (put x) = width"
    and get_put: "valid x \<Longrightarrow> get (put x) = x"
begin

lemma get_take: "valid x \<Longrightarrow> get (take width (put x @ r)) = x"
  by (simp add: length_put get_put)

lemma drop_put: "valid x \<Longrightarrow> drop width (put x @ r) = r"
  by (simp add: length_put)

lemma put_inject: "valid x \<Longrightarrow> valid y \<Longrightarrow> put x = put y \<longleftrightarrow> x = y"
  by (metis get_put)

end

locale stream_codec = fixed_codec +
  fixes dec :: "bytes \<Rightarrow> read_error + 'a \<times> bytes"
    and dec_all :: "bytes \<Rightarrow> read_error + 'a list"
  assumes width_pos: "0 < width"
    and dec_eq: "dec r = (case read_full width r of
                            Inl e \<Rightarrow> Inl e | Inr (b, r') \<Rightarrow> Inr (get b, r'))"
    and dec_all_eq: "dec_all r = (case dec r of
                            Inl e \<Rightarrow> if e = EOF then Inr [] else Inl e
                          | Inr (x, r') \<Rightarrow> (case dec_all r' of Inl e \<Rightarrow> Inl e | Inr xs \<Rightarrow> Inr (x # xs)))"
begin

lemma dec_all_Nil: "dec_all [] = Inr []"
  by (subst dec_all_eq) (simp add: dec_eq read_full_def)

lemma dec_all_short: "r \<noteq> [] \<Longrightarrow> length r < width \<Longrightarrow> dec_all r = Inl UnexpectedEOF"
  by (subst dec_all_eq) (simp add: dec_eq read_full_def)

lemma dec_put: "valid x \<Longrightarrow> dec (put x @ r) = Inr (x, r)"
  using width_pos length_put [of x] by (auto simp: dec_eq read_full_def get_take drop_put get_put)

lemma dec_all_put:
  "valid x \<Longrightarrow> dec_all (put x @ r) = (case dec_all r of Inl e \<Rightarrow> Inl e | Inr xs \<Rightarrow> Inr (x # xs))"
  by (subst dec_all_eq) (simp add: dec_put)

text \<open>The decoder inverts concatenation, and reports a truncated tail.\<close>

lemma dec_all_concat:
  "list_all valid xs \<Longrightarrow>
   dec_all (concat (map put xs) @ r) = (case dec_all r of Inl e \<Rightarrow> Inl e | Inr ys \<Rightarrow> Inr (xs @ ys))"
  by (induction xs) (auto simp: dec_all_put split: sum.split)

lemma dec_all_stream: "list_all valid xs \<Longrightarrow> dec_all (concat (map put xs)) = Inr xs"
  using dec_all_concat [of xs "[]"] by (simp add: dec_all_Nil)

lemma dec_all_truncated:
  "list_all valid xs \<Longrightarrow> t \<noteq> [] \<Longrightarrow> length t < width \<Longrightarrow>
   dec_all (concat (map put xs) @ t) = Inl UnexpectedEOF"
  by (simp add: dec_all_concat dec_all_short)

lemma dec_all_ok_iff: "(\<exists>xs. dec_all r = Inr xs) \<longleftrightarrow> width dvd length r"
proof (induction "length r" arbitrary: r rule: less_induct)
  case less
  consider "r = []" | "r \<noteq> []" "length r < width" | "width \<le> length r" by force
  then show ?case
  proof cases
    case 2
    then show ?thesis by (auto simp: dec_all_short dest: dvd_imp_le)
  next
    case 3
    then have r: "r \<noteq> []" "length (drop width r) < length r" using width_pos by auto
    have step: "dec_all r = (case dec_all (drop width r) of Inl e \<Rightarrow> Inl e
        | Inr xs \<Rightarrow> Inr (get (take width r) # xs))"
      using 3 r by (subst dec_all_eq) (simp add: dec_eq read_full_def)
    have "width dvd length (drop width r) \<longleftrightarrow> width dvd length r"
      using 3 by (simp add: dvd_minus_self)
    with less [OF r(2)] show ?thesis by (auto simp: step split: sum.splits)
  qed (simp add: dec_all_Nil)
qed

end

section \<open>Little-endian words\<close>

fun put_le :: "nat \<Rightarrow> 'a::len word \<Rightarrow> bytes" where
  "put_le 0 w = []"
| "put_le (Suc n) w = char_of (unat w) # put_le n (drop_bit 8 w)"

fun get_le :: "bytes \<Rightarrow> 'a::len word" where
  "get_le [] = 0"
| "get_le (c # cs) = or (of_nat (of_char c)) (push_bit 8 (get_le cs))"

lemma length_put_le [simp, len_simps]: "length (put_le n w) = n"
  by (induction n arbitrary: w) auto

lemma get_le_put_le: "get_le (put_le n w) = take_bit (8 * n) w"
proof (induction n arbitrary: w)
  case (Suc n)
  have low: "of_nat (unat w mod 256) = take_bit 8 w"
    using take_bit_of_nat [of 8 "unat w", where ?'a = "'a word"] by (simp add: take_bit_eq_mod)
  show ?case
    by (rule bit_eqI) (auto simp: Suc low bit_simps)
qed simp

interpretation le32: fixed_codec "put_le 4 :: u32 \<Rightarrow> bytes" get_le 4 "\<lambda>_. True"
  by unfold_locales (simp_all add: get_le_put_le take_bit_word_eq_self)

interpretation le64: fixed_codec "put_le 8 :: u64 \<Rightarrow> bytes" get_le 8 "\<lambda>_. True"
  by unfold_locales (simp_all add: get_le_put_le take_bit_word_eq_self)

section \<open>The event record\<close>

definition MaxPayloadLen :: nat where "MaxPayloadLen = 2048"
definition CommLen :: nat where "CommLen = 16"
definition RecordSize :: nat where "RecordSize = 8 + 8 + 4 + 4 + 1 + CommLen + MaxPayloadLen"

lemmas size_defs = MaxPayloadLen_def CommLen_def RecordSize_def

record ioevent =
  PidTgid :: u64
  TimestampNs :: u64
  Fd :: u32
  PayloadLen :: u32
  IsWrite :: u8
  Comm :: bytes
  Payload :: bytes

text \<open>\<^verbatim>\<open>Comm\<close> and \<^verbatim>\<open>Payload\<close> are arrays; the zero value of the record is \<open>zero_event\<close>.\<close>

definition wf_event :: "ioevent \<Rightarrow> bool" where
  "wf_event e = (length (Comm e) = CommLen \<and> length (Payload e) = MaxPayloadLen)"

definition zero_event :: ioevent where
  "zero_event = \<lparr>PidTgid = 0, TimestampNs = 0, Fd = 0, PayloadLen = 0, IsWrite = 0,
     Comm = replicate CommLen NUL, Payload = replicate MaxPayloadLen NUL\<rparr>"

text \<open>\<^verbatim>\<open>evt.Payload[:evt.PayloadLen]\<close> panics on a length field beyond the array.\<close>

definition pl_ok :: "ioevent \<Rightarrow> bool" where
  "pl_ok e = (unat (PayloadLen e) \<le> MaxPayloadLen)"

definition payload_slice :: "ioevent \<Rightarrow> bytes option" where
  "payload_slice e = slice_to (unat (PayloadLen e)) (Payload e)"

abbreviation payload_of :: "ioevent \<Rightarrow> bytes" where
  "payload_of e \<equiv> take (unat (PayloadLen e)) (Payload e)"

lemma wf_zero_event [simp, wf_intros]: "wf_event zero_event"
  by (simp add: wf_event_def zero_event_def)

lemma payload_slice_Some: "wf_event e \<Longrightarrow> pl_ok e \<Longrightarrow> payload_slice e = Some (payload_of e)"
  by (simp add: payload_slice_def wf_event_def pl_ok_def)

lemma payload_slice_panics_iff: "wf_event e \<Longrightarrow> payload_slice e = None \<longleftrightarrow> \<not> pl_ok e"
  by (simp add: payload_slice_def wf_event_def pl_ok_def slice_to_def)

section \<open>Encoding and decoding\<close>

definition Encode :: "ioevent \<Rightarrow> bytes" where
  "Encode e =
     put_le 8 (PidTgid e) @ put_le 8 (TimestampNs e) @ put_le 4 (Fd e) @ put_le 4 (PayloadLen e)
     @ [char_of (unat (IsWrite e))]
     @ go_copy (replicate CommLen NUL) (Comm e)
     @ go_copy (replicate MaxPayloadLen NUL) (Payload e)"

definition event_of_record :: "bytes \<Rightarrow> ioevent" where
  "event_of_record buf =
     \<lparr>PidTgid = get_le (take 8 buf),
      TimestampNs = get_le (take 8 (drop 8 buf)),
      Fd = get_le (take 4 (drop 16 buf)),
      PayloadLen = get_le (take 4 (drop 20 buf)),
      IsWrite = of_nat (of_char (buf ! 24)),
      Comm = go_copy (replicate CommLen NUL) (take CommLen (drop 25 buf)),
      Payload = go_copy (replicate MaxPayloadLen NUL) (drop 41 buf)\<rparr>"

definition Decode :: "bytes \<Rightarrow> read_error + ioevent \<times> bytes" where
  "Decode r =
     (case read_full RecordSize r of
        Inl err \<Rightarrow> Inl err
      | Inr (buf, rest) \<Rightarrow> Inr (event_of_record buf, rest))"

text \<open>The loop of \<^verbatim>\<open>drearchive.ParseTarGz\<close> over \<^verbatim>\<open>events.bin\<close>.\<close>

function decode_events :: "bytes \<Rightarrow> read_error + ioevent list" where
  "decode_events r =
     (case Decode r of
        Inl err \<Rightarrow> if err = EOF then Inr [] else Inl err
      | Inr (evt, rest) \<Rightarrow>
          (case decode_events rest of Inl err \<Rightarrow> Inl err | Inr evts \<Rightarrow> Inr (evt # evts)))"
  by pat_completeness auto
termination
  by (relation "measure length")
    (auto simp: Decode_def read_full_def size_defs split: if_splits)

declare decode_events.simps [simp del]

lemma length_Encode [simp, len_simps]: "length (Encode e) = RecordSize"
  by (simp add: Encode_def size_defs)

lemma event_of_record_wf [simp, wf_intros]: "wf_event (event_of_record buf)"
  by (simp add: wf_event_def event_of_record_def)

lemma event_of_record_Encode:
  assumes "wf_event e"
  shows "event_of_record (Encode e) = e"
proof -
  have c: "go_copy (replicate CommLen NUL) (Comm e) = Comm e"
    and p: "go_copy (replicate MaxPayloadLen NUL) (Payload e) = Payload e"
    using assms by (simp_all add: wf_event_def go_copy_same_length)
  have b: "unat (IsWrite e) mod 256 = unat (IsWrite e)" using unsigned_less [of "IsWrite e", where ?'a = nat] by simp
  have len: "length (Comm e) = 16" "length (Payload e) = 2048"
    using assms by (simp_all add: wf_event_def size_defs)
  show ?thesis
    by (rule ioevent.equality)
      (simp_all add: event_of_record_def Encode_def c p b len nth_append get_le_put_le
        take_bit_word_eq_self go_copy_def size_defs)
qed

interpretation events: stream_codec Encode event_of_record RecordSize wf_event Decode decode_events
proof unfold_locales
  show "decode_events r = (case Decode r of Inl e \<Rightarrow> if e = EOF then Inr [] else Inl e
      | Inr (x, r') \<Rightarrow> (case decode_events r' of Inl e \<Rightarrow> Inl e | Inr xs \<Rightarrow> Inr (x # xs)))" for r
    by (rule decode_events.simps)
qed (simp_all add: event_of_record_Encode Decode_def size_defs)

lemma decode_events_wf: "decode_events r = Inr es \<Longrightarrow> list_all wf_event es"
proof (induction r arbitrary: es rule: decode_events.induct)
  case (1 r)
  show ?case
  proof (cases "Decode r")
    case (Inl err)
    with "1.prems" show ?thesis by (simp add: decode_events.simps [of r] split: if_splits)
  next
    case (Inr p)
    then obtain e rest where d: "Decode r = Inr (e, rest)" by (cases p) auto
    then have "wf_event e" by (auto simp: Decode_def split: sum.splits)
    with 1 d show ?thesis by (auto simp: decode_events.simps [of r] split: sum.splits)
  qed
qed

text \<open>The agent decodes ring-buffer samples (dre-agent/internal/probe/probe_linux.go); a
  sample may be longer than the record.\<close>

datatype probe_error = ShortRecord

definition decodeRecord :: "bytes \<Rightarrow> probe_error + ioevent" where
  "decodeRecord raw =
     (if length raw < RecordSize then Inl ShortRecord else Inr (event_of_record raw))"

lemma event_of_record_append:
  assumes "length buf = RecordSize"
  shows "event_of_record (buf @ extra) = event_of_record buf"
proof -
  have n: "length buf = 2089" using assms by (simp add: size_defs)
  show ?thesis
    by (simp add: event_of_record_def go_copy_def size_defs n nth_append)
qed

section \<open>The gRPC message\<close>

record pb_event =
  pb_pid_tgid :: u64
  pb_timestamp_ns :: u64
  pb_fd :: u32
  pb_payload_len :: u32
  pb_is_write :: u32
  pb_comm :: bytes
  pb_payload :: bytes
  pb_node_id :: bytes

definition clamp_len :: "u32 \<Rightarrow> u32" where
  "clamp_len pl = (if of_nat MaxPayloadLen < pl then of_nat MaxPayloadLen else pl)"

definition IOEventFromNative :: "ioevent \<Rightarrow> bytes \<Rightarrow> pb_event" where
  "IOEventFromNative e nodeID =
     (let pl = clamp_len (PayloadLen e) in
      \<lparr>pb_pid_tgid = PidTgid e, pb_timestamp_ns = TimestampNs e, pb_fd = Fd e,
       pb_payload_len = pl, pb_is_write = ucast (IsWrite e),
       pb_comm = Comm e, pb_payload = take (unat pl) (Payload e), pb_node_id = nodeID\<rparr>)"

definition ToNative :: "pb_event option \<Rightarrow> ioevent" where
  "ToNative mo =
     (case mo of
        None \<Rightarrow> zero_event
      | Some m \<Rightarrow>
          let pl = clamp_len (pb_payload_len m);
              n = min (unat pl) (length (pb_payload m)) in
          zero_event\<lparr>PidTgid := pb_pid_tgid m, TimestampNs := pb_timestamp_ns m, Fd := pb_fd m,
            PayloadLen := pl, IsWrite := ucast (pb_is_write m),
            Comm := (if CommLen \<le> length (pb_comm m)
                     then go_copy (Comm zero_event) (take CommLen (pb_comm m))
                     else Comm zero_event),
            Payload := (if 0 < n then go_copy (Payload zero_event) (take n (pb_payload m))
                        else Payload zero_event)\<rparr>)"

lemma unat_clamp_len: "unat (clamp_len pl) = min (unat pl) MaxPayloadLen"
  by (auto simp: clamp_len_def size_defs word_less_nat_alt min_def)

lemma clamp_len_id: "unat pl \<le> MaxPayloadLen \<Longrightarrow> clamp_len pl = pl"
  by (auto simp: clamp_len_def size_defs word_less_nat_alt)

lemma ToNative_wf [simp, wf_intros]: "wf_event (ToNative m)"
  by (auto simp: ToNative_def Let_def wf_event_def zero_event_def split: option.split)

lemma ToNative_pl_ok [simp, wf_intros]: "pl_ok (ToNative m)"
  by (auto simp: ToNative_def Let_def pl_ok_def zero_event_def unat_clamp_len split: option.split)

text \<open>The payload bytes past the length field: what the wire drops.\<close>

definition zero_tail :: "ioevent \<Rightarrow> bool" where
  "zero_tail e = (drop (unat (PayloadLen e)) (Payload e)
                  = replicate (MaxPayloadLen - unat (PayloadLen e)) NUL)"

lemma go_copy_zero_prefix:
  "length s \<le> n \<Longrightarrow> go_copy (replicate n c) s = s @ replicate (n - length s) c"
  by (simp add: go_copy_def)

lemma payload_zero_tail:
  assumes "wf_event e" "pl_ok e" "zero_tail e"
  shows "payload_of e @ replicate (MaxPayloadLen - unat (PayloadLen e)) NUL = Payload e"
  using assms by (metis append_take_drop_id zero_tail_def)

lemma message_keeps_event:
  assumes "wf_event e" "pl_ok e" "zero_tail e"
  shows "ToNative (Some (IOEventFromNative e nodeID)) = e"
proof -
  have c: "clamp_len (PayloadLen e) = PayloadLen e"
    using assms(2) by (simp add: pl_ok_def clamp_len_id)
  have comm: "go_copy (replicate CommLen NUL) (Comm e) = Comm e"
    and lens: "length (Comm e) = CommLen" "length (Payload e) = MaxPayloadLen"
    using assms(1) by (simp_all add: wf_event_def go_copy_same_length)
  have w: "ucast (ucast (IsWrite e) :: u32) = IsWrite e"
    by (simp add: ucast_up_ucast_id is_up)
  have pay: "go_copy (replicate MaxPayloadLen NUL) (payload_of e) = Payload e"
    using payload_zero_tail [OF assms] assms(2) lens
    by (simp add: go_copy_zero_prefix pl_ok_def min_def)
  have empty: "unat (PayloadLen e) = 0 \<Longrightarrow> replicate MaxPayloadLen NUL = Payload e"
    using payload_zero_tail [OF assms] by simp
  show ?thesis
    by (rule ioevent.equality)
      (use assms(2) lens empty pay in \<open>auto simp: ToNative_def IOEventFromNative_def Let_def
         zero_event_def c comm w pl_ok_def min_def take_map unat_gt_0\<close>)
qed

section \<open>Properties\<close>

text \<open>C10: Writing any list of events to a snapshot with \<open>Encode\<close> and reading it back with the
  decoding loop of the archive gives the same list: no event is lost, reordered or changed.\<close>

theorem event_stream_roundtrip:
  assumes "list_all wf_event es"
  shows "decode_events (concat (map Encode es)) = Inr es"
  using assms by (rule events.dec_all_stream)

lemma event_stream_roundtrip_witness:
  "decode_events (concat (map Encode [zero_event, zero_event\<lparr>Fd := 7, IsWrite := 1\<rparr>]))
     = Inr [zero_event, zero_event\<lparr>Fd := 7, IsWrite := 1\<rparr>]"
  by (rule event_stream_roundtrip) (simp add: wf_event_def zero_event_def)

text \<open>The event file is accepted exactly when its length is a multiple of the record size;
  otherwise the loop ends with \<^verbatim>\<open>io.ErrUnexpectedEOF\<close>, so a truncated \<^verbatim>\<open>events.bin\<close> is never
  silently shortened.\<close>

theorem event_file_accepted_iff:
  "decode_events r = Inl UnexpectedEOF \<longleftrightarrow> \<not> RecordSize dvd length r"
proof -
  have "decode_events r \<noteq> Inl EOF"
    by (induction r rule: decode_events.induct)
      (subst decode_events.simps, auto split: sum.splits)
  then have "decode_events r = Inl UnexpectedEOF \<longleftrightarrow> \<not> (\<exists>es. decode_events r = Inr es)"
    by (cases "decode_events r") (auto, metis read_error.exhaust)
  then show ?thesis using events.dec_all_ok_iff [of r] by simp
qed

text \<open>An event whose length field fits and whose payload is zero past that length survives
  the trip through the gRPC message unchanged.\<close>

theorem grpc_roundtrip:
  assumes "wf_event e" "pl_ok e" "zero_tail e"
  shows "ToNative (Some (IOEventFromNative e nodeID)) = e"
  using assms by (rule message_keeps_event)

lemma grpc_roundtrip_witness:
  "ToNative (Some (IOEventFromNative (zero_event\<lparr>Fd := 3\<rparr>) ''node-a'')) = zero_event\<lparr>Fd := 3\<rparr>"
  by (rule grpc_roundtrip) (simp_all add: wf_event_def pl_ok_def zero_tail_def zero_event_def)

text \<open>Whatever the peer puts into a message (a missing message, a length field larger than
  the buffer or than the bytes sent, a short command name), the event that the collector
  builds from it has full arrays and a length field it can slice with, and the payload seen
  is the clamped prefix of the bytes sent, padded with zeros.\<close>

theorem ToNative_safe:
  "wf_event (ToNative mo) \<and>
   (\<exists>p. payload_slice (ToNative mo) = Some p) \<and>
   payload_slice (ToNative (Some m)) =
     Some (let pl = min (unat (pb_payload_len m)) MaxPayloadLen;
               b = take pl (pb_payload m) in b @ replicate (pl - length b) NUL)"
proof -
  have "payload_of (ToNative (Some m)) =
      (let pl = min (unat (pb_payload_len m)) MaxPayloadLen;
           b = take pl (pb_payload m) in b @ replicate (pl - length b) NUL)"
    by (auto simp: ToNative_def Let_def zero_event_def unat_clamp_len go_copy_def min_def)
  then show ?thesis
    by (metis ToNative_pl_ok ToNative_wf payload_slice_Some)
qed

end
