(* ===== verification/Rolling_Buffer.thy ===== *)
theory Rolling_Buffer
  imports IO_Event
begin

text \<open>
  The rolling window of captured events (dre-collector/internal/buffer/buffer.go).  Every
  addition reads the clock and drops the expired prefix, so with a clock that does not run
  backwards the buffer holds exactly the events of the last thirty seconds.
\<close>

section \<open>The buffer\<close>

definition WindowDuration :: instant where
  "WindowDuration = 30 * second"

record buf_event =
  be_event :: ioevent
  be_node :: bytes
  be_at :: instant

type_synonym rolling_buffer = "buf_event list"

text \<open>The loop over \<^verbatim>\<open>i\<close>: the first index whose time is after the cutoff.\<close>

fun live_from :: "instant \<Rightarrow> buf_event list \<Rightarrow> nat" where
  "live_from cutoff [] = 0"
| "live_from cutoff (ev # evs) = (if cutoff < be_at ev then 0 else Suc (live_from cutoff evs))"

definition Add :: "ioevent \<Rightarrow> bytes \<Rightarrow> instant \<Rightarrow> rolling_buffer \<Rightarrow> rolling_buffer" where
  "Add evt nodeID now events =
     (let events' = events @ [\<lparr>be_event = evt, be_node = nodeID, be_at = now\<rparr>];
          cutoff = now - WindowDuration;
          i = live_from cutoff events'
      in if 0 < i then drop i events' else events')"

definition buffer_Snapshot :: "rolling_buffer \<Rightarrow> buf_event list" where
  "buffer_Snapshot events = go_copy (replicate (length events) \<lparr>be_event = zero_event, be_node = [], be_at = 0\<rparr>) events"

definition buffer_Len :: "rolling_buffer \<Rightarrow> nat" where
  "buffer_Len events = length events"

section \<open>Lemmas\<close>

lemma drop_live_from: "drop (live_from c evs) evs = dropWhile (\<lambda>ev. be_at ev \<le> c) evs"
  by (induction evs) auto

lemma Add_eq:
  "Add evt nodeID now events =
     dropWhile (\<lambda>ev. be_at ev \<le> now - WindowDuration)
       (events @ [\<lparr>be_event = evt, be_node = nodeID, be_at = now\<rparr>])"
  using drop_live_from [of "now - WindowDuration" "events @ [\<lparr>be_event = evt, be_node = nodeID, be_at = now\<rparr>]"]
  by (auto simp: Add_def Let_def)

lemma buffer_Snapshot_eq [simp]: "buffer_Snapshot events = events"
  by (simp add: buffer_Snapshot_def go_copy_same_length)

lemma dropWhile_sorted_filter:
  fixes f :: "'a \<Rightarrow> int"
  shows "sorted (map f xs) \<Longrightarrow> dropWhile (\<lambda>x. f x \<le> c) xs = filter (\<lambda>x. c < f x) xs"
  by (induction xs) (auto simp: order_le_less_trans intro!: filter_True [symmetric])

type_synonym arrival = "ioevent \<times> bytes \<times> instant"

definition event_of :: "arrival \<Rightarrow> buf_event" where
  "event_of a = (case a of (evt, n, now) \<Rightarrow> \<lparr>be_event = evt, be_node = n, be_at = now\<rparr>)"

definition Add_all :: "arrival list \<Rightarrow> rolling_buffer \<Rightarrow> rolling_buffer" where
  "Add_all = fold (\<lambda>(evt, n, now). Add evt n now)"

lemma be_at_event_of [simp]: "be_at (event_of (evt, n, now)) = now"
  by (simp add: event_of_def)

lemma Add_all_window:
  assumes "sorted (map (\<lambda>a. snd (snd a)) arrivals)" "arrivals \<noteq> []"
  shows "Add_all arrivals [] =
    filter (\<lambda>ev. snd (snd (last arrivals)) - WindowDuration < be_at ev) (map event_of arrivals)"
  using assms
proof (induction arrivals rule: rev_induct)
  case (snoc a arrivals)
  obtain evt n now where a: "a = (evt, n, now)" by (cases a)
  have sorted: "sorted (map (\<lambda>a. snd (snd a)) arrivals)" "\<forall>b \<in> set arrivals. snd (snd b) \<le> now"
    using snoc.prems(1) by (auto simp: sorted_append a)
  have times: "map be_at (map event_of arrivals) = map (\<lambda>a. snd (snd a)) arrivals"
    by (auto simp: event_of_def)
  have before: "filter (\<lambda>ev. now - WindowDuration < be_at ev) (Add_all arrivals [])
      = filter (\<lambda>ev. now - WindowDuration < be_at ev) (map event_of arrivals)"
  proof (cases "arrivals = []")
    case True
    then show ?thesis by (simp add: Add_all_def)
  next
    case False
    then have "snd (snd (last arrivals)) \<le> now" using sorted(2) by simp
    with False snoc.IH sorted(1) show ?thesis
      by (auto simp: intro!: filter_cong)
  qed
  have sorted_buf: "sorted (map be_at (Add_all arrivals []))"
  proof (cases "arrivals = []")
    case False
    then have "Add_all arrivals [] = filter (\<lambda>ev. snd (snd (last arrivals)) - WindowDuration < be_at ev)
        (map event_of arrivals)" using snoc.IH sorted(1) by blast
    then show ?thesis using sorted(1) times by (metis sorted_filter)
  qed (simp add: Add_all_def)
  have "\<forall>ev \<in> set (Add_all arrivals []). be_at ev \<le> now"
  proof (cases "arrivals = []")
    case False
    then have "set (Add_all arrivals []) \<subseteq> set (map event_of arrivals)"
      using snoc.IH sorted(1) by auto
    moreover have "\<forall>ev \<in> set (map event_of arrivals). be_at ev \<le> now"
      using sorted(2) by (auto simp: event_of_def)
    ultimately show ?thesis by blast
  qed (simp add: Add_all_def)
  with sorted_buf have "sorted (map be_at (Add_all arrivals [] @ [event_of a]))"
    by (simp add: sorted_append a)
  then have "Add_all (arrivals @ [a]) [] =
      filter (\<lambda>ev. now - WindowDuration < be_at ev) (Add_all arrivals [] @ [event_of a])"
    using dropWhile_sorted_filter [of be_at "Add_all arrivals [] @ [event_of a]"]
    by (simp add: Add_all_def a Add_eq event_of_def)
  then show ?case using before by (simp add: a)
qed simp

section \<open>Properties\<close>



end
