(* ===== verification/Manifest.thy ===== *)
theory Manifest
  imports IO_Event
begin

text \<open>
  The metadata of a snapshot (api/manifest) and the source map store (pkg/sourcemap).
  The store is an association list kept in insertion order; it implements the interface
  \<open>keyed_store\<close>, whose laws the users of the store rely on.
\<close>

section \<open>Snapshot metadata\<close>

datatype trigger_type =
  TriggerManual | TriggerHTTP5xx | TriggerHTTP4xx | TriggerProcessExit | TriggerSIGSEGV

record trigger =
  trig_type :: trigger_type
  trig_detail :: bytes

record incident =
  inc_title :: bytes
  inc_summary :: bytes
  inc_root_cause :: bytes
  inc_services :: "bytes list"
  inc_failed_step :: bytes

record manifest =
  man_id :: bytes
  man_cluster :: bytes
  man_nodes :: "bytes list"
  man_trigger :: trigger
  man_captured_at :: instant
  man_event_count :: nat
  man_checksum :: bytes
  man_incident :: "incident option"

record vector_node =
  vn_id :: bytes
  vn_node_id :: bytes
  vn_sequence :: u64
  vn_timestamp :: u64

record vector_edge =
  ve_from :: bytes
  ve_to :: bytes

record vector_graph =
  vg_nodes :: "vector_node list"
  vg_edges :: "vector_edge list"

record redaction_entry =
  red_offset :: nat
  red_length :: nat
  red_rule :: bytes

type_synonym redaction_log = "redaction_entry list"

record clock_entry =
  ce_index :: int
  ce_timestamp :: u64

type_synonym clock_timeline = "clock_entry list"

section \<open>Source references\<close>

record source_ref =
  src_index :: int
  src_file :: bytes
  src_line :: int
  src_column :: int
  src_function :: bytes

type_synonym source_map = "source_ref list"

definition RefForIndex :: "source_map \<Rightarrow> int \<Rightarrow> source_ref option" where
  "RefForIndex m index = find (\<lambda>r. src_index r = index) m"

text \<open>\<^verbatim>\<open>sourcemap.Store.Set\<close>: the first reference with the index is overwritten in place,
  otherwise the new one is appended.\<close>

fun Store_Set :: "source_map \<Rightarrow> int \<Rightarrow> bytes \<Rightarrow> int \<Rightarrow> int \<Rightarrow> bytes \<Rightarrow> source_map" where
  "Store_Set [] index file line column fn =
     [\<lparr>src_index = index, src_file = file, src_line = line, src_column = column, src_function = fn\<rparr>]"
| "Store_Set (r # refs) index file line column fn =
     (if src_index r = index
      then \<lparr>src_index = index, src_file = file, src_line = line, src_column = column,
            src_function = fn\<rparr> # refs
      else r # Store_Set refs index file line column fn)"

text \<open>\<^verbatim>\<open>Store.Snapshot\<close> copies the slice; \<^verbatim>\<open>Store.RefForIndex\<close> looks the copy up.\<close>

definition Store_Snapshot :: "source_map \<Rightarrow> source_map" where
  "Store_Snapshot refs = map id refs"

definition Store_RefForIndex :: "source_map \<Rightarrow> int \<Rightarrow> source_ref option" where
  "Store_RefForIndex refs index = RefForIndex (Store_Snapshot refs) index"

definition store_put :: "int \<Rightarrow> source_ref \<Rightarrow> source_map \<Rightarrow> source_map" where
  "store_put k r m = Store_Set m k (src_file r) (src_line r) (src_column r) (src_function r)"

section \<open>The interface of a keyed store\<close>

locale keyed_store =
  fixes empty :: 's and put :: "'k \<Rightarrow> 'v \<Rightarrow> 's \<Rightarrow> 's" and get :: "'s \<Rightarrow> 'k \<Rightarrow> 'v option"
    and norm :: "'k \<Rightarrow> 'v \<Rightarrow> 'v" and inv :: "'s \<Rightarrow> bool"
  assumes get_empty: "get empty k = None"
    and get_put: "get (put k v s) k' = (if k' = k then Some (norm k v) else get s k')"
    and inv_empty: "inv empty"
    and inv_put: "inv s \<Longrightarrow> inv (put k v s)"
begin

lemma inv_puts: "inv s \<Longrightarrow> inv (fold (\<lambda>(k, v). put k v) kvs s)"
  by (induction kvs arbitrary: s) (auto simp: inv_put)

text \<open>A run of writes answers every lookup with the last write to that key.\<close>

lemma get_puts:
  "get (fold (\<lambda>(k, v). put k v) kvs s) k =
     (case map_of (rev kvs) k of Some v \<Rightarrow> Some (norm k v) | None \<Rightarrow> get s k)"
proof (induction kvs arbitrary: s)
  case Nil
  then show ?case by simp
next
  case (Cons kv kvs)
  obtain k' v' where kv: "kv = (k', v')" by (cases kv)
  show ?case by (simp add: kv Cons.IH get_put map_add_def split: option.split)
qed

end

definition distinct_indices :: "source_map \<Rightarrow> bool" where
  "distinct_indices m = distinct (map src_index m)"

lemma set_Store_Set: "src_index ` set (Store_Set m k f l c fn) = insert k (src_index ` set m)"
  by (induction m) auto

lemma RefForIndex_Store_Set:
  "RefForIndex (Store_Set m k f l c fn) k' =
     (if k' = k
      then Some \<lparr>src_index = k, src_file = f, src_line = l, src_column = c, src_function = fn\<rparr>
      else RefForIndex m k')"
  by (induction m) (auto simp: RefForIndex_def)

lemma distinct_Store_Set: "distinct_indices m \<Longrightarrow> distinct_indices (Store_Set m k f l c fn)"
proof (induction m)
  case (Cons r m)
  then show ?case by (auto simp: distinct_indices_def set_Store_Set)
qed (simp add: distinct_indices_def)

interpretation source_store: keyed_store "[]" store_put Store_RefForIndex
  "\<lambda>k r. r\<lparr>src_index := k\<rparr>" distinct_indices
proof unfold_locales
  show "Store_RefForIndex (store_put k v s) k' =
      (if k' = k then Some (v\<lparr>src_index := k\<rparr>) else Store_RefForIndex s k')" for k v s k'
    by (cases v) (simp add: Store_RefForIndex_def Store_Snapshot_def store_put_def RefForIndex_Store_Set)
next
  show "distinct_indices []" by (simp add: distinct_indices_def)
qed (simp_all add: Store_RefForIndex_def Store_Snapshot_def RefForIndex_def store_put_def
      distinct_Store_Set)

section \<open>Properties\<close>

text \<open>After any sequence of recordings the source map has one reference per event index, and
  looking an index up gives the reference recorded for it last, or nothing when it was never
  recorded.\<close>

theorem source_map_last_write:
  "distinct_indices (fold (\<lambda>(k, r). store_put k r) kvs []) \<and>
   Store_RefForIndex (fold (\<lambda>(k, r). store_put k r) kvs []) k =
     map_option (\<lambda>r. r\<lparr>src_index := k\<rparr>) (map_of (rev kvs) k)"
  using source_store.inv_puts [OF source_store.inv_empty, of kvs] source_store.get_puts [of kvs "[]" k]
  by (auto simp: source_store.get_empty split: option.split)

end
