(* ===== verification/Trigger.thy ===== *)
theory Trigger
  imports Manifest Go_Strings
begin

text \<open>
  The snapshot triggers (dre-collector/internal/trigger).  An engine matches the payload of
  every captured read against its status-line rules and calls the snapshot function; automatic
  triggers are rate limited, explicit ones are not.  \<open>fire\<close> reads the clock twice (for
  \<^verbatim>\<open>time.Since\<close> and for \<^verbatim>\<open>time.Now\<close>), so an operation takes a pair of readings.  What the
  snapshot function is called with is returned beside the engine.
\<close>

section \<open>The engine\<close>

record tengine =
  te_on_snap :: bool
  te_rules5xx :: "bytes list"
  te_rules4xx :: "bytes list"
  te_trigger4xx :: bool
  te_cooldown :: instant
  te_last_fire :: "instant option"

definition trigger_New :: "bool \<Rightarrow> tengine" where
  "trigger_New onSnap =
     \<lparr>te_on_snap = onSnap, te_rules5xx = [''HTTP/1.1 5'', ''HTTP/1.0 5''],
      te_rules4xx = [''HTTP/1.1 4'', ''HTTP/1.0 4''], te_trigger4xx = False,
      te_cooldown = 60 * second, te_last_fire = None\<rparr>"

definition SetTrigger4xx :: "bool \<Rightarrow> tengine \<Rightarrow> tengine" where
  "SetTrigger4xx enabled e = e\<lparr>te_trigger4xx := enabled\<rparr>"

text \<open>Rules from a file: reading it and the YAML decoder are parameters.\<close>

definition LoadRules ::
  "(bytes \<Rightarrow> 'err + bytes) \<Rightarrow> (bytes \<Rightarrow> 'err + bytes list) \<Rightarrow> bytes \<Rightarrow> 'err + bytes list" where
  "LoadRules readFile unmarshal path =
     (if path = [] then Inr []
      else case readFile path of
        Inl err \<Rightarrow> Inl err
      | Inr data \<Rightarrow> (case unmarshal data of Inl err \<Rightarrow> Inl err | Inr http5xx \<Rightarrow> Inr http5xx))"

definition SetRules5xx :: "bytes list \<Rightarrow> tengine \<Rightarrow> tengine" where
  "SetRules5xx rs e = (if length rs = 0 then e else e\<lparr>te_rules5xx := rs\<rparr>)"

text \<open>\<^verbatim>\<open>time.Since\<close> of the zero time saturates at the largest duration.\<close>

definition since :: "instant option \<Rightarrow> instant \<Rightarrow> instant" where
  "since stamp now = (case stamp of None \<Rightarrow> 2 ^ 63 - 1 | Some t \<Rightarrow> now - t)"

definition fire :: "trigger_type \<Rightarrow> bytes \<Rightarrow> instant \<times> instant \<Rightarrow> tengine \<Rightarrow> tengine \<times> trigger option" where
  "fire t detail clk e =
     (if \<not> te_on_snap e then (e, None)
      else if (t = TriggerHTTP5xx \<or> t = TriggerHTTP4xx) \<and> since (te_last_fire e) (fst clk) < te_cooldown e
      then (e, None)
      else (e\<lparr>te_last_fire := Some (snd clk)\<rparr>, Some \<lparr>trig_type = t, trig_detail = detail\<rparr>))"

fun first_match :: "bytes \<Rightarrow> bytes list \<Rightarrow> bytes option" where
  "first_match payload [] = None"
| "first_match payload (rule # rs) =
     (if contains payload rule then Some rule else first_match payload rs)"

definition matched :: "bytes \<Rightarrow> bytes \<Rightarrow> bytes" where
  "matched rule nodeID = ''matched '' @ rule @ '' from '' @ nodeID"

definition Evaluate ::
  "ioevent \<Rightarrow> bytes \<Rightarrow> instant \<times> instant \<Rightarrow> tengine \<Rightarrow> (tengine \<times> trigger option) option" where
  "Evaluate evt nodeID clk e =
     (if IsWrite evt = 2 then Some (e, None)
      else if IsWrite evt \<noteq> 0 then Some (e, None)
      else do {
        payload \<leftarrow> payload_slice evt;
        Some (case first_match payload (te_rules5xx e) of
            Some rule \<Rightarrow> fire TriggerHTTP5xx (matched rule nodeID) clk e
          | None \<Rightarrow>
              if \<not> te_trigger4xx e then (e, None)
              else (case first_match payload (te_rules4xx e) of
                  Some rule \<Rightarrow> fire TriggerHTTP4xx (matched rule nodeID) clk e
                | None \<Rightarrow> (e, None)))
      })"

definition Manual :: "bytes \<Rightarrow> instant \<times> instant \<Rightarrow> tengine \<Rightarrow> tengine \<times> trigger option" where
  "Manual detail = fire TriggerManual detail"

definition ProcessExit :: "bytes \<Rightarrow> instant \<times> instant \<Rightarrow> tengine \<Rightarrow> tengine \<times> trigger option" where
  "ProcessExit detail = fire TriggerProcessExit detail"

definition SIGSEGV :: "bytes \<Rightarrow> instant \<times> instant \<Rightarrow> tengine \<Rightarrow> tengine \<times> trigger option" where
  "SIGSEGV detail = fire TriggerSIGSEGV detail"

section \<open>Runs of the engine\<close>

datatype trigger_op =
  OpEvaluate ioevent bytes | OpManual bytes | OpProcessExit bytes | OpSIGSEGV bytes
| OpSet4xx bool | OpSetRules "bytes list"

fun trigger_step :: "trigger_op \<Rightarrow> instant \<times> instant \<Rightarrow> tengine \<Rightarrow> (tengine \<times> trigger option) option" where
  "trigger_step (OpEvaluate evt n) clk e = Evaluate evt n clk e"
| "trigger_step (OpManual d) clk e = Some (Manual d clk e)"
| "trigger_step (OpProcessExit d) clk e = Some (ProcessExit d clk e)"
| "trigger_step (OpSIGSEGV d) clk e = Some (SIGSEGV d clk e)"
| "trigger_step (OpSet4xx b) clk e = Some (SetTrigger4xx b e, None)"
| "trigger_step (OpSetRules rs) clk e = Some (SetRules5xx rs e, None)"

text \<open>A firing is recorded with its two clock readings.\<close>

type_synonym firing = "(instant \<times> instant) \<times> trigger"

fun trigger_run :: "(trigger_op \<times> instant \<times> instant) list \<Rightarrow> tengine \<Rightarrow> (tengine \<times> firing list) option" where
  "trigger_run [] e = Some (e, [])"
| "trigger_run ((op, clk) # ops) e = do {
     (e', out) \<leftarrow> trigger_step op clk e;
     (e'', fs) \<leftarrow> trigger_run ops e';
     Some (e'', (case out of None \<Rightarrow> fs | Some trig \<Rightarrow> (clk, trig) # fs))
   }"

definition automatic :: "trigger \<Rightarrow> bool" where
  "automatic trig = (trig_type trig = TriggerHTTP5xx \<or> trig_type trig = TriggerHTTP4xx)"

text \<open>The readings of the whole run, in the order in which they were taken.\<close>

definition readings :: "(trigger_op \<times> instant \<times> instant) list \<Rightarrow> instant list" where
  "readings ops = concat (map (\<lambda>(op, t1, t2). [t1, t2]) ops)"

lemma readings_simps [simp]:
  "readings [] = []"
  "readings ((op, t1, t2) # ops) = t1 # t2 # readings ops"
  by (simp_all add: readings_def)

lemma fire_cases:
  obtains (quiet) "fire t detail clk e = (e, None)"
  | (fired) "te_on_snap e"
      "fire t detail clk e = (e\<lparr>te_last_fire := Some (snd clk)\<rparr>, Some \<lparr>trig_type = t, trig_detail = detail\<rparr>)"
      "(t = TriggerHTTP5xx \<or> t = TriggerHTTP4xx) \<longrightarrow> te_cooldown e \<le> since (te_last_fire e) (fst clk)"
  by (cases "fire t detail clk e = (e, None)") (auto simp: fire_def split: if_splits)

text \<open>One step: the cooldown is constant, and a firing is stamped and respects the last one.\<close>

definition step_ok :: "instant \<times> instant \<Rightarrow> tengine \<Rightarrow> tengine \<times> trigger option \<Rightarrow> bool" where
  "step_ok clk e res =
     (te_cooldown (fst res) = te_cooldown e \<and>
      (case snd res of
         None \<Rightarrow> te_last_fire (fst res) = te_last_fire e
       | Some trig \<Rightarrow> te_last_fire (fst res) = Some (snd clk) \<and>
           (automatic trig \<longrightarrow> te_cooldown e \<le> since (te_last_fire e) (fst clk))))"

lemma fire_ok [simp]: "step_ok clk e (fire t detail clk e)"
  by (rule fire_cases [of t detail clk e]) (auto simp: step_ok_def automatic_def)

lemma trigger_step_ok: "trigger_step op clk e = Some res \<Longrightarrow> step_ok clk e res"
proof (cases op)
  case (OpEvaluate evt n)
  have "step_ok clk e (e, None)" by (simp add: step_ok_def)
  moreover assume "trigger_step op clk e = Some res"
  ultimately show ?thesis
    using OpEvaluate
    by (auto simp: Evaluate_def bind_eq_Some_conv split: if_splits option.splits)
qed (auto simp: Manual_def ProcessExit_def SIGSEGV_def SetTrigger4xx_def SetRules5xx_def
      step_ok_def [of _ _ "(_, None)"])

lemma trigger_run_spacing:
  assumes "trigger_run ops e = Some (e', fs)" "sorted (readings ops)"
    and "\<forall>t. te_last_fire e = Some t \<longrightarrow> (\<forall>r \<in> set (readings ops). t \<le> r)"
  shows "(\<forall>f \<in> set fs. \<forall>t. automatic (snd f) \<and> te_last_fire e = Some t \<longrightarrow> te_cooldown e \<le> fst (fst f) - t)
    \<and> (\<forall>j < length fs. \<forall>i < j. automatic (snd (fs ! j)) \<longrightarrow>
         te_cooldown e \<le> fst (fst (fs ! j)) - snd (fst (fs ! i)))"
  using assms
proof (induction ops arbitrary: e fs)
  case Nil
  then show ?case by simp
next
  case (Cons op_clk ops)
  obtain op t1 t2 where op: "op_clk = (op, t1, t2)" by (cases op_clk)
  from Cons.prems(1) obtain e1 out fs' where step: "trigger_step op (t1, t2) e = Some (e1, out)"
    and run: "trigger_run ops e1 = Some (e', fs')"
    and fs: "fs = (case out of None \<Rightarrow> fs' | Some trig \<Rightarrow> ((t1, t2), trig) # fs')"
    by (auto simp: op bind_eq_Some_conv)
  have ok: "step_ok (t1, t2) e (e1, out)" using trigger_step_ok [OF step] .
  have sorted: "sorted (readings ops)" "t1 \<le> t2" "\<forall>r \<in> set (readings ops). t2 \<le> r"
    using Cons.prems(2) by (auto simp: op)
  show ?case
  proof (cases out)
    case None
    with ok have same: "te_cooldown e1 = te_cooldown e" "te_last_fire e1 = te_last_fire e"
      by (simp_all add: step_ok_def)
    have "\<forall>t. te_last_fire e1 = Some t \<longrightarrow> (\<forall>r \<in> set (readings ops). t \<le> r)"
      using Cons.prems(3) same(2) by (simp add: op)
    from Cons.IH [OF run sorted(1) this] show ?thesis using None fs same by simp
  next
    case (Some trig)
    with ok have fired: "te_cooldown e1 = te_cooldown e" "te_last_fire e1 = Some t2"
      and auto: "automatic trig \<longrightarrow> te_cooldown e \<le> since (te_last_fire e) t1"
      by (simp_all add: step_ok_def)
    have ih: "(\<forall>f \<in> set fs'. automatic (snd f) \<longrightarrow> te_cooldown e \<le> fst (fst f) - t2)
      \<and> (\<forall>j < length fs'. \<forall>i < j. automatic (snd (fs' ! j)) \<longrightarrow>
           te_cooldown e \<le> fst (fst (fs' ! j)) - snd (fst (fs' ! i)))"
      using Cons.IH [OF run sorted(1)] sorted(3) fired by simp
    have "te_cooldown e \<le> fst (fst f) - t"
      if "f \<in> set fs" "automatic (snd f)" "te_last_fire e = Some t" for f t
    proof -
      have "t \<le> t2" using Cons.prems(3) that(3) by (simp add: op)
      with that ih auto fs Some show ?thesis by (fastforce simp: since_def)
    qed
    moreover have "te_cooldown e \<le> fst (fst (fs ! j)) - snd (fst (fs ! i))"
      if "j < length fs" "i < j" "automatic (snd (fs ! j))" for i j
      using that ih fs Some by (cases i; cases j) auto
    ultimately show ?thesis by blast
  qed
qed

lemma cooldown_New [simp]: "te_cooldown (trigger_New b) = 60 * second"
  and last_fire_New [simp]: "te_last_fire (trigger_New b) = None"
  by (simp_all add: trigger_New_def)

lemma first_match_Some_iff:
  "first_match payload rs = Some rule \<longleftrightarrow>
     (\<exists>us vs. rs = us @ rule # vs \<and> sublist rule payload \<and> (\<forall>u \<in> set us. \<not> sublist u payload))"
proof (induction rs)
  case (Cons r rs)
  show ?case
  proof (cases "sublist r payload")
    case True
    then show ?thesis by (auto simp: contains_iff Cons_eq_append_conv)
  next
    case False
    let ?first = "\<lambda>xs us vs. xs = us @ rule # vs \<and> sublist rule payload \<and> (\<forall>u \<in> set us. \<not> sublist u payload)"
    have "?first rs us vs \<Longrightarrow> ?first (r # rs) (r # us) vs" for us vs using False by simp
    moreover have "?first (r # rs) us vs \<Longrightarrow> ?first rs (tl us) vs" for us vs
      using False by (cases us) auto
    ultimately have "(\<exists>us vs. ?first (r # rs) us vs) = (\<exists>us vs. ?first rs us vs)" by blast
    with Cons False show ?thesis by (simp add: contains_iff)
  qed
qed simp

lemma first_match_None_iff: "first_match payload rs = None \<longleftrightarrow> (\<forall>r \<in> set rs. \<not> sublist r payload)"
  by (induction rs) (auto simp: contains_iff)

text \<open>A server error, for the examples.\<close>

definition error_event :: ioevent where
  "error_event = zero_event\<lparr>PayloadLen := 12, Payload := ''HTTP/1.1 500'' @ replicate 2036 NUL\<rparr>"

lemma error_event_facts:
  "wf_event error_event" "pl_ok error_event" "IsWrite error_event = 0"
  "payload_of error_event = ''HTTP/1.1 500''"
  by (simp_all add: error_event_def wf_event_def pl_ok_def zero_event_def size_defs)

lemma Evaluate_error_event:
  assumes "te_rules5xx e = [''HTTP/1.1 5'', ''HTTP/1.0 5'']"
  shows "Evaluate error_event ''n'' clk e = Some (fire TriggerHTTP5xx ''matched HTTP/1.1 5 from n'' clk e)"
proof -
  have "payload_slice error_event = Some ''HTTP/1.1 500''"
    using error_event_facts by (simp add: payload_slice_Some)
  moreover have "first_match ''HTTP/1.1 500'' (te_rules5xx e) = Some ''HTTP/1.1 5''"
    by (simp add: assms contains_def)
  ultimately show ?thesis using error_event_facts(3) by (simp only: Evaluate_def matched_def) simp
qed

section \<open>Properties\<close>

text \<open>C19: Rate limiting.  In every run of a fresh engine with a clock that does not run backwards,
  an automatic (5xx or 4xx) snapshot is taken at least sixty seconds after every earlier
  snapshot, automatic or not, whatever operations come between.\<close>

theorem automatic_triggers_are_spaced:
  assumes "trigger_run ops (trigger_New b) = Some (e, fs)" "sorted (readings ops)"
    and "j < length fs" "i < j" "automatic (snd (fs ! j))"
  shows "60 * second \<le> fst (fst (fs ! j)) - snd (fst (fs ! i))"
  using trigger_run_spacing [OF assms(1,2)] assms(3-5) by simp

lemma automatic_triggers_are_spaced_witness:
  "\<exists>e fs. trigger_run [(OpManual ''a'', 0, 0), (OpEvaluate error_event ''n'', 30 * second, 30 * second),
       (OpEvaluate error_event ''n'', 61 * second, 61 * second)] (trigger_New True) = Some (e, fs) \<and>
     map fst fs = [(0, 0), (61 * second, 61 * second)] \<and> 60 * second \<le> fst (fst (fs ! 1)) - snd (fst (fs ! 0))"
proof -
  let ?ops = "[(OpManual ''a'', 0, 0), (OpEvaluate error_event ''n'', 30 * second, 30 * second),
    (OpEvaluate error_event ''n'', 61 * second, 61 * second)]"
  let ?fs = "[((0, 0), \<lparr>trig_type = TriggerManual, trig_detail = ''a''\<rparr>),
    ((61 * second, 61 * second),
     \<lparr>trig_type = TriggerHTTP5xx, trig_detail = ''matched HTTP/1.1 5 from n''\<rparr>)]"
  have run: "trigger_run ?ops (trigger_New True)
      = Some ((trigger_New True)\<lparr>te_last_fire := Some (61 * second)\<rparr>, ?fs)"
    by (simp add: Manual_def Evaluate_error_event trigger_New_def fire_def since_def)
  from automatic_triggers_are_spaced [OF run, of 1 0] run show ?thesis
    by (simp add: automatic_def)
qed

text \<open>What an event triggers.  For a captured read with a valid length field and an engine
  that is not cooling down, the first 5xx rule (in rule order) that occurs in the payload
  fires; only when there is none and 4xx triggers are enabled does the first 4xx rule fire;
  otherwise nothing does.  The detail names the rule and the node.\<close>

theorem Evaluate_fires_first_rule:
  assumes "wf_event evt" "pl_ok evt" "IsWrite evt = 0" "te_on_snap e"
    and "te_cooldown e \<le> since (te_last_fire e) (fst clk)"
  shows "\<exists>e' out. Evaluate evt n clk e = Some (e', out) \<and>
    (\<forall>trig. out = Some trig \<longleftrightarrow>
       (\<exists>us rule vs. te_rules5xx e = us @ rule # vs \<and> sublist rule (payload_of evt) \<and>
          (\<forall>u \<in> set us. \<not> sublist u (payload_of evt)) \<and>
          trig = \<lparr>trig_type = TriggerHTTP5xx, trig_detail = matched rule n\<rparr>) \<or>
       ((\<forall>r \<in> set (te_rules5xx e). \<not> sublist r (payload_of evt)) \<and> te_trigger4xx e \<and>
        (\<exists>us rule vs. te_rules4xx e = us @ rule # vs \<and> sublist rule (payload_of evt) \<and>
          (\<forall>u \<in> set us. \<not> sublist u (payload_of evt)) \<and>
          trig = \<lparr>trig_type = TriggerHTTP4xx, trig_detail = matched rule n\<rparr>)))"
proof -
  let ?p = "payload_of evt"
  have fire: "fire t d clk e = (e\<lparr>te_last_fire := Some (snd clk)\<rparr>, Some \<lparr>trig_type = t, trig_detail = d\<rparr>)"
    for t d using assms(4,5) by (simp add: fire_def)
  have ev: "Evaluate evt n clk e = Some (case first_match ?p (te_rules5xx e) of
            Some rule \<Rightarrow> fire TriggerHTTP5xx (matched rule n) clk e
          | None \<Rightarrow>
              if \<not> te_trigger4xx e then (e, None)
              else (case first_match ?p (te_rules4xx e) of
                  Some rule \<Rightarrow> fire TriggerHTTP4xx (matched rule n) clk e
                | None \<Rightarrow> (e, None)))"
    using assms(1-3) by (simp add: Evaluate_def payload_slice_Some)
  have m5: "(\<exists>us rule vs. te_rules5xx e = us @ rule # vs \<and> sublist rule ?p \<and>
      (\<forall>u \<in> set us. \<not> sublist u ?p) \<and> Q rule) \<longleftrightarrow> (\<exists>rule. first_match ?p (te_rules5xx e) = Some rule \<and> Q rule)"
    for Q unfolding first_match_Some_iff by blast
  have m4: "(\<exists>us rule vs. te_rules4xx e = us @ rule # vs \<and> sublist rule ?p \<and>
      (\<forall>u \<in> set us. \<not> sublist u ?p) \<and> Q rule) \<longleftrightarrow> (\<exists>rule. first_match ?p (te_rules4xx e) = Some rule \<and> Q rule)"
    for Q unfolding first_match_Some_iff by blast
  have m0: "(\<forall>r \<in> set (te_rules5xx e). \<not> sublist r ?p) \<longleftrightarrow> first_match ?p (te_rules5xx e) = None"
    by (simp add: first_match_None_iff)
  show ?thesis unfolding m5 m4 m0 ev
    by (cases "first_match ?p (te_rules5xx e)"; cases "first_match ?p (te_rules4xx e)")
      (auto simp: fire)
qed

lemma Evaluate_fires_first_rule_witness:
  "\<exists>e' trig. Evaluate error_event ''n'' (0, 0) (trigger_New True) = Some (e', Some trig) \<and>
     trig_type trig = TriggerHTTP5xx"
proof -
  have clk: "te_cooldown (trigger_New True) \<le> since (te_last_fire (trigger_New True)) (fst (0, 0))"
    by (simp add: since_def)
  have "te_on_snap (trigger_New True)" by (simp add: trigger_New_def)
  from Evaluate_fires_first_rule [OF error_event_facts(1-3) this clk, of "''n''"]
  obtain e' out where "Evaluate error_event ''n'' (0, 0) (trigger_New True) = Some (e', out)"
    by (elim exE conjE) (rule that)
  then show ?thesis
    using Evaluate_error_event [of "trigger_New True"] by (auto simp: fire_def since_def trigger_New_def)
qed

end
