(* ===== verification/Vector_Clock.thy ===== *)
theory Vector_Clock
  imports Manifest
begin

text \<open>
  The clock header (pkg/vectorclock/clock.go) and the collector's causality graph
  (dre-collector/internal/vector/vector.go).  \<open>header_codec\<close> is the interface between the
  writer of the header (the agent) and its reader (the collector): rendering and parsing
  agree, and a rendered value stays on one line.  The graph invariant \<open>graph_inv\<close> says which
  node every edge ends in.
\<close>

section \<open>The clock engine\<close>

definition HeaderName :: bytes where
  "HeaderName = ''X-DRE-Vector-Clock''"

type_synonym clock = "bytes \<rightharpoonup> u64"

text \<open>Reading a missing key of a \<^verbatim>\<open>map[string]uint64\<close> gives 0.\<close>

definition seq_of :: "clock \<Rightarrow> bytes \<Rightarrow> u64" where
  "seq_of m k = (case m k of None \<Rightarrow> 0 | Some v \<Rightarrow> v)"

definition clock_value :: "bytes \<Rightarrow> u64 \<Rightarrow> bytes" where
  "clock_value nodeID seq = nodeID @ '':'' @ itoa (unat seq)"

definition InjectHeader :: "bytes \<Rightarrow> clock \<Rightarrow> bytes \<times> clock" where
  "InjectHeader nodeID seq =
     (let seq' = seq(nodeID \<mapsto> seq_of seq nodeID + 1)
      in (clock_value nodeID (seq_of seq' nodeID), seq'))"

text \<open>\<^verbatim>\<open>MaybeInjectHTTP\<close>: the counter is advanced before the payload is searched for the end
  of its first line, so it advances even when nothing is inserted.\<close>

definition MaybeInjectHTTP :: "bytes \<Rightarrow> bytes \<Rightarrow> clock option \<Rightarrow> bytes \<times> clock option" where
  "MaybeInjectHTTP payload nodeID eng =
     (case eng of
        None \<Rightarrow> (payload, None)
      | Some clk \<Rightarrow>
          if length payload < 12 then (payload, Some clk)
          else if payload ! 0 \<noteq> CHR ''G'' \<and> payload ! 0 \<noteq> CHR ''P'' \<and> payload ! 0 \<noteq> CHR ''H''
          then (payload, Some clk)
          else
            (let (v, clk') = InjectHeader nodeID clk;
                 header = HeaderName @ '': '' @ v @ crlf
             in case index_of payload crlf of
                  None \<Rightarrow> (payload, Some clk')
                | Some idx \<Rightarrow>
                    (take (idx + 2) payload @ header @ drop (idx + 2) payload, Some clk')))"

section \<open>Parsing a header value\<close>

definition splitClock :: "bytes \<Rightarrow> bytes list" where
  "splitClock v =
     (case last_index v '':'' of None \<Rightarrow> [v] | Some i \<Rightarrow> [take i v, drop (i + 1) v])"

text \<open>The digits are accumulated in a \<^verbatim>\<open>uint64\<close>, which wraps around.\<close>

fun parse_digits :: "bytes \<Rightarrow> u64 \<Rightarrow> u64 option" where
  "parse_digits [] s = Some s"
| "parse_digits (c # cs) s =
     (if is_digit c then parse_digits cs (s * 10 + of_nat (digit_val c)) else None)"

definition ParseHeader :: "bytes \<Rightarrow> (bytes \<times> u64) option" where
  "ParseHeader value =
     (case splitClock value of
        [n, ds] \<Rightarrow> map_option (\<lambda>s. (n, s)) (parse_digits ds 0)
      | _ \<Rightarrow> None)"

lemma parse_digits_dec:
  "list_all is_digit ds \<Longrightarrow> parse_digits ds s = Some (s * 10 ^ length ds + of_nat (dec_val ds))"
proof (induction ds rule: rev_induct)
  case Nil
  then show ?case by (simp add: dec_val_def)
next
  case (snoc c cs)
  have app: "parse_digits (xs @ ys) a = Option.bind (parse_digits xs a) (parse_digits ys)" for xs ys a
    by (induction xs arbitrary: a) auto
  from snoc show ?case by (simp add: app dec_val_def algebra_simps)
qed

lemma splitClock_last_colon:
  assumes "CHR '':'' \<notin> set ds"
  shows "splitClock (n @ '':'' @ ds) = [n, ds]"
proof -
  have "index_of (rev ds @ '':'' @ rev n) '':'' = Some (length (rev ds))"
  proof (rule index_of_skip)
    show "\<forall>j < length (rev ds). \<not> prefix '':'' (drop j (rev ds) @ '':'' @ rev n)"
    proof (intro allI impI)
      fix j assume j: "j < length (rev ds)"
      then have "drop j (rev ds) = rev ds ! j # drop (Suc j) (rev ds)" by (rule Cons_nth_drop_Suc [symmetric])
      moreover have "rev ds ! j \<in> set ds" using j nth_mem set_rev by metis
      ultimately show "\<not> prefix '':'' (drop j (rev ds) @ '':'' @ rev n)" using assms by auto
    qed
  qed simp
  then have "last_index (n @ '':'' @ ds) '':'' = Some (length n)"
    by (simp add: last_index_def)
  then show ?thesis by (simp add: splitClock_def)
qed

lemma ParseHeader_clock_value: "ParseHeader (clock_value n s) = Some (n, s)"
proof -
  have "CHR '':'' \<notin> set (itoa (unat s))"
    by (rule not_digit_notin_itoa) (simp add: is_digit_def)
  moreover have "parse_digits (itoa (unat s)) 0 = Some s"
    by (simp add: parse_digits_dec list_all_iff itoa_digits)
  ultimately show ?thesis
    by (simp add: ParseHeader_def clock_value_def splitClock_last_colon del: append.simps append_Cons)
qed

section \<open>The header on the wire\<close>

text \<open>A pattern cannot start before a separator that it shares no character with.\<close>

lemma index_of_after_line:
  assumes p: "p \<noteq> []" "x \<notin> set p" "y \<notin> set p" and us: "\<not> sublist p us"
  shows "index_of (us @ [x, y] @ p @ vs) p = Some (length us + 2)"
proof -
  have "\<not> prefix p (drop j (us @ [x, y]) @ p @ vs)" if j: "j < length us + 2" for j
  proof
    assume pre: "prefix p (drop j (us @ [x, y]) @ p @ vs)"
    then obtain zs where zs: "drop j (us @ [x, y]) @ p @ vs = p @ zs" by (auto simp: prefix_def)
    have nth: "p ! k = (drop j (us @ [x, y]) @ p @ vs) ! k" if "k < length p" for k
      unfolding zs using that by (simp add: nth_append)
    consider "j = length us + 1" | "j \<le> length us" "length us - j < length p"
      | "j \<le> length us" "length p \<le> length us - j" using j by linarith
    then show False
    proof cases
      case 1
      then have "p ! 0 = y" using nth [of 0] p(1) by (simp add: nth_append)
      then show False using p(1,3) by (metis length_greater_0_conv nth_mem)
    next
      case 2
      then have "p ! (length us - j) = x" using nth [of "length us - j"] by (simp add: nth_append)
      then show False using p(2) 2(2) nth_mem by metis
    next
      case 3
      have "drop j (us @ [x, y]) @ p @ vs = drop j us @ ([x, y] @ p @ vs)" using 3 by simp
      with pre have "prefix p (drop j us @ ([x, y] @ p @ vs))" by simp
      then have "prefix p (drop j us)"
        by (rule prefix_length_prefix) (use 3 in simp_all)
      then show False using us by (metis append_take_drop_id prefix_imp_sublist sublist_append)
    qed
  qed
  then show ?thesis using index_of_skip [of p "us @ [x, y]" vs] p(1) by simp
qed

lemma index_of_crlf_after:
  assumes "CR \<notin> set us"
  shows "index_of (us @ crlf @ vs) crlf = Some (length us)"
proof (rule index_of_skip)
  show "\<forall>j < length us. \<not> prefix crlf (drop j us @ crlf @ vs)"
  proof (intro allI impI)
    fix j assume j: "j < length us"
    then have "drop j us = us ! j # drop (Suc j) us" by (rule Cons_nth_drop_Suc [symmetric])
    moreover have "us ! j \<noteq> CR" using j assms nth_mem by metis
    ultimately show "\<not> prefix crlf (drop j us @ crlf @ vs)" by (simp add: crlf_def)
  qed
qed simp

text \<open>What a reader finds: the text between the first header name and the end of its line.\<close>

definition header_prefix :: bytes where
  "header_prefix = HeaderName @ '': ''"

definition find_header :: "bytes \<Rightarrow> bytes option" where
  "find_header payload =
     (case index_of payload header_prefix of
        None \<Rightarrow> None
      | Some idx \<Rightarrow>
          (let rest = drop (idx + length HeaderName + 2) payload
           in case index_of rest crlf of
                None \<Rightarrow> None
              | Some e \<Rightarrow> Some (take e rest)))"

lemma header_prefix_no_crlf:
  "CR \<notin> set header_prefix" "LF \<notin> set header_prefix" "header_prefix \<noteq> []"
  "length header_prefix = length HeaderName + 2"
  by (simp_all add: header_prefix_def HeaderName_def)

lemma find_header_after_line:
  assumes "\<not> sublist header_prefix line" "CR \<notin> set v"
  shows "find_header (line @ crlf @ header_prefix @ v @ crlf @ rest) = Some v"
proof -
  have "index_of (line @ crlf @ header_prefix @ (v @ crlf @ rest)) header_prefix
      = Some (length line + 2)"
    unfolding crlf_def using assms(1)
    by (intro index_of_after_line) (simp_all add: header_prefix_no_crlf)
  then show ?thesis
    using index_of_crlf_after [OF assms(2), of rest] header_prefix_no_crlf(4)
    by (simp add: find_header_def)
qed

locale header_codec =
  fixes render :: "bytes \<Rightarrow> u64 \<Rightarrow> bytes" and parse :: "bytes \<Rightarrow> (bytes \<times> u64) option"
  assumes parse_render: "parse (render n s) = Some (n, s)"
    and render_one_line: "CR \<notin> set n \<Longrightarrow> CR \<notin> set (render n s)"
begin

lemma header_transport:
  assumes "\<not> sublist header_prefix line" "CR \<notin> set n"
  shows "Option.bind (find_header (line @ crlf @ header_prefix @ render n s @ crlf @ rest)) parse
           = Some (n, s)"
  by (simp add: find_header_after_line assms render_one_line parse_render)

lemma render_inject: "render n s = render n' s' \<longleftrightarrow> n = n' \<and> s = s'"
  by (metis parse_render option.inject prod.inject)

end

interpretation wire: header_codec clock_value ParseHeader
proof
  show "ParseHeader (clock_value n s) = Some (n, s)" for n s by (rule ParseHeader_clock_value)
  show "CR \<notin> set n \<Longrightarrow> CR \<notin> set (clock_value n s)" for n s
    using not_digit_notin_itoa [of CR "unat s"] by (auto simp: clock_value_def is_digit_def)
qed

section \<open>The collector's graph\<close>

record vengine =
  eng_clock :: clock
  eng_seq :: clock
  eng_nodes :: "vector_node list"
  eng_edges :: "vector_edge list"

definition vengine_new :: vengine where
  "vengine_new = \<lparr>eng_clock = Map.empty, eng_seq = Map.empty, eng_nodes = [], eng_edges = []\<rparr>"

definition Observe :: "bytes \<Rightarrow> u64 \<Rightarrow> vengine \<Rightarrow> vengine" where
  "Observe nodeID ts e =
     (let seqs = (eng_seq e)(nodeID \<mapsto> seq_of (eng_seq e) nodeID + 1);
          seq = seq_of seqs nodeID;
          ident = clock_value nodeID seq;
          nodes = eng_nodes e @ [\<lparr>vn_id = ident, vn_node_id = nodeID, vn_sequence = seq, vn_timestamp = ts\<rparr>]
      in e\<lparr>eng_seq := seqs, eng_nodes := nodes,
           eng_edges := (if 1 < length nodes
             then eng_edges e @ [\<lparr>ve_from = vn_id (nodes ! (length nodes - 2)), ve_to = ident\<rparr>]
             else eng_edges e)\<rparr>)"

definition MergeRemote :: "bytes \<Rightarrow> u64 \<Rightarrow> bytes \<Rightarrow> vengine \<Rightarrow> vengine" where
  "MergeRemote remoteNode seq localNode e =
     (let remoteID = clock_value remoteNode seq;
          localID = clock_value localNode (seq_of (eng_seq e) localNode)
      in e\<lparr>eng_nodes := eng_nodes e @
             [\<lparr>vn_id = remoteID, vn_node_id = remoteNode, vn_sequence = seq, vn_timestamp = 0\<rparr>],
           eng_edges := eng_edges e @ [\<lparr>ve_from = remoteID, ve_to = localID\<rparr>]\<rparr>)"

definition Graph :: "vengine \<Rightarrow> vector_graph" where
  "Graph e = \<lparr>vg_nodes = eng_nodes e, vg_edges = eng_edges e\<rparr>"

definition vector_InjectHeader :: "bytes \<Rightarrow> vengine \<Rightarrow> bytes \<times> vengine" where
  "vector_InjectHeader nodeID e =
     (let (v, clk) = InjectHeader nodeID (eng_clock e) in (v, e\<lparr>eng_clock := clk\<rparr>))"

datatype graph_op = OpObserve bytes u64 | OpMerge bytes u64 bytes

fun graph_step :: "graph_op \<Rightarrow> vengine \<Rightarrow> vengine" where
  "graph_step (OpObserve n ts) e = Observe n ts e"
| "graph_step (OpMerge r s l) e = MergeRemote r s l e"

definition node_ids :: "vengine \<Rightarrow> bytes set" where
  "node_ids e = vn_id ` set (eng_nodes e)"

text \<open>An edge starts in a recorded node, and ends in one or in event 0 of some node.\<close>

definition edge_ok :: "bytes set \<Rightarrow> vector_edge \<Rightarrow> bool" where
  "edge_ok ids ed = (ve_from ed \<in> ids \<and> (ve_to ed \<in> ids \<or> (\<exists>n. ve_to ed = clock_value n 0)))"

lemma edge_ok_mono: "edge_ok ids ed \<Longrightarrow> ids \<subseteq> ids' \<Longrightarrow> edge_ok ids' ed"
  by (auto simp: edge_ok_def)

definition graph_inv :: "vengine \<Rightarrow> bool" where
  "graph_inv e =
     ((\<forall>nd \<in> set (eng_nodes e). vn_id nd = clock_value (vn_node_id nd) (vn_sequence nd)) \<and>
      (\<forall>ed \<in> set (eng_edges e). edge_ok (node_ids e) ed) \<and>
      (\<forall>n. seq_of (eng_seq e) n \<noteq> 0 \<longrightarrow> clock_value n (seq_of (eng_seq e) n) \<in> node_ids e))"

lemma seq_of_update [simp]: "seq_of (m(k \<mapsto> v)) k' = (if k' = k then v else seq_of m k')"
  by (simp add: seq_of_def)

lemma node_ids_Observe:
  "node_ids (Observe n ts e) = insert (clock_value n (seq_of (eng_seq e) n + 1)) (node_ids e)"
  by (auto simp: node_ids_def Observe_def Let_def)

lemma node_ids_MergeRemote:
  "node_ids (MergeRemote r s l e) = insert (clock_value r s) (node_ids e)"
  by (auto simp: node_ids_def MergeRemote_def Let_def)

lemma edges_Observe:
  "set (eng_edges (Observe n ts e)) \<subseteq> set (eng_edges e) \<union>
     (if eng_nodes e = [] then {}
      else {\<lparr>ve_from = vn_id (last (eng_nodes e)), ve_to = clock_value n (seq_of (eng_seq e) n + 1)\<rparr>})"
  by (auto simp: Observe_def Let_def nth_append last_conv_nth)

lemma graph_inv_new [wf_intros]: "graph_inv vengine_new"
  by (simp add: graph_inv_def vengine_new_def seq_of_def)

lemma graph_inv_Observe [wf_intros]:
  assumes "graph_inv e"
  shows "graph_inv (Observe n ts e)"
proof -
  have nodes: "\<forall>nd \<in> set (eng_nodes (Observe n ts e)). vn_id nd = clock_value (vn_node_id nd) (vn_sequence nd)"
    using assms by (auto simp: graph_inv_def Observe_def Let_def)
  have seqs: "seq_of (eng_seq (Observe n ts e)) n' =
      (if n' = n then seq_of (eng_seq e) n + 1 else seq_of (eng_seq e) n')" for n'
    by (simp add: Observe_def Let_def)
  have last: "eng_nodes e \<noteq> [] \<Longrightarrow> vn_id (last (eng_nodes e)) \<in> node_ids e"
    by (simp add: node_ids_def)
  have "edge_ok (node_ids (Observe n ts e)) ed" if "ed \<in> set (eng_edges (Observe n ts e))" for ed
  proof (cases "ed \<in> set (eng_edges e)")
    case True
    then have "edge_ok (node_ids e) ed" using assms by (simp add: graph_inv_def)
    then show ?thesis by (rule edge_ok_mono) (auto simp: node_ids_Observe)
  next
    case False
    with that edges_Observe [of n ts e] last show ?thesis
      by (auto simp: edge_ok_def node_ids_Observe split: if_splits)
  qed
  with nodes assms show ?thesis by (simp add: graph_inv_def seqs node_ids_Observe)
qed

lemma graph_inv_MergeRemote [wf_intros]:
  assumes "graph_inv e"
  shows "graph_inv (MergeRemote r s l e)"
proof -
  have "clock_value l (seq_of (eng_seq e) l) \<in> node_ids e \<or>
      clock_value l (seq_of (eng_seq e) l) = clock_value l 0"
    using assms by (cases "seq_of (eng_seq e) l = 0") (simp_all add: graph_inv_def)
  then have new: "edge_ok (insert (clock_value r s) (node_ids e))
      \<lparr>ve_from = clock_value r s, ve_to = clock_value l (seq_of (eng_seq e) l)\<rparr>"
    by (auto simp: edge_ok_def)
  have old: "edge_ok (insert (clock_value r s) (node_ids e)) ed" if "ed \<in> set (eng_edges e)" for ed
    using assms that by (auto simp: graph_inv_def intro: edge_ok_mono)
  have "set (eng_edges (MergeRemote r s l e)) = insert
      \<lparr>ve_from = clock_value r s, ve_to = clock_value l (seq_of (eng_seq e) l)\<rparr> (set (eng_edges e))"
    and "set (eng_nodes (MergeRemote r s l e)) = insert
      \<lparr>vn_id = clock_value r s, vn_node_id = r, vn_sequence = s, vn_timestamp = 0\<rparr> (set (eng_nodes e))"
    and "eng_seq (MergeRemote r s l e) = eng_seq e"
    by (simp_all add: MergeRemote_def Let_def)
  with assms old new show ?thesis
    by (simp add: graph_inv_def node_ids_MergeRemote)
qed

lemma graph_inv_step [wf_intros]: "graph_inv e \<Longrightarrow> graph_inv (graph_step op e)"
  by (cases op) (simp_all add: graph_inv_Observe graph_inv_MergeRemote)

lemma graph_inv_run: "graph_inv e \<Longrightarrow> graph_inv (fold graph_step ops e)"
  by (induction ops arbitrary: e) (simp_all add: graph_inv_step)

lemma seq_run:
  "seq_of (eng_seq (fold graph_step ops e)) n =
     seq_of (eng_seq e) n + of_nat (length (filter (\<lambda>op. \<exists>ts. op = OpObserve n ts) ops))"
proof (induction ops arbitrary: e)
  case (Cons op ops)
  have "seq_of (eng_seq (graph_step op e)) n =
      seq_of (eng_seq e) n + (if \<exists>ts. op = OpObserve n ts then 1 else 0)"
    by (cases op) (auto simp: Observe_def MergeRemote_def Let_def)
  with Cons show ?case by (simp add: algebra_simps)
qed simp

section \<open>Properties\<close>

text \<open>C21: The clock header crosses from agent to collector intact.  When the agent inserts a
  header into a request whose first line does not already contain the header name, the
  collector's search finds exactly that value and parses it to the agent's node name and its
  advanced counter, whatever bytes follow and whatever colons the node name contains.\<close>

theorem inject_then_parse:
  assumes inj: "MaybeInjectHTTP payload n (Some clk) = (out, Some clk')"
    and changed: "out \<noteq> payload"
    and line: "\<not> sublist header_prefix (take (the (index_of payload crlf)) payload)"
    and node: "CR \<notin> set n"
  shows "Option.bind (find_header out) ParseHeader = Some (n, seq_of clk n + 1) \<and>
    seq_of clk' n = seq_of clk n + 1"
proof -
  obtain idx where idx: "index_of payload crlf = Some idx"
    and out: "out = take (idx + 2) payload @ HeaderName @ '': '' @ clock_value n (seq_of clk n + 1)
      @ crlf @ drop (idx + 2) payload"
    and clk': "clk' = clk(n \<mapsto> seq_of clk n + 1)"
    using inj changed
    by (auto simp: MaybeInjectHTTP_def InjectHeader_def Let_def split: if_splits option.splits)
  have "take (idx + 2) payload = take idx payload @ crlf"
    using index_of_take [OF idx] by simp
  with out have "out = take idx payload @ crlf @ header_prefix
      @ clock_value n (seq_of clk n + 1) @ crlf @ drop (idx + 2) payload"
    by (simp add: header_prefix_def)
  then show ?thesis
    using wire.header_transport [of "take idx payload" n] line node idx by (simp add: clk')
qed

lemma inject_then_parse_witness:
  "Option.bind (find_header (''GET /a HTTP/1.1'' @ crlf @ header_prefix @ ''a:b:1'' @ crlf @ crlf)) ParseHeader
     = Some (''a:b'', 1)"
proof -
  let ?p = "''GET /a HTTP/1.1'' @ crlf @ crlf"
  have idx: "index_of ?p crlf = Some 15" by (simp add: crlf_def)
  have inj: "MaybeInjectHTTP ?p ''a:b'' (Some Map.empty)
      = (''GET /a HTTP/1.1'' @ crlf @ header_prefix @ ''a:b:1'' @ crlf @ crlf, Some [''a:b'' \<mapsto> 1])"
    by (simp add: MaybeInjectHTTP_def InjectHeader_def seq_of_def clock_value_def itoa.simps
        digit_char_def idx header_prefix_def) (simp add: crlf_def)
  have line: "\<not> sublist header_prefix (take (the (index_of ?p crlf)) ?p)"
    unfolding idx by (auto simp: header_prefix_def HeaderName_def dest!: sublist_length_le)
  show ?thesis
    using inject_then_parse [OF inj _ line] by (simp add: seq_of_def)
qed

text \<open>The only change to a payload is the insertion of one header line after its first line;
  without a clock, for short payloads, for payloads that do not start with G, P or H, and for
  payloads without a line end, the payload is untouched.\<close>

theorem inject_is_insertion:
  "(\<exists>line rest v. payload = line @ crlf @ rest \<and>
      fst (MaybeInjectHTTP payload n eng) = line @ crlf @ HeaderName @ '': '' @ v @ crlf @ rest)
   \<or> fst (MaybeInjectHTTP payload n eng) = payload"
proof (cases "fst (MaybeInjectHTTP payload n eng) = payload")
  case False
  then obtain idx v where idx: "index_of payload crlf = Some idx"
    and out: "fst (MaybeInjectHTTP payload n eng) =
      take (idx + 2) payload @ HeaderName @ '': '' @ v @ crlf @ drop (idx + 2) payload"
    by (auto simp: MaybeInjectHTTP_def Let_def split: if_splits option.splits prod.splits)
  let ?line = "take idx payload"
  have split: "payload = ?line @ crlf @ drop (idx + 2) payload"
    using index_of_split [OF idx] by simp
  moreover have "take (idx + 2) payload = ?line @ crlf"
    using index_of_take [OF idx] by simp
  ultimately have "payload = ?line @ crlf @ drop (idx + 2) payload \<and>
      fst (MaybeInjectHTTP payload n eng) = ?line @ crlf @ HeaderName @ '': '' @ v @ crlf @ drop (idx + 2) payload"
    using out by simp
  then show ?thesis by blast
qed simp

text \<open>In every graph the collector can build, each edge starts in a recorded node and ends in
  one, or in the event number 0 of some node: the identifier given to a node that has not been
  observed yet.  The counter of each node is the number of its observed events modulo
  \<open>2 ^ 64\<close>.\<close>

theorem graph_edges_closed:
  "graph_inv (fold graph_step ops vengine_new) \<and>
   seq_of (eng_seq (fold graph_step ops vengine_new)) n =
     of_nat (length (filter (\<lambda>op. \<exists>ts. op = OpObserve n ts) ops))"
  using graph_inv_run [OF graph_inv_new] seq_run [of ops vengine_new n]
  by (simp add: vengine_new_def seq_of_def)

end
