(* ===== verification/Ingest.thy ===== *)
theory Ingest
  imports Rolling_Buffer Trigger Vector_Clock
begin

text \<open>
  The ingest service (dre-collector/internal/ingest/ingest.go): the path of one captured event
  through the header parser, the rolling buffer, the causality graph and the triggers, and the
  gRPC stream loop around it.  A trigger that fires is returned with the state it fired in;
  the collector's snapshot function runs there.
\<close>

section \<open>The service\<close>

record service =
  sv_buf :: rolling_buffer
  sv_triggers :: tengine
  sv_vector :: vengine
  sv_ingested :: nat

definition parseVectorHeader :: "ioevent \<Rightarrow> bytes \<Rightarrow> vengine \<Rightarrow> vengine option" where
  "parseVectorHeader evt localNode v =
     (if IsWrite evt \<noteq> 0 then Some v
      else do {
        payload \<leftarrow> payload_slice evt;
        Some (case find_header payload of
            None \<Rightarrow> v
          | Some val \<Rightarrow>
              (case ParseHeader val of
                 None \<Rightarrow> v
               | Some (remoteNode, seq) \<Rightarrow> MergeRemote remoteNode seq localNode v))
      })"

text \<open>The clock readings of one event: the buffer's, and the trigger engine's two.\<close>

type_synonym stamps = "instant \<times> instant \<times> instant"

definition ingestEvent ::
  "ioevent \<Rightarrow> bytes \<Rightarrow> stamps \<Rightarrow> service \<Rightarrow> (service \<times> trigger option) option" where
  "ingestEvent evt nodeID ts s = do {
     v \<leftarrow> parseVectorHeader evt nodeID (sv_vector s);
     let buf = Add evt nodeID (fst ts) (sv_buf s);
     let v' = Observe nodeID (TimestampNs evt) v;
     (trg, out) \<leftarrow> Evaluate evt nodeID (snd ts) (sv_triggers s);
     Some (\<lparr>sv_buf = buf, sv_triggers = trg, sv_vector = v', sv_ingested = sv_ingested s + 1\<rparr>, out)
   }"

definition IngestNative ::
  "ioevent \<Rightarrow> bytes \<Rightarrow> stamps \<Rightarrow> service \<Rightarrow> (service \<times> trigger option) option" where
  "IngestNative = ingestEvent"

text \<open>What \<^verbatim>\<open>stream.Recv\<close> returns; a list that ends without an error is a stream that is
  still open.\<close>

datatype 'err recv = Msg pb_event | RecvEOF | RecvErr 'err
datatype 'err stream_result = Open | Acknowledged | Failed 'err

fun StreamEvents ::
  "('err recv \<times> stamps) list \<Rightarrow> service \<Rightarrow> (service \<times> trigger list \<times> 'err stream_result) option" where
  "StreamEvents [] s = Some (s, [], Open)"
| "StreamEvents ((RecvEOF, _) # rest) s = Some (s, [], Acknowledged)"
| "StreamEvents ((RecvErr err, _) # rest) s = Some (s, [], Failed err)"
| "StreamEvents ((Msg m, ts) # rest) s = do {
     (s', out) \<leftarrow> ingestEvent (ToNative (Some m)) (pb_node_id m) ts s;
     (s'', outs, res) \<leftarrow> StreamEvents rest s';
     Some (s'', (case out of None \<Rightarrow> outs | Some trig \<Rightarrow> trig # outs), res)
   }"

section \<open>Lemmas\<close>

fun received :: "('err recv \<times> stamps) list \<Rightarrow> (pb_event \<times> stamps) list" where
  "received [] = []"
| "received ((Msg m, ts) # rest) = (m, ts) # received rest"
| "received ((_, _) # rest) = []"

definition arrival_of :: "pb_event \<times> stamps \<Rightarrow> arrival" where
  "arrival_of = (\<lambda>(m, ts). (ToNative (Some m), pb_node_id m, fst ts))"

lemma parseVectorHeader_total:
  assumes "wf_event evt" "pl_ok evt"
  shows "\<exists>v'. parseVectorHeader evt n v = Some v' \<and> (graph_inv v \<longrightarrow> graph_inv v') \<and> eng_seq v' = eng_seq v"
proof -
  have "eng_seq (MergeRemote r q n v) = eng_seq v" for r q by (simp add: MergeRemote_def Let_def)
  with assms show ?thesis
    by (auto simp: parseVectorHeader_def payload_slice_Some graph_inv_MergeRemote split: option.split)
qed

lemma Evaluate_total:
  "wf_event evt \<Longrightarrow> pl_ok evt \<Longrightarrow> \<exists>res. Evaluate evt n clk e = Some res"
  by (simp add: Evaluate_def payload_slice_Some)

lemma ingestEvent_total:
  assumes "wf_event evt" "pl_ok evt" "graph_inv (sv_vector s)"
  shows "\<exists>s' out. ingestEvent evt n ts s = Some (s', out) \<and> graph_inv (sv_vector s') \<and>
    sv_buf s' = Add evt n (fst ts) (sv_buf s) \<and> sv_ingested s' = sv_ingested s + 1 \<and>
    seq_of (eng_seq (sv_vector s')) k = seq_of (eng_seq (sv_vector s)) k + (if k = n then 1 else 0)"
proof -
  obtain v' where v': "parseVectorHeader evt n (sv_vector s) = Some v'" "graph_inv v'"
    "eng_seq v' = eng_seq (sv_vector s)"
    using parseVectorHeader_total [OF assms(1,2)] assms(3) by blast
  obtain trg out where ev: "Evaluate evt n (snd ts) (sv_triggers s) = Some (trg, out)"
    using Evaluate_total [OF assms(1,2)] by (metis surj_pair)
  have "seq_of (eng_seq (Observe n (TimestampNs evt) v')) k =
      seq_of (eng_seq (sv_vector s)) k + (if k = n then 1 else 0)"
    by (simp add: Observe_def Let_def v'(3))
  with v' ev show ?thesis
    by (simp add: ingestEvent_def Let_def graph_inv_Observe)
qed

lemma StreamEvents_total:
  "graph_inv (sv_vector s) \<Longrightarrow>
   \<exists>s' outs res. StreamEvents msgs s = Some (s', outs, res) \<and> graph_inv (sv_vector s') \<and>
     sv_buf s' = Add_all (map arrival_of (received msgs)) (sv_buf s) \<and>
     sv_ingested s' = sv_ingested s + length (received msgs)"
proof (induction msgs s rule: StreamEvents.induct)
  case (4 m ts rest s)
  obtain s1 out where step: "ingestEvent (ToNative (Some m)) (pb_node_id m) ts s = Some (s1, out)"
    "graph_inv (sv_vector s1)" "sv_buf s1 = Add (ToNative (Some m)) (pb_node_id m) (fst ts) (sv_buf s)"
    "sv_ingested s1 = sv_ingested s + 1"
    using ingestEvent_total [OF ToNative_wf ToNative_pl_ok "4.prems"] by blast
  then obtain s' outs res where "StreamEvents rest s1 = Some (s', outs, res)" "graph_inv (sv_vector s')"
    "sv_buf s' = Add_all (map arrival_of (received rest)) (sv_buf s1)"
    "sv_ingested s' = sv_ingested s1 + length (received rest)"
    using "4.IH" by blast
  with step show ?case by (simp add: Add_all_def arrival_of_def)
qed (simp_all add: Add_all_def)

section \<open>Properties\<close>

text \<open>The gRPC endpoint never panics.  For every sequence of messages, however malformed,
  the stream loop processes them all; the buffer then holds what adding the decoded events in
  order leaves, the graph stays closed, and the counter counts the messages.\<close>

theorem stream_never_panics:
  assumes "graph_inv (sv_vector s)"
  shows "\<exists>s' outs res. StreamEvents msgs s = Some (s', outs, res) \<and> graph_inv (sv_vector s') \<and>
     sv_buf s' = Add_all (map arrival_of (received msgs)) (sv_buf s) \<and>
     sv_ingested s' = sv_ingested s + length (received msgs)"
  using assms by (rule StreamEvents_total)

definition service_new :: "bool \<Rightarrow> service" where
  "service_new snap = \<lparr>sv_buf = [], sv_triggers = trigger_New snap, sv_vector = vengine_new, sv_ingested = 0\<rparr>"

lemma stream_never_panics_witness:
  "\<exists>s' outs res. StreamEvents
     [(Msg \<lparr>pb_pid_tgid = 0, pb_timestamp_ns = 0, pb_fd = 0, pb_payload_len = -1, pb_is_write = 0,
        pb_comm = [], pb_payload = ''x'', pb_node_id = ''a''\<rparr>, 0, 0, 0), (RecvErr (), 0, 0, 0)] (service_new True)
     = Some (s', outs, res) \<and> sv_ingested s' = 1"
  using stream_never_panics [of "service_new True"
    "[(Msg \<lparr>pb_pid_tgid = 0, pb_timestamp_ns = 0, pb_fd = 0, pb_payload_len = -1, pb_is_write = 0,
        pb_comm = [], pb_payload = ''x'', pb_node_id = ''a''\<rparr>, 0, 0, 0), (RecvErr (), 0, 0, 0)]"]
    graph_inv_new
  by (auto simp: service_new_def)



end
