(* ===== verification/Go_Path.thy ===== *)
theory Go_Path
  imports Go_Strings
begin

text \<open>
  The operations of Go's \<^verbatim>\<open>path/filepath\<close> that the program uses, for Unix separators.
\<close>

definition dot :: bytes where "dot = ''.''"
definition dotdot :: bytes where "dotdot = ''..''"

text \<open>\<^verbatim>\<open>Clean\<close>: empty and \<^verbatim>\<open>.\<close> elements go, \<^verbatim>\<open>..\<close> removes the element before it.\<close>

fun clean_elems :: "bool \<Rightarrow> bytes list \<Rightarrow> bytes list \<Rightarrow> bytes list" where
  "clean_elems rooted acc [] = rev acc"
| "clean_elems rooted acc (x # xs) =
     (if x = [] \<or> x = dot then clean_elems rooted acc xs
      else if x = dotdot then
        (case acc of
           [] \<Rightarrow> clean_elems rooted (if rooted then [] else [dotdot]) xs
         | y # ys \<Rightarrow> if y = dotdot then clean_elems rooted (dotdot # acc) xs
                      else clean_elems rooted ys xs)
      else clean_elems rooted (x # acc) xs)"

definition path_clean :: "bytes \<Rightarrow> bytes" where
  "path_clean p =
     (if p = [] then dot
      else let rooted = (hd p = CHR ''/'');
               res = join ''/'' (clean_elems rooted [] (split p ''/''))
           in if rooted then ''/'' @ res else if res = [] then dot else res)"

definition path_join :: "bytes list \<Rightarrow> bytes" where
  "path_join elems =
     (case dropWhile (\<lambda>e. e = []) elems of [] \<Rightarrow> [] | es \<Rightarrow> path_clean (join ''/'' es))"

definition path_base :: "bytes \<Rightarrow> bytes" where
  "path_base p =
     (if p = [] then dot
      else let q = rev (dropWhile (\<lambda>c. c = CHR ''/'') (rev p))
           in if q = [] then ''/''
              else (case last_index q ''/'' of None \<Rightarrow> q | Some i \<Rightarrow> drop (i + 1) q))"

definition path_dir :: "bytes \<Rightarrow> bytes" where
  "path_dir p =
     (case last_index p ''/'' of None \<Rightarrow> path_clean [] | Some i \<Rightarrow> path_clean (take (i + 1) p))"

text \<open>\<^verbatim>\<open>Ext\<close>: from the last dot of the last element.\<close>

definition path_ext :: "bytes \<Rightarrow> bytes" where
  "path_ext p =
     (let q = (case last_index p ''/'' of None \<Rightarrow> p | Some i \<Rightarrow> drop (i + 1) p)
      in case last_index q ''.'' of None \<Rightarrow> [] | Some i \<Rightarrow> drop i q)"

definition path_is_abs :: "bytes \<Rightarrow> bool" where
  "path_is_abs p = has_prefix p ''/''"

end
