(* ===== verification/Go_Unicode.thy ===== *)
theory Go_Unicode
  imports Go_Strings
begin

text \<open>
  UTF-8 as \<^verbatim>\<open>unicode/utf8\<close> decodes and encodes it, and the rune-wise case mappings of
  \<^verbatim>\<open>bytes.ToLower\<close>, \<^verbatim>\<open>strings.ToUpper\<close> and \<^verbatim>\<open>strings.EqualFold\<close>.  Invalid input decodes to
  the replacement rune with width 1, and is re-encoded as the three bytes of that rune: a
  case mapping can therefore change the length of the text.  The tables for code points
  from 128 on are the parameter \<open>unicode\<close>.
\<close>

section \<open>Runes\<close>

definition rune_error :: nat where
  "rune_error = 0xFFFD"

definition byte_of :: "char \<Rightarrow> nat" where
  "byte_of c = of_char c"

definition cont_byte :: "char \<Rightarrow> bool" where
  "cont_byte c = (0x80 \<le> byte_of c \<and> byte_of c \<le> 0xBF)"

text \<open>The admitted range of the second byte after a given first byte of a longer form.\<close>

definition second_range :: "nat \<Rightarrow> nat \<times> nat" where
  "second_range b0 =
     (if b0 = 0xE0 then (0xA0, 0xBF) else if b0 = 0xED then (0x80, 0x9F)
      else if b0 = 0xF0 then (0x90, 0xBF) else if b0 = 0xF4 then (0x80, 0x8F)
      else (0x80, 0xBF))"

definition second_ok :: "nat \<Rightarrow> char \<Rightarrow> bool" where
  "second_ok b0 c = (fst (second_range b0) \<le> byte_of c \<and> byte_of c \<le> snd (second_range b0))"

text \<open>The first rune of a non-empty text and its width in bytes.\<close>

fun decode_rune :: "bytes \<Rightarrow> nat \<times> nat" where
  "decode_rune [] = (rune_error, 0)"
| "decode_rune (c # cs) =
     (let b0 = byte_of c in
      if b0 < 0x80 then (b0, 1)
      else if 0xC2 \<le> b0 \<and> b0 \<le> 0xDF then
        (case cs of
           c1 # _ \<Rightarrow> if cont_byte c1 then ((b0 - 0xC0) * 64 + (byte_of c1 - 0x80), 2)
                     else (rune_error, 1)
         | _ \<Rightarrow> (rune_error, 1))
      else if 0xE0 \<le> b0 \<and> b0 \<le> 0xEF then
        (case cs of
           c1 # c2 # _ \<Rightarrow>
             if second_ok b0 c1 \<and> cont_byte c2
             then ((b0 - 0xE0) * 4096 + (byte_of c1 - 0x80) * 64 + (byte_of c2 - 0x80), 3)
             else (rune_error, 1)
         | _ \<Rightarrow> (rune_error, 1))
      else if 0xF0 \<le> b0 \<and> b0 \<le> 0xF4 then
        (case cs of
           c1 # c2 # c3 # _ \<Rightarrow>
             if second_ok b0 c1 \<and> cont_byte c2 \<and> cont_byte c3
             then ((b0 - 0xF0) * 262144 + (byte_of c1 - 0x80) * 4096
                   + (byte_of c2 - 0x80) * 64 + (byte_of c3 - 0x80), 4)
             else (rune_error, 1)
         | _ \<Rightarrow> (rune_error, 1))
      else (rune_error, 1))"

definition encode_rune :: "nat \<Rightarrow> bytes" where
  "encode_rune r =
     (if r < 0x80 then [char_of r]
      else if r < 0x800 then [char_of (0xC0 + r div 64), char_of (0x80 + r mod 64)]
      else if 0x10FFFF < r \<or> (0xD800 \<le> r \<and> r \<le> 0xDFFF)
      then [CHR 0xEF, CHR 0xBF, CHR 0xBD]
      else if r < 0x10000
      then [char_of (0xE0 + r div 4096), char_of (0x80 + r div 64 mod 64), char_of (0x80 + r mod 64)]
      else [char_of (0xF0 + r div 262144), char_of (0x80 + r div 4096 mod 64),
            char_of (0x80 + r div 64 mod 64), char_of (0x80 + r mod 64)])"

lemma decode_rune_width_pos: "0 < snd (decode_rune (c # cs))"
  by (auto simp: Let_def split: list.split)

function runes :: "bytes \<Rightarrow> nat list" where
  "runes [] = []"
| "runes (c # cs) = fst (decode_rune (c # cs)) # runes (drop (snd (decode_rune (c # cs)) - 1) cs)"
  by pat_completeness auto
termination
  by (relation "measure length") (auto simp del: decode_rune.simps)

definition map_runes :: "(nat \<Rightarrow> nat) \<Rightarrow> bytes \<Rightarrow> bytes" where
  "map_runes f s = concat (map (\<lambda>r. encode_rune (f r)) (runes s))"

section \<open>Case mappings\<close>

record unicode =
  lower_tab :: "nat \<Rightarrow> nat"
  upper_tab :: "nat \<Rightarrow> nat"
  fold_rep :: "nat \<Rightarrow> nat"

text \<open>The tables of a world without letters beyond ASCII, for the examples.\<close>

definition plain_unicode :: unicode where
  "plain_unicode = \<lparr>lower_tab = id, upper_tab = id, fold_rep = id\<rparr>"

definition ascii_lower :: "nat \<Rightarrow> nat" where
  "ascii_lower r = (if 65 \<le> r \<and> r \<le> 90 then r + 32 else r)"

definition ascii_upper :: "nat \<Rightarrow> nat" where
  "ascii_upper r = (if 97 \<le> r \<and> r \<le> 122 then r - 32 else r)"

definition to_lower :: "unicode \<Rightarrow> bytes \<Rightarrow> bytes" where
  "to_lower u s = map_runes (\<lambda>r. if r < 128 then ascii_lower r else lower_tab u r) s"

definition to_upper :: "unicode \<Rightarrow> bytes \<Rightarrow> bytes" where
  "to_upper u s = map_runes (\<lambda>r. if r < 128 then ascii_upper r else upper_tab u r) s"

text \<open>\<^verbatim>\<open>EqualFold\<close> compares the case-folding orbits rune by rune; \<open>fold_rep\<close> names the orbit.\<close>

definition equal_fold :: "unicode \<Rightarrow> bytes \<Rightarrow> bytes \<Rightarrow> bool" where
  "equal_fold u s t = (map (fold_rep u) (runes s) = map (fold_rep u) (runes t))"

definition ascii :: "bytes \<Rightarrow> bool" where
  "ascii s = (\<forall>c \<in> set s. byte_of c < 128)"

definition lower_char :: "char \<Rightarrow> char" where
  "lower_char c = char_of (ascii_lower (byte_of c))"

definition upper_char :: "char \<Rightarrow> char" where
  "upper_char c = char_of (ascii_upper (byte_of c))"

lemma ascii_simps [simp]:
  "ascii []" "ascii (c # cs) \<longleftrightarrow> byte_of c < 128 \<and> ascii cs"
  "ascii (s @ t) \<longleftrightarrow> ascii s \<and> ascii t"
  by (auto simp: ascii_def)

lemma ascii_drop: "ascii s \<Longrightarrow> ascii (drop n s)"
  by (auto simp: ascii_def dest: in_set_dropD)

lemma runes_ascii: "ascii s \<Longrightarrow> runes s = map byte_of s"
  by (induction s rule: runes.induct) auto

lemma ascii_lower_less: "r < 128 \<Longrightarrow> ascii_lower r < 128"
  by (simp add: ascii_lower_def)

lemma ascii_upper_less: "r < 128 \<Longrightarrow> ascii_upper r < 128"
  by (auto simp: ascii_upper_def)

text \<open>On ASCII text both mappings work byte by byte and keep the length.\<close>

lemma to_lower_ascii: "ascii s \<Longrightarrow> to_lower u s = map lower_char s"
  by (induction s)
    (auto simp: to_lower_def map_runes_def runes_ascii encode_rune_def ascii_lower_less lower_char_def)

lemma to_upper_ascii: "ascii s \<Longrightarrow> to_upper u s = map upper_char s"
  by (induction s)
    (auto simp: to_upper_def map_runes_def runes_ascii encode_rune_def ascii_upper_less upper_char_def)

lemma length_to_lower_ascii [len_simps]: "ascii s \<Longrightarrow> length (to_lower u s) = length s"
  by (simp add: to_lower_ascii)

text \<open>A single invalid byte grows to three.\<close>

lemma encode_rune_error: "encode_rune rune_error = [CHR 0xEF, CHR 0xBF, CHR 0xBD]"
  by (simp add: encode_rune_def rune_error_def)

lemma decode_rune_invalid_byte: "decode_rune (CHR 0xFF # s) = (rune_error, 1)"
  by (simp add: byte_of_def)

lemma map_runes_invalid_byte:
  "f rune_error = rune_error \<Longrightarrow>
   map_runes f (CHR 0xFF # s) = [CHR 0xEF, CHR 0xBF, CHR 0xBD] @ map_runes f s"
  by (simp add: map_runes_def decode_rune_invalid_byte encode_rune_error del: decode_rune.simps)

lemma map_runes_ascii_Cons:
  "byte_of c < 128 \<Longrightarrow> map_runes f (c # s) = encode_rune (f (byte_of c)) @ map_runes f s"
  by (simp add: map_runes_def)

end
