(* ===== verification/Archive.thy ===== *)
theory Archive
  imports Rolling_Buffer Manifest Go_Path Go_Unicode "HOL-Library.Countable"
begin

text \<open>
  The snapshot file: packing, encryption and their inverses (pkg/drearchive/archive.go) and the
  exporter that writes it (dre-collector/internal/snapshot/snapshot.go).  Compression, the tar
  container, JSON, AES-GCM and SHA-256 belong to the standard library: they are the fields of
  \<open>codecs\<close>, and \<open>codec_laws\<close> is what the program relies on.  JSON text is UTF-8, so a string
  that is not comes back with each invalid byte replaced by U+FFFD; \<open>json_text\<close> says so.
\<close>

section \<open>The library functions\<close>

record codecs =
  cd_sha256 :: "bytes \<Rightarrow> bytes"
  cd_seal :: "bytes \<Rightarrow> bytes \<Rightarrow> bytes \<Rightarrow> bytes"
  cd_open :: "bytes \<Rightarrow> bytes \<Rightarrow> bytes \<Rightarrow> bytes option"
  cd_gzip :: "bytes \<Rightarrow> bytes"
  cd_gunzip :: "bytes \<Rightarrow> bytes option"
  cd_tar :: "(bytes \<times> bytes) list \<Rightarrow> bytes"
  cd_untar :: "bytes \<Rightarrow> (bytes \<times> bytes) list option"
  cd_manifest :: "manifest \<Rightarrow> bytes"
  cd_unmanifest :: "bytes \<Rightarrow> manifest option"
  cd_graph :: "vector_graph \<Rightarrow> bytes"
  cd_ungraph :: "bytes \<Rightarrow> vector_graph option"
  cd_log :: "redaction_log \<Rightarrow> bytes"
  cd_unlog :: "bytes \<Rightarrow> redaction_log option"
  cd_clock :: "clock_timeline \<Rightarrow> bytes"
  cd_unclock :: "bytes \<Rightarrow> clock_timeline option"
  cd_source :: "source_map \<Rightarrow> bytes"
  cd_unsource :: "bytes \<Rightarrow> source_map option"

definition json_text :: "bytes \<Rightarrow> bytes" where
  "json_text = map_runes id"

definition text_incident :: "incident \<Rightarrow> incident" where
  "text_incident i =
     \<lparr>inc_title = json_text (inc_title i), inc_summary = json_text (inc_summary i),
      inc_root_cause = json_text (inc_root_cause i), inc_services = map json_text (inc_services i),
      inc_failed_step = json_text (inc_failed_step i)\<rparr>"

definition text_manifest :: "manifest \<Rightarrow> manifest" where
  "text_manifest m =
     \<lparr>man_id = json_text (man_id m), man_cluster = json_text (man_cluster m),
      man_nodes = map json_text (man_nodes m),
      man_trigger = \<lparr>trig_type = trig_type (man_trigger m), trig_detail = json_text (trig_detail (man_trigger m))\<rparr>,
      man_captured_at = man_captured_at m, man_event_count = man_event_count m,
      man_checksum = json_text (man_checksum m), man_incident = map_option text_incident (man_incident m)\<rparr>"

definition text_graph :: "vector_graph \<Rightarrow> vector_graph" where
  "text_graph g =
     \<lparr>vg_nodes = map (\<lambda>n. n\<lparr>vn_id := json_text (vn_id n), vn_node_id := json_text (vn_node_id n)\<rparr>) (vg_nodes g),
      vg_edges = map (\<lambda>e. \<lparr>ve_from = json_text (ve_from e), ve_to = json_text (ve_to e)\<rparr>) (vg_edges g)\<rparr>"

definition text_log :: "redaction_log \<Rightarrow> redaction_log" where
  "text_log = map (\<lambda>e. e\<lparr>red_rule := json_text (red_rule e)\<rparr>)"

definition text_source :: "source_map \<Rightarrow> source_map" where
  "text_source = map (\<lambda>r. r\<lparr>src_file := json_text (src_file r), src_function := json_text (src_function r)\<rparr>)"

definition NonceSize :: nat where "NonceSize = 12"

definition codec_laws :: "codecs \<Rightarrow> bool" where
  "codec_laws c =
     ((\<forall>k n p. length n = NonceSize \<longrightarrow> cd_open c k n (cd_seal c k n p) = Some p) \<and>
      (\<forall>x. cd_gunzip c (cd_gzip c x) = Some x) \<and>
      (\<forall>x. cd_untar c (cd_tar c x) = Some x) \<and>
      (\<forall>x. cd_unmanifest c (cd_manifest c x) = Some (text_manifest x)) \<and>
      (\<forall>x. cd_ungraph c (cd_graph c x) = Some (text_graph x)) \<and>
      (\<forall>x. cd_unlog c (cd_log c x) = Some (text_log x)) \<and>
      (\<forall>x. cd_unclock c (cd_clock c x) = Some x) \<and>
      (\<forall>x. cd_unsource c (cd_source c x) = Some (text_source x)))"

section \<open>The archive format\<close>

datatype archive_error =
  CiphertextTooShort | AuthFailed | GzipError | TarError | JSONError | RecordError read_error | IOFailed

record snapshot =
  snap_manifest :: manifest
  snap_events :: "ioevent list"
  snap_graph :: vector_graph
  snap_log :: redaction_log
  snap_clock :: clock_timeline
  snap_source :: source_map

text \<open>The nonce is read from the system's random source, which may fail.\<close>

definition Encrypt :: "codecs \<Rightarrow> bytes option \<Rightarrow> bytes \<Rightarrow> bytes \<Rightarrow> archive_error + bytes" where
  "Encrypt c random plain key =
     (let k = cd_sha256 c key in
      case random of
        None \<Rightarrow> Inl IOFailed
      | Some nonce \<Rightarrow> Inr (nonce @ cd_seal c k nonce plain))"

definition Decrypt :: "codecs \<Rightarrow> bytes \<Rightarrow> bytes \<Rightarrow> archive_error + bytes" where
  "Decrypt c data key =
     (let k = cd_sha256 c key in
      if length data < NonceSize then Inl CiphertextTooShort
      else (case cd_open c k (take NonceSize data) (drop NonceSize data) of
          None \<Rightarrow> Inl AuthFailed
        | Some plain \<Rightarrow> Inr plain))"

definition PackTarGz ::
  "codecs \<Rightarrow> manifest \<Rightarrow> bytes \<Rightarrow> vector_graph \<Rightarrow> redaction_log \<Rightarrow> clock_timeline \<Rightarrow> source_map \<Rightarrow> bytes" where
  "PackTarGz c m events graph redact clock srcMap =
     cd_gzip c (cd_tar c
       ([(''manifest.json'', cd_manifest c m),
         (''events.bin'', events),
         (''vector_graph.json'', cd_graph c graph),
         (''redaction_log.json'', cd_log c redact),
         (''clock_timeline.json'', cd_clock c clock)]
        @ (if 0 < length srcMap then [(''source_map.json'', cd_source c srcMap)] else [])))"

text \<open>A later entry of the same name replaces an earlier one; a missing one reads as empty.\<close>

definition files_of :: "(bytes \<times> bytes) list \<Rightarrow> bytes \<Rightarrow> bytes option" where
  "files_of entries = fold (\<lambda>(name, buf) files. files(name \<mapsto> buf)) entries Map.empty"

definition file_or_nil :: "(bytes \<Rightarrow> bytes option) \<Rightarrow> bytes \<Rightarrow> bytes" where
  "file_or_nil files name = (case files name of None \<Rightarrow> [] | Some b \<Rightarrow> b)"

definition optional :: "(bytes \<Rightarrow> 'a list option) \<Rightarrow> bytes option \<Rightarrow> 'a list" where
  "optional dec file = (case file of None \<Rightarrow> [] | Some b \<Rightarrow> (case dec b of None \<Rightarrow> [] | Some x \<Rightarrow> x))"

definition parse_files :: "codecs \<Rightarrow> (bytes \<Rightarrow> bytes option) \<Rightarrow> archive_error + snapshot" where
  "parse_files c files =
     (case cd_unmanifest c (file_or_nil files ''manifest.json'') of
        None \<Rightarrow> Inl JSONError
      | Some m \<Rightarrow>
     (case cd_ungraph c (file_or_nil files ''vector_graph.json'') of
        None \<Rightarrow> Inl JSONError
      | Some g \<Rightarrow>
     (case cd_unlog c (file_or_nil files ''redaction_log.json'') of
        None \<Rightarrow> Inl JSONError
      | Some l \<Rightarrow>
     (let clk = optional (cd_unclock c) (files ''clock_timeline.json'');
          src = optional (cd_unsource c) (files ''source_map.json'') in
      case decode_events (file_or_nil files ''events.bin'') of
        Inl err \<Rightarrow> Inl (RecordError err)
      | Inr evts \<Rightarrow>
          Inr \<lparr>snap_manifest = m, snap_events = evts, snap_graph = g, snap_log = l,
               snap_clock = clk, snap_source = src\<rparr>))))"

definition ParseTarGz :: "codecs \<Rightarrow> bytes \<Rightarrow> archive_error + snapshot" where
  "ParseTarGz c data =
     (case cd_gunzip c data of
        None \<Rightarrow> Inl GzipError
      | Some tarball \<Rightarrow>
          (case cd_untar c tarball of
             None \<Rightarrow> Inl TarError
           | Some entries \<Rightarrow> parse_files c (files_of entries)))"

type_synonym filesystem = "bytes \<Rightarrow> bytes option"

definition OpenFile :: "codecs \<Rightarrow> filesystem \<Rightarrow> bytes \<Rightarrow> bytes \<Rightarrow> archive_error + snapshot" where
  "OpenFile c fs path key =
     (case fs path of
        None \<Rightarrow> Inl IOFailed
      | Some enc \<Rightarrow> (case Decrypt c enc key of Inl err \<Rightarrow> Inl err | Inr plain \<Rightarrow> ParseTarGz c plain))"

lemma OpenFile_cong: "fs p = fs' p' \<Longrightarrow> OpenFile c fs p key = OpenFile c fs' p' key"
  by (simp add: OpenFile_def)

section \<open>The exporter\<close>

record exporter =
  ex_dir :: bytes
  ex_cluster :: bytes
  ex_key :: bytes
  ex_incident :: "incident option"
  ex_source :: "source_map option"

definition exporter_New :: "bytes \<Rightarrow> bytes \<Rightarrow> bytes \<Rightarrow> exporter" where
  "exporter_New dir cluster key =
     \<lparr>ex_dir = dir, ex_cluster = cluster, ex_key = key, ex_incident = None, ex_source = None\<rparr>"

definition SetIncident :: "incident option \<Rightarrow> exporter \<Rightarrow> exporter" where
  "SetIncident inc e = e\<lparr>ex_incident := inc\<rparr>"

definition SetSourceMap :: "source_map option \<Rightarrow> exporter \<Rightarrow> exporter" where
  "SetSourceMap store e = e\<lparr>ex_source := store\<rparr>"

fun unique_from :: "bytes set \<Rightarrow> buf_event list \<Rightarrow> bytes list" where
  "unique_from seen [] = []"
| "unique_from seen (ev # evs) =
     (if be_node ev = [] \<or> be_node ev \<in> seen then unique_from seen evs
      else be_node ev # unique_from (insert (be_node ev) seen) evs)"

definition uniqueNodes :: "buf_event list \<Rightarrow> bytes list" where
  "uniqueNodes = unique_from {}"

fun clock_entries :: "(u8 \<Rightarrow> bool) \<Rightarrow> nat \<Rightarrow> buf_event list \<Rightarrow> clock_timeline" where
  "clock_entries P i [] = []"
| "clock_entries P i (ev # evs) =
     (if P (IsWrite (be_event ev))
      then \<lparr>ce_index = int i, ce_timestamp = TimestampNs (be_event ev)\<rparr> # clock_entries P (Suc i) evs
      else clock_entries P (Suc i) evs)"

definition buildClockTimeline :: "buf_event list \<Rightarrow> clock_timeline" where
  "buildClockTimeline events =
     (let tl = clock_entries (\<lambda>w. w = 3) 0 events in
      if 0 < length tl then tl else tl @ clock_entries (\<lambda>w. w \<noteq> 2) 0 events)"

definition hex_digit :: "nat \<Rightarrow> char" where
  "hex_digit d = ''0123456789abcdef'' ! d"

definition sha256Hex :: "codecs \<Rightarrow> bytes \<Rightarrow> bytes" where
  "sha256Hex c b = concat (map (\<lambda>x. [hex_digit (of_char x div 16), hex_digit (of_char x mod 16)]) (cd_sha256 c b))"

text \<open>What a call finds in its environment: whether the directory can be made and the file
  written (and what a failed write leaves behind), a fresh identifier, the clock and the
  random source.\<close>

record export_env =
  ev_mkdir_ok :: bool
  ev_write_ok :: bool
  ev_partial :: "bytes option"
  ev_uuid :: bytes
  ev_now :: instant
  ev_random :: "bytes option"

definition incident_name :: "bytes \<Rightarrow> bytes" where
  "incident_name ident = ''incident-'' @ ident @ ''.dre''"

definition manifest_of :: "codecs \<Rightarrow> export_env \<Rightarrow> buf_event list \<Rightarrow> trigger \<Rightarrow> exporter \<Rightarrow> manifest" where
  "manifest_of c env events trig e =
     \<lparr>man_id = ev_uuid env, man_cluster = ex_cluster e, man_nodes = uniqueNodes events,
      man_trigger = trig, man_captured_at = ev_now env, man_event_count = length events,
      man_checksum = sha256Hex c (concat (map (\<lambda>ev. Encode (be_event ev)) events)),
      man_incident = ex_incident e\<rparr>"

definition Export ::
  "codecs \<Rightarrow> export_env \<Rightarrow> buf_event list \<Rightarrow> vector_graph \<Rightarrow> redaction_log \<Rightarrow> trigger \<Rightarrow>
   exporter \<Rightarrow> filesystem \<Rightarrow> (archive_error + manifest \<times> bytes) \<times> exporter \<times> filesystem" where
  "Export c env events graph redact trig e fs =
     (if \<not> ev_mkdir_ok env then (Inl IOFailed, e, fs)
      else
        let m = manifest_of c env events trig e;
            e' = e\<lparr>ex_incident := None\<rparr>;
            eventsBuf = concat (map (\<lambda>ev. Encode (be_event ev)) events);
            clock = buildClockTimeline events;
            srcMap = (case ex_source e of None \<Rightarrow> [] | Some store \<Rightarrow> Store_Snapshot store);
            tarGz = PackTarGz c m eventsBuf graph redact clock srcMap
        in case Encrypt c (ev_random env) tarGz (ex_key e) of
             Inl err \<Rightarrow> (Inl err, e', fs)
           | Inr encrypted \<Rightarrow>
               let path = path_join [ex_dir e, incident_name (ev_uuid env)]
               in if ev_write_ok env then (Inr (m, path), e', fs(path \<mapsto> encrypted))
                  else (Inl IOFailed, e', fs(path := ev_partial env)))"

section \<open>Countable metadata\<close>

text \<open>The metadata types are countable, so that codecs satisfying the laws exist.\<close>

instance trigger_type :: countable by countable_datatype

instance trigger_ext :: (countable) countable
  by (rule countable_classI [of "\<lambda>x. to_nat (trig_type x, trig_detail x, trigger.more x)"]) simp

instance incident_ext :: (countable) countable
  by (rule countable_classI [of "\<lambda>x. to_nat (inc_title x, inc_summary x, inc_root_cause x, inc_services x,
      inc_failed_step x, incident.more x)"]) simp

instance manifest_ext :: (countable) countable
  by (rule countable_classI [of "\<lambda>x. to_nat (man_id x, man_cluster x, man_nodes x, man_trigger x,
      man_captured_at x, man_event_count x, man_checksum x, man_incident x, manifest.more x)"]) simp

instance vector_node_ext :: (countable) countable
  by (rule countable_classI [of "\<lambda>x. to_nat (vn_id x, vn_node_id x, uint (vn_sequence x),
      uint (vn_timestamp x), vector_node.more x)"]) (simp add: word_uint_eq_iff)

instance vector_edge_ext :: (countable) countable
  by (rule countable_classI [of "\<lambda>x. to_nat (ve_from x, ve_to x, vector_edge.more x)"]) simp

instance vector_graph_ext :: (countable) countable
  by (rule countable_classI [of "\<lambda>x. to_nat (vg_nodes x, vg_edges x, vector_graph.more x)"]) simp

instance redaction_entry_ext :: (countable) countable
  by (rule countable_classI [of "\<lambda>x. to_nat (red_offset x, red_length x, red_rule x, redaction_entry.more x)"]) simp

instance clock_entry_ext :: (countable) countable
  by (rule countable_classI [of "\<lambda>x. to_nat (ce_index x, uint (ce_timestamp x), clock_entry.more x)"]) (simp add: word_uint_eq_iff)

instance source_ref_ext :: (countable) countable
  by (rule countable_classI [of "\<lambda>x. to_nat (src_index x, src_file x, src_line x, src_column x,
      src_function x, source_ref.more x)"]) simp

definition num_enc :: "'a::countable \<Rightarrow> bytes" where
  "num_enc x = itoa (to_nat x)"

definition num_dec :: "bytes \<Rightarrow> 'a::countable option" where
  "num_dec s = (if s = [] then None else Some (from_nat (dec_val s)))"

lemma num_dec_enc: "num_dec (num_enc x) = Some x"
  by (simp add: num_dec_def num_enc_def)

definition plain_codecs :: codecs where
  "plain_codecs =
     \<lparr>cd_sha256 = take 32, cd_seal = (\<lambda>k n p. k @ p),
      cd_open = (\<lambda>k n x. if prefix k x then Some (drop (length k) x) else None),
      cd_gzip = id, cd_gunzip = Some, cd_tar = num_enc, cd_untar = num_dec,
      cd_manifest = num_enc \<circ> text_manifest, cd_unmanifest = num_dec,
      cd_graph = num_enc \<circ> text_graph, cd_ungraph = num_dec,
      cd_log = num_enc \<circ> text_log, cd_unlog = num_dec,
      cd_clock = num_enc, cd_unclock = num_dec,
      cd_source = num_enc \<circ> text_source, cd_unsource = num_dec\<rparr>"

lemma plain_codecs_laws: "codec_laws plain_codecs"
  by (simp add: codec_laws_def plain_codecs_def num_dec_enc)

section \<open>Lemmas\<close>

lemma Decrypt_Encrypt:
  "codec_laws c \<Longrightarrow> length nonce = NonceSize \<Longrightarrow> Encrypt c (Some nonce) plain key = Inr data \<Longrightarrow>
   Decrypt c data key = Inr plain"
  by (auto simp: Encrypt_def Decrypt_def Let_def codec_laws_def)

lemma ParseTarGz_PackTarGz:
  assumes "codec_laws c" "list_all wf_event evts"
  shows "ParseTarGz c (PackTarGz c m (concat (map Encode evts)) g l clk src) =
    Inr \<lparr>snap_manifest = text_manifest m, snap_events = evts, snap_graph = text_graph g,
         snap_log = text_log l, snap_clock = clk, snap_source = text_source src\<rparr>"
proof -
  let ?files = "files_of ([(''manifest.json'', cd_manifest c m), (''events.bin'', concat (map Encode evts)),
         (''vector_graph.json'', cd_graph c g), (''redaction_log.json'', cd_log c l),
         (''clock_timeline.json'', cd_clock c clk)]
        @ (if 0 < length src then [(''source_map.json'', cd_source c src)] else []))"
  have files: "?files ''manifest.json'' = Some (cd_manifest c m)"
    "?files ''events.bin'' = Some (concat (map Encode evts))"
    "?files ''vector_graph.json'' = Some (cd_graph c g)"
    "?files ''redaction_log.json'' = Some (cd_log c l)"
    "?files ''clock_timeline.json'' = Some (cd_clock c clk)"
    "?files ''source_map.json'' = (if src = [] then None else Some (cd_source c src))"
    by (simp_all add: files_of_def)
  have "decode_events (concat (map Encode evts)) = Inr evts"
    using assms(2) by (rule events.dec_all_stream)
  moreover have "text_source [] = []" by (simp add: text_source_def)
  ultimately have "parse_files c ?files =
    Inr \<lparr>snap_manifest = text_manifest m, snap_events = evts, snap_graph = text_graph g,
         snap_log = text_log l, snap_clock = clk, snap_source = text_source src\<rparr>"
    using assms(1) unfolding parse_files_def file_or_nil_def files
    by (simp add: codec_laws_def optional_def Let_def)
  then show ?thesis
    using assms(1) by (simp only: ParseTarGz_def PackTarGz_def codec_laws_def option.case)
qed

lemma unique_from_set: "set (unique_from seen evs) = be_node ` set evs - seen - {[]}"
  by (induction seen evs rule: unique_from.induct) auto

lemma unique_from_distinct: "distinct (unique_from seen evs)"
  by (induction seen evs rule: unique_from.induct) (auto simp: unique_from_set)

lemma clock_entries_eq:
  "clock_entries P i evs =
     map (\<lambda>j. \<lparr>ce_index = int (i + j), ce_timestamp = TimestampNs (be_event (evs ! j))\<rparr>)
       (filter (\<lambda>j. P (IsWrite (be_event (evs ! j)))) [0..<length evs])"
proof (induction P i evs rule: clock_entries.induct)
  case (2 P i ev evs)
  have "[0..<length (ev # evs)] = 0 # map Suc [0..<length evs]" by (simp add: upt_conv_Cons map_Suc_upt del: upt_Suc)
  with 2 show ?case by (simp add: filter_map comp_def del: upt_Suc)
qed simp

lemma sorted_wrt_filter_upt: "sorted_wrt (<) (map int (filter P [0..<n]))"
  by (simp add: sorted_wrt_map sorted_wrt_filter)

lemma export_open:
  assumes "codec_laws c" "list_all (\<lambda>ev. wf_event (be_event ev)) events"
    and "ev_random env = Some nonce" "length nonce = NonceSize"
    and "Export c env events graph redact trig e fs = (Inr (m, path), e', fs')"
  shows "OpenFile c fs' path (ex_key e) =
      Inr \<lparr>snap_manifest = text_manifest m, snap_events = map be_event events,
           snap_graph = text_graph graph, snap_log = text_log redact,
           snap_clock = buildClockTimeline events,
           snap_source = text_source (case ex_source e of None \<Rightarrow> [] | Some s \<Rightarrow> s)\<rparr> \<and>
    man_event_count m = length events \<and> man_incident m = ex_incident e \<and> ex_incident e' = None \<and>
    (\<forall>p. p \<noteq> path \<longrightarrow> fs' p = fs p)"
proof -
  let ?src = "case ex_source e of None \<Rightarrow> [] | Some store \<Rightarrow> Store_Snapshot store"
  let ?tar = "PackTarGz c m (concat (map Encode (map be_event events))) graph redact
      (buildClockTimeline events) ?src"
  have snap: "Store_Snapshot s = s" for s by (simp add: Store_Snapshot_def)
  have m: "m = manifest_of c env events trig e" and e': "e' = e\<lparr>ex_incident := None\<rparr>"
    using assms(5) by (auto simp: Export_def Let_def split: if_splits sum.splits)
  obtain data where enc: "Encrypt c (Some nonce) ?tar (ex_key e) = Inr data"
    and fs': "fs' = fs(path \<mapsto> data)"
    using assms(3,5) m by (auto simp: Export_def Let_def comp_def split: if_splits sum.splits)
  have wf: "list_all wf_event (map be_event events)"
    using assms(2) by (simp add: list.pred_map comp_def)
  have src: "?src = (case ex_source e of None \<Rightarrow> [] | Some s \<Rightarrow> s)" by (simp add: snap split: option.split)
  have "OpenFile c fs' path (ex_key e) = ParseTarGz c ?tar"
    using Decrypt_Encrypt [OF assms(1,4) enc] by (simp add: OpenFile_def fs')
  then have "OpenFile c fs' path (ex_key e) =
      Inr \<lparr>snap_manifest = text_manifest m, snap_events = map be_event events,
           snap_graph = text_graph graph, snap_log = text_log redact,
           snap_clock = buildClockTimeline events, snap_source = text_source ?src\<rparr>"
    unfolding ParseTarGz_PackTarGz [OF assms(1) wf] .
  moreover have "man_event_count m = length events" "man_incident m = ex_incident e" "ex_incident e' = None"
    by (simp_all add: m e' manifest_of_def)
  moreover have "\<forall>p. p \<noteq> path \<longrightarrow> fs' p = fs p" by (simp add: fs')
  ultimately show ?thesis unfolding src by blast
qed

section \<open>Properties\<close>

text \<open>C7: What the collector exports, the replay tool opens: with the same key, the file gives
  back every event byte for byte and in order, the clock timeline, and the metadata up to the
  replacement of invalid UTF-8; the pending incident is used up.\<close>

theorem export_then_open:
  assumes "codec_laws c" "list_all (\<lambda>ev. wf_event (be_event ev)) events"
    and "ev_random env = Some nonce" "length nonce = NonceSize"
    and "Export c env events graph redact trig e fs = (Inr (m, path), e', fs')"
  shows "OpenFile c fs' path (ex_key e) =
      Inr \<lparr>snap_manifest = text_manifest m, snap_events = map be_event events,
           snap_graph = text_graph graph, snap_log = text_log redact,
           snap_clock = buildClockTimeline events,
           snap_source = text_source (case ex_source e of None \<Rightarrow> [] | Some s \<Rightarrow> s)\<rparr> \<and>
    man_event_count m = length events \<and> man_incident m = ex_incident e \<and> ex_incident e' = None \<and>
    (\<forall>p. p \<noteq> path \<longrightarrow> fs' p = fs p)"
  using assms by (rule export_open)

lemma export_then_open_witness:
  "\<exists>fs' snap. OpenFile plain_codecs fs' (path_join [''d'', incident_name ''1'']) ''k'' = Inr snap \<and>
     snap_events snap = [zero_event]"
proof -
  define env where "env = \<lparr>ev_mkdir_ok = True, ev_write_ok = True, ev_partial = None, ev_uuid = ''1'',
      ev_now = 0, ev_random = Some (replicate NonceSize NUL)\<rparr>"
  define evs where "evs = [\<lparr>be_event = zero_event, be_node = ''a'', be_at = 0\<rparr>]"
  define e where "e = exporter_New ''d'' ''c'' ''k''"
  have wf: "list_all (\<lambda>ev. wf_event (be_event ev)) evs" by (simp add: evs_def)
  obtain m e' fs' where ex: "Export plain_codecs env evs \<lparr>vg_nodes = [], vg_edges = []\<rparr> []
      \<lparr>trig_type = TriggerManual, trig_detail = []\<rparr> e Map.empty
      = (Inr (m, path_join [''d'', incident_name ''1'']), e', fs')"
    by (simp add: Export_def Let_def env_def e_def exporter_New_def Encrypt_def)
  have rnd: "ev_random env = Some (replicate NonceSize NUL)" by (simp add: env_def)
  have key: "ex_key e = ''k''" by (simp add: e_def exporter_New_def)
  have len: "length (replicate NonceSize NUL) = NonceSize" by simp
  from export_then_open [OF plain_codecs_laws wf rnd len ex, unfolded key, THEN conjunct1]
  have "\<exists>snap. OpenFile plain_codecs fs' (path_join [''d'', incident_name ''1'']) ''k'' = Inr snap \<and>
      snap_events snap = map be_event evs" by (elim ssubst) (rule exI, rule conjI, rule refl, rule snapshot.select_convs)
  then show ?thesis unfolding evs_def list.map buf_event.select_convs by blast
qed

text \<open>The manifest lists every node that captured something exactly once, and no other, and
  never the empty name.\<close>

theorem uniqueNodes_correct:
  "set (uniqueNodes events) = be_node ` set events - {[]} \<and> distinct (uniqueNodes events)"
  by (simp add: uniqueNodes_def unique_from_set unique_from_distinct)

text \<open>The clock timeline refers to events of the capture by strictly increasing index, with
  the timestamp of the event; when the capture has clock samples (kind 3) these are exactly
  its entries, otherwise exactly the events that are not bypass markers (kind 2).\<close>

theorem clock_timeline_correct:
  "sorted_wrt (<) (map ce_index (buildClockTimeline events)) \<and>
   set (buildClockTimeline events) =
     {\<lparr>ce_index = int j, ce_timestamp = TimestampNs (be_event (events ! j))\<rparr> | j.
        j < length events \<and>
        (if \<exists>ev \<in> set events. IsWrite (be_event ev) = 3 then IsWrite (be_event (events ! j)) = 3
         else IsWrite (be_event (events ! j)) \<noteq> 2)}"
proof -
  have ex: "0 < length (clock_entries (\<lambda>w. w = 3) 0 events) \<longleftrightarrow> (\<exists>ev \<in> set events. IsWrite (be_event ev) = 3)"
  proof -
    have "0 < length (clock_entries (\<lambda>w. w = 3) 0 events) \<longleftrightarrow>
        (\<exists>j < length events. IsWrite (be_event (events ! j)) = 3)"
      by (auto simp: clock_entries_eq filter_empty_conv)
    also have "\<dots> \<longleftrightarrow> (\<exists>ev \<in> set events. IsWrite (be_event ev) = 3)" by (metis in_set_conv_nth)
    finally show ?thesis .
  qed
  have tl: "buildClockTimeline events =
      clock_entries (\<lambda>w. if \<exists>ev \<in> set events. IsWrite (be_event ev) = 3 then w = 3 else w \<noteq> 2) 0 events"
    using ex by (auto simp: buildClockTimeline_def Let_def)
  show ?thesis
    unfolding tl clock_entries_eq
    by (auto simp: comp_def sorted_wrt_filter_upt)
qed

end
