(* ===== verification/Redact.thy ===== *)
theory Redact
  imports Manifest
begin

text \<open>
  The payload scrubber (dre-collector/internal/redact/redact.go).  Its three regular
  expressions are written as item lists and matched the way Go's \<^verbatim>\<open>regexp\<close> does: greedy, with
  backtracking, leftmost match first, matches not overlapping.  The main result is that no
  rule matches anywhere in the output, whatever the payload.
\<close>

section \<open>Matching\<close>

datatype ritem = RChar char | RPlus "char \<Rightarrow> bool" | RStar "char \<Rightarrow> bool"

fun rmatch :: "ritem list \<Rightarrow> bytes \<Rightarrow> nat option" where
  "rmatch [] s = Some 0"
| "rmatch (RChar c # r) [] = None"
| "rmatch (RChar c # r) (x # xs) = (if x = c then map_option Suc (rmatch r xs) else None)"
| "rmatch (RPlus p # r) [] = None"
| "rmatch (RPlus p # r) (x # xs) = (if p x then map_option Suc (rmatch (RStar p # r) xs) else None)"
| "rmatch (RStar p # r) [] = rmatch r []"
| "rmatch (RStar p # r) (x # xs) =
     (if p x then (case rmatch (RStar p # r) xs of Some n \<Rightarrow> Some (Suc n) | None \<Rightarrow> rmatch r (x # xs))
      else rmatch r (x # xs))"

text \<open>\<^verbatim>\<open>FindAllIndex(out, -1)\<close> for an expression that matches no empty text.\<close>

definition match_len :: "ritem list \<Rightarrow> bytes \<Rightarrow> nat" where
  "match_len r s = (case rmatch r s of Some n \<Rightarrow> n | None \<Rightarrow> 0)"

function find_all :: "ritem list \<Rightarrow> nat \<Rightarrow> bytes \<Rightarrow> (nat \<times> nat) list" where
  "find_all r off [] = []"
| "find_all r off (x # xs) =
     (let n = match_len r (x # xs) in
      if n = 0 then find_all r (Suc off) xs
      else (off, off + n) # find_all r (off + n) (drop n (x # xs)))"
  by pat_completeness auto
termination
  by (relation "measure (\<lambda>(r, off, s). length s)") auto

section \<open>The scrubber\<close>

definition is_ws :: "char \<Rightarrow> bool" where
  "is_ws c = (c \<in> {TAB, LF, CHR 0x0C, CR, CHR '' ''})"

definition not_ws :: "char \<Rightarrow> bool" where
  "not_ws c = (\<not> is_ws c)"

definition not_eol :: "char \<Rightarrow> bool" where
  "not_eol c = (c \<noteq> CR \<and> c \<noteq> LF)"

definition rules :: "(bytes \<times> ritem list) list" where
  "rules =
     [(''Bearer'' @ [CHR 0x5C] @ ''s+[^'' @ [CHR 0x5C] @ ''s]+'',
       map RChar ''Bearer'' @ [RPlus is_ws, RPlus not_ws]),
      (''Basic'' @ [CHR 0x5C] @ ''s+[^'' @ [CHR 0x5C] @ ''s]+'',
       map RChar ''Basic'' @ [RPlus is_ws, RPlus not_ws]),
      (''Cookie:'' @ [CHR 0x5C] @ ''s*[^'' @ [CHR 0x5C] @ ''r'' @ [CHR 0x5C] @ ''n]+'',
       map RChar ''Cookie:'' @ [RStar is_ws, RPlus not_eol])]"

definition mask_range :: "nat \<times> nat \<Rightarrow> bytes \<Rightarrow> bytes" where
  "mask_range loc out = fold (\<lambda>i o'. o'[i := CHR ''*'']) [fst loc..<snd loc] out"

definition apply_rule :: "bytes \<times> ritem list \<Rightarrow> bytes \<times> redaction_log \<Rightarrow> bytes \<times> redaction_log" where
  "apply_rule rule st =
     (let (name, r) = rule; (out, log) = st; locs = find_all r 0 out
      in (fold mask_range locs out,
          log @ map (\<lambda>(a, b). \<lparr>red_offset = a, red_length = b - a, red_rule = name\<rparr>) locs))"

definition Scrub :: "bytes \<Rightarrow> bytes \<times> redaction_log" where
  "Scrub payload = fold apply_rule rules (payload, [])"

section \<open>What matching means\<close>

text \<open>\<open>gmatch\<close> asks only whether some way of matching exists; backtracking finds one.\<close>

fun gmatch :: "ritem list \<Rightarrow> bytes \<Rightarrow> bool" where
  "gmatch [] s = True"
| "gmatch (RChar c # r) s = (s \<noteq> [] \<and> hd s = c \<and> gmatch r (tl s))"
| "gmatch (RPlus p # r) s = (\<exists>k. 1 \<le> k \<and> k \<le> length s \<and> list_all p (take k s) \<and> gmatch r (drop k s))"
| "gmatch (RStar p # r) s = (\<exists>k \<le> length s. list_all p (take k s) \<and> gmatch r (drop k s))"

lemma gmatch_RStar_Cons:
  "gmatch (RStar p # r) (x # xs) \<longleftrightarrow> (p x \<and> gmatch (RStar p # r) xs) \<or> gmatch r (x # xs)"
proof
  assume "gmatch (RStar p # r) (x # xs)"
  then obtain k where k: "k \<le> length (x # xs)" "list_all p (take k (x # xs))" "gmatch r (drop k (x # xs))"
    by auto
  then show "(p x \<and> gmatch (RStar p # r) xs) \<or> gmatch r (x # xs)"
    by (cases k) auto
next
  assume "(p x \<and> gmatch (RStar p # r) xs) \<or> gmatch r (x # xs)"
  then show "gmatch (RStar p # r) (x # xs)"
  proof
    assume "p x \<and> gmatch (RStar p # r) xs"
    then obtain k where "k \<le> length xs" "list_all p (take k xs)" "gmatch r (drop k xs)" "p x" by auto
    then have "Suc k \<le> length (x # xs) \<and> list_all p (take (Suc k) (x # xs)) \<and> gmatch r (drop (Suc k) (x # xs))"
      by simp
    then show ?thesis unfolding gmatch.simps by blast
  next
    assume "gmatch r (x # xs)"
    then have "0 \<le> length (x # xs) \<and> list_all p (take 0 (x # xs)) \<and> gmatch r (drop 0 (x # xs))" by simp
    then show ?thesis unfolding gmatch.simps by blast
  qed
qed

lemma gmatch_RPlus_Cons: "gmatch (RPlus p # r) (x # xs) \<longleftrightarrow> p x \<and> gmatch (RStar p # r) xs"
proof
  assume "gmatch (RPlus p # r) (x # xs)"
  then obtain k where "1 \<le> k" "k \<le> length (x # xs)" "list_all p (take k (x # xs))" "gmatch r (drop k (x # xs))"
    by auto
  then show "p x \<and> gmatch (RStar p # r) xs" by (cases k) auto
next
  assume "p x \<and> gmatch (RStar p # r) xs"
  then obtain k where "k \<le> length xs" "list_all p (take k xs)" "gmatch r (drop k xs)" "p x" by auto
  then have "1 \<le> Suc k \<and> Suc k \<le> length (x # xs) \<and> list_all p (take (Suc k) (x # xs))
      \<and> gmatch r (drop (Suc k) (x # xs))" by simp
  then show "gmatch (RPlus p # r) (x # xs)" unfolding gmatch.simps by blast
qed

lemma rmatch_gmatch: "rmatch r s \<noteq> None \<longleftrightarrow> gmatch r s"
proof (induction r s rule: rmatch.induct)
  case (5 p r x xs)
  then show ?case by (simp add: gmatch_RPlus_Cons del: gmatch.simps(3,4))
next
  case (7 p r x xs)
  then show ?case
    by (cases "p x"; cases "rmatch (RStar p # r) xs")
      (simp_all add: gmatch_RStar_Cons del: gmatch.simps(3,4))
qed (auto)

lemma rmatch_le: "rmatch r s = Some n \<Longrightarrow> n \<le> length s"
  by (induction r s arbitrary: n rule: rmatch.induct) (auto split: if_splits option.splits)

declare gmatch.simps(3,4) [simp del]

section \<open>What the search finds\<close>

definition covered :: "(nat \<times> nat) list \<Rightarrow> nat \<Rightarrow> bool" where
  "covered locs i = (\<exists>(a, b) \<in> set locs. a \<le> i \<and> i < b)"

lemma match_len_pos: "0 < match_len r s \<Longrightarrow> rmatch r s = Some (match_len r s)"
  by (simp add: match_len_def split: option.splits)

lemma match_len_le: "match_len r s \<le> length s"
  by (simp add: match_len_def rmatch_le split: option.split)

lemma find_all_sound:
  "(a, b) \<in> set (find_all r off s) \<Longrightarrow>
   off \<le> a \<and> a < b \<and> b \<le> off + length s \<and> rmatch r (drop (a - off) s) = Some (b - a)"
proof (induction r off s rule: find_all.induct)
  case (2 r off x xs)
  let ?n = "match_len r (x # xs)"
  show ?case
  proof (cases "?n = 0")
    case True
    with "2.prems" have "(a, b) \<in> set (find_all r (Suc off) xs)" by simp
    with "2.IH"(1) True have ih: "Suc off \<le> a \<and> a < b \<and> b \<le> Suc off + length xs \<and>
        rmatch r (drop (a - Suc off) xs) = Some (b - a)" by auto
    then have "drop (a - off) (x # xs) = drop (a - Suc off) xs" by (simp add: drop_Cons')
    with ih show ?thesis by auto
  next
    case False
    then consider "(a, b) = (off, off + ?n)" | "(a, b) \<in> set (find_all r (off + ?n) (drop ?n (x # xs)))"
      using "2.prems" by (auto simp: Let_def)
    then show ?thesis
    proof cases
      case 1
      with False match_len_pos [of r "x # xs"] match_len_le [of r "x # xs"] show ?thesis by auto
    next
      case 2
      with "2.IH"(2) [OF refl False] have ih: "off + ?n \<le> a \<and> a < b \<and>
          b \<le> off + ?n + length (drop ?n (x # xs)) \<and>
          rmatch r (drop (a - (off + ?n)) (drop ?n (x # xs))) = Some (b - a)" by blast
      then have "drop (a - (off + ?n)) (drop ?n (x # xs)) = drop (a - off) (x # xs)"
        by (simp only: drop_drop) (rule arg_cong [where f = "\<lambda>k. drop k (x # xs)"], linarith)
      with ih match_len_le [of r "x # xs"] show ?thesis by auto
    qed
  qed
qed simp

lemma find_all_complete:
  "(\<forall>s n. rmatch r s = Some n \<longrightarrow> 0 < n) \<Longrightarrow> k < length s \<Longrightarrow>
   rmatch r (drop k s) \<noteq> None \<Longrightarrow> covered (find_all r off s) (off + k)"
proof (induction r off s arbitrary: k rule: find_all.induct)
  case (2 r off x xs)
  let ?n = "match_len r (x # xs)"
  show ?case
  proof (cases "?n = 0")
    case True
    then have "rmatch r (x # xs) = None"
      using "2.prems"(1) by (cases "rmatch r (x # xs)") (auto simp: match_len_def)
    then obtain k' where k: "k = Suc k'" using "2.prems" by (cases k) auto
    with "2.prems" True have "covered (find_all r (Suc off) xs) (Suc off + k')"
      by (intro "2.IH"(1)) auto
    with True k show ?thesis by simp
  next
    case n: False
    show ?thesis
    proof (cases "k < ?n")
      case True
      with n show ?thesis by (simp add: covered_def Let_def)
    next
      case False
      then have "drop (k - ?n) (drop ?n (x # xs)) = drop k (x # xs)" by simp
      with "2.prems" n False have "covered (find_all r (off + ?n) (drop ?n (x # xs))) (off + ?n + (k - ?n))"
        by (intro "2.IH"(2) [OF refl n]) auto
      with False n show ?thesis by (simp add: covered_def Let_def)
    qed
  qed
qed simp

lemma length_mask_range [simp, len_simps]: "length (mask_range loc out) = length out"
proof -
  have "length (fold (\<lambda>i o'. o'[i := CHR ''*'']) is out) = length out" for "is"
    by (induction "is" arbitrary: out) auto
  then show ?thesis by (simp add: mask_range_def)
qed

lemma nth_mask_range:
  "i < length out \<Longrightarrow>
   mask_range (a, b) out ! i = (if a \<le> i \<and> i < b then CHR ''*'' else out ! i)"
proof -
  assume "i < length out"
  then have "fold (\<lambda>i o'. o'[i := CHR ''*'']) is out ! i = (if i \<in> set is then CHR ''*'' else out ! i)" for "is"
    by (induction "is" arbitrary: out) (auto simp: nth_list_update)
  then show ?thesis by (simp add: mask_range_def)
qed

lemma length_mask_all [simp, len_simps]: "length (fold mask_range locs out) = length out"
  by (induction locs arbitrary: out) auto

lemma nth_mask_all:
  "i < length out \<Longrightarrow>
   fold mask_range locs out ! i = (if covered locs i then CHR ''*'' else out ! i)"
  by (induction locs arbitrary: out) (auto simp: nth_mask_range covered_def split: prod.splits)

section \<open>Masking creates no match\<close>

text \<open>
  \<open>masked M s out\<close>: \<open>out\<close> is \<open>s\<close> with the positions of \<open>M\<close> overwritten by stars.  If every
  block of \<open>M\<close> starts with a letter that begins a rule, a match of a rule in \<open>out\<close> was
  already a match in \<open>s\<close>, and it starts outside \<open>M\<close>.
\<close>

definition masked :: "(nat \<Rightarrow> bool) \<Rightarrow> bytes \<Rightarrow> bytes \<Rightarrow> bool" where
  "masked M s out =
     (length out = length s \<and>
      (\<forall>i < length s. out ! i = (if M i then CHR ''*'' else s ! i)) \<and>
      (\<forall>i < length s. M i \<and> (i = 0 \<or> \<not> M (i - 1)) \<longrightarrow> s ! i \<in> {CHR ''B'', CHR ''C''}))"

fun no_star :: "ritem \<Rightarrow> bool" where
  "no_star (RChar c) = (c \<noteq> CHR ''*'')"
| "no_star (RPlus p) = (\<not> p (CHR ''*''))"
| "no_star (RStar p) = (\<not> p (CHR ''*''))"

definition starts_char :: "ritem list \<Rightarrow> bool" where
  "starts_char r = (case r of RChar _ # _ \<Rightarrow> True | _ \<Rightarrow> False)"

lemma masked_unmasked:
  "masked M s out \<Longrightarrow> i < length s \<Longrightarrow> out ! i \<noteq> CHR ''*'' \<Longrightarrow> \<not> M i \<and> s ! i = out ! i"
  by (auto simp: masked_def split: if_splits)

lemma masked_class_run:
  assumes m: "masked M s out" and p: "\<not> p (CHR ''*'')"
    and k: "i + k \<le> length s" "list_all p (take k (drop i out))"
  shows "list_all p (take k (drop i s)) \<and> (0 < k \<longrightarrow> \<not> M (i + k - 1))"
proof -
  have len: "length out = length s" using m by (simp add: masked_def)
  have un: "\<not> M (i + j) \<and> s ! (i + j) = out ! (i + j)" "p (out ! (i + j))" if "j < k" for j
  proof -
    show "p (out ! (i + j))" using that k len by (auto simp: list_all_length)
    with p masked_unmasked [OF m, of "i + j"] that k
    show "\<not> M (i + j) \<and> s ! (i + j) = out ! (i + j)" by (metis add_less_cancel_left order_less_le_trans)
  qed
  have "list_all p (take k (drop i s))"
    using un k by (auto simp: list_all_length)
  moreover have "0 < k \<Longrightarrow> \<not> M (i + k - 1)" using un(1) [of "k - 1"] by simp
  ultimately show ?thesis by blast
qed

lemma masked_gmatch:
  assumes m: "masked M s out" and q: "q (CHR ''B'')" "q (CHR ''C'')"
    and pre: "list_all no_star pre" and i: "i \<le> length s"
    and start: "starts_char pre \<or> (0 < i \<and> \<not> M (i - 1))"
    and g: "gmatch (pre @ [RPlus q]) (drop i out)"
  shows "gmatch (pre @ [RPlus q]) (drop i s) \<and> (starts_char pre \<longrightarrow> \<not> M i)"
  using pre i start g
proof (induction pre arbitrary: i)
  case Nil
  have len: "length out = length s" using m by (simp add: masked_def)
  from Nil have "gmatch [RPlus q] (drop i out)" by simp
  then obtain k where "1 \<le> k" "k \<le> length (drop i out)" "list_all q (take k (drop i out))"
    by (auto simp: gmatch.simps)
  then have i: "i < length s" and "q (out ! i)"
    using len by (auto simp: list_all_length dest!: spec [of _ 0])
  have "q (s ! i)"
  proof (cases "M i")
    case True
    then have "s ! i \<in> {CHR ''B'', CHR ''C''}"
      using m i Nil(3) by (auto simp: masked_def starts_char_def)
    with q show ?thesis by auto
  next
    case False
    with m i \<open>q (out ! i)\<close> show ?thesis by (simp add: masked_def)
  qed
  then have "gmatch [RPlus q] (drop i s)"
    using i by (auto simp: gmatch.simps(3) list_all_length intro!: exI [of _ 1])
  then show ?case by (simp add: starts_char_def)
next
  case (Cons a pre)
  have len: "length out = length s" using m by (simp add: masked_def)
  show ?case
  proof (cases a)
    case (RChar c)
    with Cons.prems have hd: "i < length s" "out ! i = c" "c \<noteq> CHR ''*''"
      and g: "gmatch (pre @ [RPlus q]) (drop (Suc i) out)"
      using len by (auto simp: hd_drop_conv_nth drop_Suc tl_drop)
    then have un: "\<not> M i" "s ! i = c" using masked_unmasked [OF m, of i] by auto
    have "gmatch (pre @ [RPlus q]) (drop (Suc i) s)"
      using Cons.IH [of "Suc i"] Cons.prems(1) hd un g by auto
    then show ?thesis
      using RChar hd un by (simp add: hd_drop_conv_nth tl_drop drop_Suc)
  next
    case (RPlus p)
    with Cons.prems obtain k where k: "1 \<le> k" "k \<le> length (drop i out)"
      "list_all p (take k (drop i out))" "gmatch (pre @ [RPlus q]) (drop k (drop i out))"
      by (auto simp: gmatch.simps(3))
    have p: "\<not> p (CHR ''*'')" using Cons.prems RPlus by simp
    have run: "list_all p (take k (drop i s)) \<and> (0 < k \<longrightarrow> \<not> M (i + k - 1))"
      by (rule masked_class_run [where p = p and k = k and i = i, OF m p])
        (use k Cons.prems(2) len in simp_all)
    have "gmatch (pre @ [RPlus q]) (drop (i + k) s)"
      using Cons.IH [of "i + k"] Cons.prems run k len by (auto simp: add.commute)
    then have "gmatch ((a # pre) @ [RPlus q]) (drop i s)"
      using run k len RPlus by (auto simp: gmatch.simps(3) add.commute intro!: exI [of _ k])
    then show ?thesis using RPlus by (simp add: starts_char_def)
  next
    case (RStar p)
    with Cons.prems obtain k where k: "k \<le> length (drop i out)"
      "list_all p (take k (drop i out))" "gmatch (pre @ [RPlus q]) (drop k (drop i out))"
      by (auto simp: gmatch.simps(4))
    have p: "\<not> p (CHR ''*'')" using Cons.prems RStar by simp
    have run: "list_all p (take k (drop i s)) \<and> (0 < k \<longrightarrow> \<not> M (i + k - 1))"
      by (rule masked_class_run [where p = p and k = k and i = i, OF m p])
        (use k Cons.prems(2) len in simp_all)
    have "0 < i + k \<and> \<not> M (i + k - 1)"
      using Cons.prems(3) RStar run by (cases "k = 0") (auto simp: starts_char_def)
    then have "gmatch (pre @ [RPlus q]) (drop (i + k) s)"
      using Cons.IH [of "i + k"] Cons.prems k len by (auto simp: add.commute)
    then have "gmatch ((a # pre) @ [RPlus q]) (drop i s)"
      using run k len RStar by (auto simp: gmatch.simps(4) add.commute intro!: exI [of _ k])
    then show ?thesis using RStar by (simp add: starts_char_def)
  qed
qed

section \<open>One rule\<close>

definition rule_ok :: "ritem list \<Rightarrow> bool" where
  "rule_ok r =
     ((\<exists>pre q. r = pre @ [RPlus q] \<and> list_all no_star pre \<and> starts_char pre \<and> q (CHR ''B'') \<and> q (CHR ''C'')) \<and>
      (\<exists>c r'. r = RChar c # r' \<and> c \<in> {CHR ''B'', CHR ''C''}))"

definition no_match :: "ritem list \<Rightarrow> bytes \<Rightarrow> bool" where
  "no_match r s = (\<forall>i. rmatch r (drop i s) = None)"

lemma rules_ok: "list_all (\<lambda>rule. rule_ok (snd rule)) rules"
proof -
  have bearer: "rule_ok (map RChar ''Bearer'' @ [RPlus is_ws, RPlus not_ws])"
    unfolding rule_ok_def
    by (rule conjI, rule exI [of _ "map RChar ''Bearer'' @ [RPlus is_ws]"], rule exI [of _ not_ws])
      (simp_all add: starts_char_def is_ws_def not_ws_def)
  have basic: "rule_ok (map RChar ''Basic'' @ [RPlus is_ws, RPlus not_ws])"
    unfolding rule_ok_def
    by (rule conjI, rule exI [of _ "map RChar ''Basic'' @ [RPlus is_ws]"], rule exI [of _ not_ws])
      (simp_all add: starts_char_def is_ws_def not_ws_def)
  have cookie: "rule_ok (map RChar ''Cookie:'' @ [RStar is_ws, RPlus not_eol])"
    unfolding rule_ok_def
    by (rule conjI, rule exI [of _ "map RChar ''Cookie:'' @ [RStar is_ws]"], rule exI [of _ not_eol])
      (simp_all add: starts_char_def is_ws_def not_eol_def)
  show ?thesis unfolding rules_def
    by (simp only: list.pred_inject prod.sel bearer basic cookie simp_thms)
qed

lemma rule_ok_rmatch_hd:
  "rule_ok r \<Longrightarrow> rmatch r s = Some n \<Longrightarrow> s \<noteq> [] \<and> hd s \<in> {CHR ''B'', CHR ''C''} \<and> 0 < n"
proof -
  assume "rule_ok r" "rmatch r s = Some n"
  moreover from this obtain c r' where "r = RChar c # r'" "c \<in> {CHR ''B'', CHR ''C''}"
    unfolding rule_ok_def by blast
  ultimately show "s \<noteq> [] \<and> hd s \<in> {CHR ''B'', CHR ''C''} \<and> 0 < n"
    by (cases s) (auto split: if_splits)
qed

lemma covered_block_start:
  assumes "rule_ok r" "covered (find_all r 0 s) i" "i = 0 \<or> \<not> covered (find_all r 0 s) (i - 1)"
  shows "s ! i \<in> {CHR ''B'', CHR ''C''}"
proof -
  from assms(2) obtain a b where ab: "(a, b) \<in> set (find_all r 0 s)" "a \<le> i" "i < b"
    by (auto simp: covered_def)
  have "a = i"
  proof (rule ccontr)
    assume "a \<noteq> i"
    with ab have le: "a \<le> i - 1" "i - 1 < b" "i \<noteq> 0" by linarith+
    then have "covered (find_all r 0 s) (i - 1)" using ab(1) unfolding covered_def by blast
    note this le(3)
    with assms(3) show False by blast
  qed
  with find_all_sound [OF ab(1)] have "rmatch r (drop i s) = Some (b - a)" "b \<le> length s" by simp_all
  then have "hd (drop i s) \<in> {CHR ''B'', CHR ''C''}" "i < length s"
    using rule_ok_rmatch_hd [OF assms(1)] ab by (blast, simp)
  then show ?thesis by (simp add: hd_drop_conv_nth)
qed

lemma masked_apply:
  assumes "rule_ok r"
  shows "masked (covered (find_all r 0 s)) s (fold mask_range (find_all r 0 s) s)"
  using covered_block_start [OF assms] by (auto simp: masked_def nth_mask_all)

lemma match_after_mask:
  assumes r: "rule_ok r" and m: "masked M s out" and hit: "rmatch r (drop i out) \<noteq> None"
  shows "rmatch r (drop i s) \<noteq> None \<and> \<not> M i \<and> i < length s"
proof -
  have len: "length out = length s" using m by (simp add: masked_def)
  obtain n where "rmatch r (drop i out) = Some n" using hit by blast
  then have i: "i < length s" using rule_ok_rmatch_hd [OF r] len by fastforce
  obtain pre q where "r = pre @ [RPlus q]" "list_all no_star pre" "starts_char pre"
    "q (CHR ''B'')" "q (CHR ''C'')" using r by (auto simp: rule_ok_def)
  with masked_gmatch [OF m, of q pre i] i hit show ?thesis unfolding rmatch_gmatch by simp
qed

lemma apply_rule_clears:
  assumes "rule_ok r"
  shows "no_match r (fold mask_range (find_all r 0 s) s)"
proof -
  have "\<not> rmatch r (drop i (fold mask_range (find_all r 0 s) s)) \<noteq> None" for i
  proof
    assume "rmatch r (drop i (fold mask_range (find_all r 0 s) s)) \<noteq> None"
    from match_after_mask [OF assms masked_apply [OF assms] this]
    have "rmatch r (drop i s) \<noteq> None" "\<not> covered (find_all r 0 s) i" "i < length s" by auto
    moreover have "\<forall>s n. rmatch r s = Some n \<longrightarrow> 0 < n" using rule_ok_rmatch_hd [OF assms] by blast
    ultimately show False using find_all_complete [of r i s 0] by simp
  qed
  then show ?thesis by (simp add: no_match_def)
qed

lemma apply_rule_keeps:
  assumes "rule_ok r'" "rule_ok r" "no_match r s"
  shows "no_match r (fold mask_range (find_all r' 0 s) s)"
  using match_after_mask [OF assms(2) masked_apply [OF assms(1)]] assms(3)
  unfolding no_match_def by blast

section \<open>The log\<close>

definition log_covers :: "redaction_log \<Rightarrow> nat \<Rightarrow> bool" where
  "log_covers log i = (\<exists>e \<in> set log. red_offset e \<le> i \<and> i < red_offset e + red_length e)"

definition scrubbed_as :: "bytes \<Rightarrow> bytes \<times> redaction_log \<Rightarrow> bool" where
  "scrubbed_as payload st =
     (length (fst st) = length payload \<and>
      (\<forall>i < length payload. fst st ! i = (if log_covers (snd st) i then CHR ''*'' else payload ! i)) \<and>
      (\<forall>e \<in> set (snd st). 0 < red_length e \<and> red_offset e + red_length e \<le> length payload))"

lemma apply_rule_scrubbed:
  assumes "scrubbed_as payload st"
  shows "scrubbed_as payload (apply_rule rule st)"
proof -
  obtain name r out log where eq: "rule = (name, r)" "st = (out, log)" by (cases rule; cases st)
  let ?locs = "find_all r 0 out"
  let ?new = "map (\<lambda>(a, b). \<lparr>red_offset = a, red_length = b - a, red_rule = name\<rparr>) ?locs"
  have len: "length out = length payload" using assms eq by (simp add: scrubbed_as_def)
  have sound: "\<And>a b. (a, b) \<in> set ?locs \<Longrightarrow> a < b \<and> b \<le> length payload"
    using find_all_sound len by fastforce
  have cov: "log_covers ?new i = covered ?locs i" for i
  proof -
    have "log_covers ?new i \<longleftrightarrow> (\<exists>(a, b) \<in> set ?locs. a \<le> i \<and> i < a + (b - a))"
      by (simp add: log_covers_def split_beta)
    also have "\<dots> \<longleftrightarrow> (\<exists>(a, b) \<in> set ?locs. a \<le> i \<and> i < b)"
      by (intro bex_cong refl) (auto split: prod.splits)
    finally show ?thesis by (simp add: covered_def)
  qed
  have app: "log_covers (log @ ?new) i = (log_covers log i \<or> log_covers ?new i)" for i
    by (simp only: log_covers_def set_append bex_Un)
  have res: "apply_rule rule st = (fold mask_range ?locs out, log @ ?new)"
    by (simp add: eq apply_rule_def Let_def)
  have old: "out ! i = (if log_covers log i then CHR ''*'' else payload ! i)" if "i < length payload" for i
    using assms that by (simp add: eq scrubbed_as_def)
  have "fold mask_range ?locs out ! i = (if log_covers (log @ ?new) i then CHR ''*'' else payload ! i)"
    if "i < length payload" for i
    using that by (simp only: nth_mask_all len app cov old) simp
  moreover have "0 < red_length e \<and> red_offset e + red_length e \<le> length payload"
    if e: "e \<in> set (log @ ?new)" for e
  proof (cases "e \<in> set log")
    case True
    with assms show ?thesis by (simp add: eq scrubbed_as_def)
  next
    case False
    with e obtain a b where ab: "(a, b) \<in> set ?locs" "e = \<lparr>red_offset = a, red_length = b - a, red_rule = name\<rparr>"
      by auto
    from sound [OF ab(1)] ab(2) show ?thesis by simp
  qed
  ultimately show ?thesis unfolding res scrubbed_as_def prod.sel by (simp add: len)
qed

lemma Scrub_scrubbed: "scrubbed_as payload (Scrub payload)"
proof -
  have "scrubbed_as payload st \<Longrightarrow> scrubbed_as payload (fold apply_rule rs st)" for rs st
    by (induction rs arbitrary: st) (simp_all add: apply_rule_scrubbed)
  moreover have "scrubbed_as payload (payload, [])" by (simp add: scrubbed_as_def log_covers_def)
  ultimately show ?thesis by (simp add: Scrub_def)
qed

lemma fst_apply_rule: "fst (apply_rule (name, r) st) = fold mask_range (find_all r 0 (fst st)) (fst st)"
  by (cases st) (simp add: apply_rule_def Let_def)

lemma fold_rules_no_match:
  assumes "list_all (\<lambda>rule. rule_ok (snd rule)) rs" "rule_ok r"
    and "no_match r (fst st) \<or> r \<in> snd ` set rs"
  shows "no_match r (fst (fold apply_rule rs st))"
  using assms
proof (induction rs arbitrary: st)
  case (Cons rule rs)
  obtain name r' where rule: "rule = (name, r')" by (cases rule)
  with Cons.prems have ok: "rule_ok r'" by simp
  have "no_match r (fst (apply_rule rule st)) \<or> r \<in> snd ` set rs"
    using Cons.prems rule apply_rule_clears [of r "fst st"] apply_rule_keeps [OF ok Cons.prems(2), of "fst st"]
    by (auto simp: fst_apply_rule)
  with Cons show ?case by simp
qed simp

lemma find_all_no_match: "no_match r s \<Longrightarrow> find_all r off s = []"
proof (induction s arbitrary: off)
  case (Cons x xs)
  have "no_match r xs"
    unfolding no_match_def
  proof
    fix i
    show "rmatch r (drop i xs) = None"
      using Cons.prems by (auto simp: no_match_def dest!: spec [of _ "Suc i"])
  qed
  moreover have "match_len r (x # xs) = 0"
    using Cons.prems by (auto simp: no_match_def match_len_def dest!: spec [of _ 0])
  ultimately show ?case using Cons.IH by simp
qed simp

section \<open>Properties\<close>

text \<open>C1: No credential survives redaction.  Whatever the payload, none of the three rules (a
  Bearer token, Basic credentials, a Cookie header) matches at any position of the output;
  in particular blanking one secret never exposes or creates another.\<close>

theorem Scrub_leaves_no_match:
  "\<forall>rule \<in> set rules. \<forall>i. rmatch (snd rule) (drop i (fst (Scrub payload))) = None"
proof
  fix rule assume "rule \<in> set rules"
  moreover from this have "rule_ok (snd rule)" using rules_ok by (auto simp: list_all_iff)
  ultimately have "no_match (snd rule) (fst (Scrub payload))"
    unfolding Scrub_def by (intro fold_rules_no_match rules_ok) auto
  then show "\<forall>i. rmatch (snd rule) (drop i (fst (Scrub payload))) = None" by (simp add: no_match_def)
qed

lemma Scrub_leaves_no_match_witness:
  "\<forall>i. rmatch (snd (rules ! 0)) (drop i (fst (Scrub ''Authorization: Bearer abc''))) = None"
  using Scrub_leaves_no_match [of "''Authorization: Bearer abc''"] by (simp add: rules_def)

text \<open>C25: The redaction log is an exact account of the change: the output has the length of the
  payload, the bytes inside a logged range are stars, every other byte is untouched, and
  every logged range is non-empty and inside the payload.\<close>

theorem Scrub_log_exact:
  "length (fst (Scrub payload)) = length payload \<and>
   (\<forall>i < length payload. fst (Scrub payload) ! i =
      (if log_covers (snd (Scrub payload)) i then CHR ''*'' else payload ! i)) \<and>
   (\<forall>e \<in> set (snd (Scrub payload)).
      0 < red_length e \<and> red_offset e + red_length e \<le> length payload)"
  using Scrub_scrubbed [of payload] by (simp add: scrubbed_as_def)

lemma Scrub_log_exact_witness:
  "length (fst (Scrub ''Basic x'')) = 7"
  using Scrub_log_exact [of "''Basic x''"] by simp

text \<open>Scrubbing is idempotent: a second pass changes nothing and logs nothing.\<close>

theorem Scrub_idempotent: "Scrub (fst (Scrub payload)) = (fst (Scrub payload), [])"
proof -
  let ?out = "fst (Scrub payload)"
  have id: "fold apply_rule rs (?out, []) = (?out, [])"
    if "\<forall>rule \<in> set rs. no_match (snd rule) ?out" for rs
    using that by (induction rs) (auto simp: apply_rule_def find_all_no_match split: prod.split)
  have "\<forall>rule \<in> set rules. no_match (snd rule) ?out"
  proof
    fix rule assume "rule \<in> set rules"
    moreover from this have "rule_ok (snd rule)" using rules_ok by (auto simp: list_all_iff)
    ultimately show "no_match (snd rule) ?out"
      unfolding Scrub_def by (intro fold_rules_no_match rules_ok) auto
  qed
  then show ?thesis using id by (simp add: Scrub_def)
qed

end
