(* ===== verification/Collector.thy ===== *)
theory Collector
  imports Ingest Archive Redact
begin

text \<open>
  The collector (dre-collector/internal/server/server.go): the snapshot function behind the
  triggers, its gRPC and HTTP handlers, and the naming of uploaded objects
  (dre-collector/internal/storage/storage.go).  The scrubber is used through the interface
  \<open>scrubber\<close>; object storage, the clock format and the JSON decoder are parameters.
\<close>

section \<open>State\<close>

record local_hooks =
  lh_incident :: "(ioevent list \<Rightarrow> incident option) option"
  lh_source_map :: "source_map option"
  lh_replay_writer :: "(bytes \<Rightarrow> bytes \<Rightarrow> ioevent list \<Rightarrow> filesystem \<Rightarrow> filesystem) option"
  lh_snapshot_dir :: bytes
  lh_latest_link :: bytes
  lh_replay_path :: bytes
  lh_project_root :: bytes

record snapshot_info =
  si_id :: bytes
  si_path :: bytes
  si_captured_at :: bytes
  si_event_count :: nat
  si_storage_uri :: bytes
  si_download_url :: bytes

record collector =
  cl_service :: service
  cl_exporter :: exporter
  cl_http_base :: bytes
  cl_local :: local_hooks
  cl_snapshots :: "snapshot_info list"
  cl_ready :: bool
  cl_files :: filesystem
  cl_exported :: nat
  cl_failures :: nat

text \<open>The environment of one snapshot: the exporter's, the object store when one is configured
  (the URI of an upload and a presigned URL, when they succeed), the date format, and which
  files can be written.\<close>

record capture_env =
  ce_codecs :: codecs
  ce_export :: export_env
  ce_storage :: "((bytes \<Rightarrow> bytes \<Rightarrow> bytes option) \<times> (bytes \<Rightarrow> bytes option)) option"
  ce_format :: "instant \<Rightarrow> bytes"
  ce_can_write :: "bytes \<Rightarrow> bool"

section \<open>Object storage names\<close>

definition ObjectKey :: "bytes \<Rightarrow> bytes \<Rightarrow> bytes" where
  "ObjectKey prfx snapshotID =
     (let name = ''incident-'' @ snapshotID @ ''.dre''
      in if prfx = [] then name else prfx @ ''/'' @ name)"

record storage_config =
  sc_s3_bucket :: bytes
  sc_s3_prefix :: bytes
  sc_s3_region :: bytes
  sc_s3_endpoint :: bytes
  sc_gcs_bucket :: bytes
  sc_gcs_prefix :: bytes

definition envOr :: "(bytes \<Rightarrow> bytes) \<Rightarrow> bytes \<Rightarrow> bytes \<Rightarrow> bytes" where
  "envOr env k def = (let v = env k in if v \<noteq> [] then v else def)"

definition ConfigFromEnv :: "(bytes \<Rightarrow> bytes) \<Rightarrow> storage_config" where
  "ConfigFromEnv env =
     \<lparr>sc_s3_bucket = env ''DRE_S3_BUCKET'', sc_s3_prefix = trim_chars (env ''DRE_S3_PREFIX'') ''/'',
      sc_s3_region = envOr env ''DRE_S3_REGION'' ''us-east-1'', sc_s3_endpoint = env ''DRE_S3_ENDPOINT'',
      sc_gcs_bucket = env ''DRE_GCS_BUCKET'', sc_gcs_prefix = trim_chars (env ''DRE_GCS_PREFIX'') ''/''\<rparr>"

datatype backend = GCS | S3 | NoStorage

definition NewFromConfig :: "storage_config \<Rightarrow> backend" where
  "NewFromConfig cfg =
     (if sc_gcs_bucket cfg \<noteq> [] then GCS else if sc_s3_bucket cfg \<noteq> [] then S3 else NoStorage)"

section \<open>The snapshot function\<close>

definition bufferEventsToNative :: "buf_event list \<Rightarrow> ioevent list" where
  "bufferEventsToNative events = map be_event events"

text \<open>One turn of the scrubbing loop; the slice of the payload panics on a bad length field.\<close>

definition scrub_event :: "buf_event \<Rightarrow> (buf_event \<times> redaction_log) option" where
  "scrub_event ev = do {
     payload \<leftarrow> payload_slice (be_event ev);
     let (scrubbed, log) = Scrub payload;
     let e = be_event ev;
     Some (ev\<lparr>be_event := e\<lparr>PayloadLen := of_nat (length scrubbed),
                             Payload := go_copy (Payload e) scrubbed\<rparr>\<rparr>, log)
   }"

fun scrub_events :: "buf_event list \<Rightarrow> (buf_event list \<times> redaction_log) option" where
  "scrub_events [] = Some ([], [])"
| "scrub_events (ev # evs) = do {
     (ev', log) \<leftarrow> scrub_event ev;
     (evs', logs) \<leftarrow> scrub_events evs;
     Some (ev' # evs', log @ logs)
   }"

text \<open>A copy of a file, when it can be read and written.\<close>

definition copy_file :: "(bytes \<Rightarrow> bool) \<Rightarrow> bytes \<Rightarrow> bytes \<Rightarrow> filesystem \<Rightarrow> filesystem" where
  "copy_file can_write src dest fs =
     (case fs src of
        None \<Rightarrow> fs
      | Some data \<Rightarrow> if can_write dest then fs(dest \<mapsto> data) else fs)"

definition postProcessSnapshot ::
  "(bytes \<Rightarrow> bool) \<Rightarrow> local_hooks \<Rightarrow> bytes \<Rightarrow> buf_event list \<Rightarrow> filesystem \<Rightarrow> filesystem" where
  "postProcessSnapshot can_write h path events fs =
     (if lh_snapshot_dir h = [] then fs
      else
        let dest = path_join [lh_snapshot_dir h, path_base path];
            moved = (path \<noteq> dest \<and> fs path \<noteq> None);
            fs1 = (if path \<noteq> dest then copy_file can_write path dest fs else fs);
            path1 = (if moved then dest else path);
            fs2 = (if lh_latest_link h \<noteq> [] then copy_file can_write path1 (lh_latest_link h) fs1 else fs1)
        in if lh_replay_path h \<noteq> [] \<and> 0 < length events then
             (case lh_replay_writer h of
                None \<Rightarrow> fs2
              | Some writer \<Rightarrow> writer (lh_replay_path h) (lh_project_root h) (bufferEventsToNative events) fs2)
           else fs2)"

definition upload_info :: "capture_env \<Rightarrow> filesystem \<Rightarrow> snapshot_info \<Rightarrow> snapshot_info" where
  "upload_info env fs info =
     (case ce_storage env of
        None \<Rightarrow> info
      | Some (upload, presign) \<Rightarrow>
          (case fs (si_path info) of
             None \<Rightarrow> info
           | Some data \<Rightarrow>
               (case upload (si_id info) data of
                  None \<Rightarrow> info
                | Some uri \<Rightarrow>
                    (let info1 = info\<lparr>si_storage_uri := uri\<rparr>
                     in case presign (si_id info) of
                          None \<Rightarrow> info1 | Some url \<Rightarrow> info1\<lparr>si_download_url := url\<rparr>))))"

definition captureSnapshot :: "capture_env \<Rightarrow> trigger \<Rightarrow> collector \<Rightarrow> collector option" where
  "captureSnapshot env trig c =
     (let events = buffer_Snapshot (sv_buf (cl_service c));
          exp = (case lh_incident (cl_local c) of
              None \<Rightarrow> cl_exporter c
            | Some builder \<Rightarrow>
                (case builder (bufferEventsToNative events) of
                   None \<Rightarrow> cl_exporter c
                 | Some inc \<Rightarrow> SetIncident (Some inc) (cl_exporter c)));
          graph = Graph (sv_vector (cl_service c))
      in do {
        (scrubbed, redactLog) \<leftarrow> scrub_events events;
        case Export (ce_codecs env) (ce_export env) scrubbed graph redactLog trig exp (cl_files c) of
          (Inl err, exp', fs) \<Rightarrow>
            Some (c\<lparr>cl_exporter := exp', cl_files := fs, cl_failures := cl_failures c + 1\<rparr>)
        | (Inr (m, path), exp', fs) \<Rightarrow>
            (let info0 = \<lparr>si_id = man_id m, si_path = path, si_captured_at = ce_format env (man_captured_at m),
                          si_event_count = man_event_count m, si_storage_uri = [], si_download_url = []\<rparr>;
                 info1 = upload_info env fs info0;
                 info2 = (if si_download_url info1 = [] \<and> cl_http_base c \<noteq> []
                          then info1\<lparr>si_download_url := trim_right (cl_http_base c) ''/''
                                      @ ''/v1/snapshots/'' @ man_id m @ ''/download''\<rparr>
                          else info1)
             in Some (c\<lparr>cl_exporter := exp',
                        cl_snapshots := cl_snapshots c @ [info2],
                        cl_exported := cl_exported c + 1,
                        cl_files := postProcessSnapshot (ce_can_write env) (cl_local c) path scrubbed fs\<rparr>))
      })"

section \<open>Construction\<close>

definition no_hooks :: local_hooks where
  "no_hooks = \<lparr>lh_incident = None, lh_source_map = None, lh_replay_writer = None, lh_snapshot_dir = [],
     lh_latest_link = [], lh_replay_path = [], lh_project_root = []\<rparr>"

text \<open>\<open>load\<close> is \<^verbatim>\<open>trigger.LoadRules\<close> at the place of the call.\<close>

definition collector_New ::
  "(bytes \<Rightarrow> bytes) \<Rightarrow> (bytes \<Rightarrow> 'err + bytes list) \<Rightarrow> bytes \<Rightarrow> bytes \<Rightarrow> bytes \<Rightarrow> filesystem \<Rightarrow> collector" where
  "collector_New env load dataDir cluster key fs =
     (let t0 = trigger_New True;
          t1 = (if env ''DRE_TRIGGER_4XX'' = ''1'' then SetTrigger4xx True t0 else t0);
          t2 = (case load (envOr env ''DRE_TRIGGER_RULES_PATH'' ''/etc/dre/trigger_rules.yaml'') of
                  Inl err \<Rightarrow> t1 | Inr rs \<Rightarrow> SetRules5xx rs t1)
      in \<lparr>cl_service = \<lparr>sv_buf = [], sv_triggers = t2, sv_vector = vengine_new, sv_ingested = 0\<rparr>,
          cl_exporter = exporter_New dataDir cluster key,
          cl_http_base = envOr env ''DRE_HTTP_PUBLIC_URL'' [], cl_local = no_hooks, cl_snapshots = [],
          cl_ready = False, cl_files = fs, cl_exported = 0, cl_failures = 0\<rparr>)"

definition SetLocalHooks :: "local_hooks \<Rightarrow> collector \<Rightarrow> collector" where
  "SetLocalHooks h c = c\<lparr>cl_local := h, cl_exporter := SetSourceMap (lh_source_map h) (cl_exporter c)\<rparr>"

definition SetReady :: "bool \<Rightarrow> collector \<Rightarrow> collector" where
  "SetReady ready c = c\<lparr>cl_ready := ready\<rparr>"

section \<open>Handlers\<close>

text \<open>An ingested event runs the snapshot function when it fires a trigger.\<close>

definition collector_ingest ::
  "capture_env \<Rightarrow> ioevent \<Rightarrow> bytes \<Rightarrow> stamps \<Rightarrow> collector \<Rightarrow> collector option" where
  "collector_ingest env evt nodeID ts c = do {
     (sv, out) \<leftarrow> IngestNative evt nodeID ts (cl_service c);
     (case out of
        None \<Rightarrow> Some (c\<lparr>cl_service := sv\<rparr>)
      | Some trig \<Rightarrow> captureSnapshot env trig (c\<lparr>cl_service := sv\<rparr>))
   }"

record trigger_response =
  tr_id :: bytes
  tr_path :: bytes
  tr_storage_uri :: bytes
  tr_download_url :: bytes

definition TriggerSnapshot ::
  "capture_env \<Rightarrow> bytes \<Rightarrow> instant \<times> instant \<Rightarrow> collector \<Rightarrow> (trigger_response \<times> collector) option" where
  "TriggerSnapshot env detail clk c =
     (let (trg, out) = Manual detail clk (sv_triggers (cl_service c));
          c1 = c\<lparr>cl_service := (cl_service c)\<lparr>sv_triggers := trg\<rparr>\<rparr>
      in do {
        c2 \<leftarrow> (case out of None \<Rightarrow> Some c1 | Some trig \<Rightarrow> captureSnapshot env trig c1);
        Some (if length (cl_snapshots c2) = 0
              then \<lparr>tr_id = ''pending'', tr_path = [], tr_storage_uri = [], tr_download_url = []\<rparr>
              else let s = last (cl_snapshots c2)
                   in \<lparr>tr_id = si_id s, tr_path = si_path s, tr_storage_uri = si_storage_uri s,
                       tr_download_url = si_download_url s\<rparr>, c2)
      })"

definition ListSnapshots :: "collector \<Rightarrow> snapshot_info list" where
  "ListSnapshots c = [] @ cl_snapshots c"

text \<open>HTTP answers: a status with a text, a redirect, or a file.\<close>

datatype http_reply = Status nat bytes | Redirect bytes | ServeFile bytes

definition not_found :: http_reply where
  "not_found = Status 404 (''404 page not found'' @ [LF])"

definition method_not_allowed :: http_reply where
  "method_not_allowed = Status 405 (''method not allowed'' @ [LF])"

text \<open>\<^verbatim>\<open>POST /v1/events\<close>.  The body is read and decoded by the parameters; each item comes
  with the clock readings of its turn.\<close>

record event_item =
  it_timestamp :: u64
  it_fd :: u32
  it_is_write :: u8
  it_comm :: bytes
  it_payload :: bytes

definition event_of_item :: "u64 \<Rightarrow> event_item \<Rightarrow> ioevent" where
  "event_of_item now item =
     (let payload = (if MaxPayloadLen < length (it_payload item) then take MaxPayloadLen (it_payload item)
                     else it_payload item)
      in zero_event\<lparr>TimestampNs := (if it_timestamp item = 0 then now else it_timestamp item),
           Fd := it_fd item, PayloadLen := of_nat (length payload), IsWrite := it_is_write item,
           Comm := go_copy (Comm zero_event) (it_comm item),
           Payload := go_copy (Payload zero_event) payload\<rparr>)"

definition ingest_item ::
  "capture_env \<Rightarrow> bytes \<Rightarrow> event_item \<times> u64 \<times> stamps \<Rightarrow> collector \<Rightarrow> collector option" where
  "ingest_item env nodeID = (\<lambda>(item, now, ts). collector_ingest env (event_of_item now item) nodeID ts)"

definition serveIngestEvents ::
  "capture_env \<Rightarrow> bytes \<Rightarrow> (bytes + bytes) \<Rightarrow> (bytes \<Rightarrow> bytes + bytes \<times> (event_item \<times> u64 \<times> stamps) list) \<Rightarrow>
   collector \<Rightarrow> (http_reply \<times> collector) option" where
  "serveIngestEvents env meth body unmarshal c =
     (if meth \<noteq> ''POST'' then Some (method_not_allowed, c)
      else case body of
        Inl err \<Rightarrow> Some (Status 400 (err @ [LF]), c)
      | Inr data \<Rightarrow>
          (case unmarshal data of
             Inl err \<Rightarrow> Some (Status 400 (err @ [LF]), c)
           | Inr (node_id, items) \<Rightarrow> do {
               let nodeID = (if node_id = [] then ''local-dev'' else node_id);
               c' \<leftarrow> each (ingest_item env nodeID) items c;
               Some (Status 202 (''{'' @ [CHR 0x22] @ ''status'' @ [CHR 0x22] @ '':'' @ [CHR 0x22] @ ''ok''
                       @ [CHR 0x22] @ ''}''), c')
             }))"

definition serveSnapshotDownload :: "bytes \<Rightarrow> bytes \<Rightarrow> bytes \<Rightarrow> collector \<Rightarrow> http_reply" where
  "serveSnapshotDownload meth url_path host c =
     (if meth \<noteq> ''GET'' then method_not_allowed
      else let rest = trim_prefix url_path ''/v1/snapshots/'' in
        if \<not> has_suffix rest ''/download'' then not_found
        else let ident = trim_suffix (trim_suffix rest ''/download'') ''/'' in
          if ident = [] then not_found
          else (case find (\<lambda>s. si_id s = ident) (cl_snapshots c) of
              None \<Rightarrow> not_found
            | Some info \<Rightarrow>
                if si_path info = [] then not_found
                else if si_download_url info \<noteq> [] \<and> has_prefix (si_download_url info) ''http''
                     \<and> \<not> contains (si_download_url info) host
                then Redirect (si_download_url info)
                else ServeFile (si_path info)))"

definition serve_readyz :: "collector \<Rightarrow> http_reply" where
  "serve_readyz c = (if \<not> cl_ready c then Status 503 (''not leader'' @ [LF]) else Status 200 ''ready'')"

definition serve_trigger ::
  "capture_env \<Rightarrow> (trigger_response \<Rightarrow> bytes) \<Rightarrow> bytes \<Rightarrow> bytes option \<Rightarrow> instant \<times> instant \<Rightarrow> collector \<Rightarrow>
   (http_reply \<times> collector) option" where
  "serve_trigger env encode meth detail clk c =
     (if meth \<noteq> ''POST'' then Some (method_not_allowed, c)
      else do {
        (resp, c') \<leftarrow> TriggerSnapshot env (case detail of None \<Rightarrow> [] | Some d \<Rightarrow> d) clk c;
        Some (Status 200 (encode resp), c')
      })"

section \<open>The scrubber's interface\<close>

locale scrubber =
  fixes scrub :: "bytes \<Rightarrow> bytes \<times> redaction_log" and secret :: "bytes \<Rightarrow> bool"
  assumes scrub_length: "length (fst (scrub p)) = length p"
    and scrub_clean: "\<not> secret (fst (scrub p))"
    and scrub_id: "\<not> secret p \<Longrightarrow> fst (scrub p) = p"
begin

lemma scrub_twice: "fst (scrub (fst (scrub p))) = fst (scrub p)"
  by (rule scrub_id) (rule scrub_clean)

lemma scrub_all_clean: "list_all (\<lambda>p. \<not> secret p) (map (\<lambda>p. fst (scrub p)) ps)"
  by (simp add: list_all_iff scrub_clean)

end

definition has_secret :: "bytes \<Rightarrow> bool" where
  "has_secret p = list_ex (\<lambda>rule. \<not> no_match (snd rule) p) rules"

lemma has_secret_iff: "has_secret p \<longleftrightarrow> (\<exists>rule \<in> set rules. \<exists>i. rmatch (snd rule) (drop i p) \<noteq> None)"
  by (auto simp: has_secret_def list_ex_iff no_match_def)

lemma fold_rules_unchanged:
  "list_all (\<lambda>rule. no_match (snd rule) p) rs \<Longrightarrow> fold apply_rule rs (p, log) = (p, log)"
  by (induction rs arbitrary: log) (auto simp: apply_rule_def find_all_no_match split: prod.split)

interpretation redactor: scrubber Scrub has_secret
proof
  show "length (fst (Scrub p)) = length p" for p
    using Scrub_scrubbed [of p] by (simp add: scrubbed_as_def)
  show "\<not> has_secret (fst (Scrub p))" for p
  proof -
    have "no_match (snd rule) (fst (Scrub p))" if "rule \<in> set rules" for rule
    proof -
      have "rule_ok (snd rule)" using rules_ok that by (auto simp: list_all_iff)
      then show ?thesis using that unfolding Scrub_def by (intro fold_rules_no_match rules_ok) auto
    qed
    then show ?thesis by (auto simp: has_secret_def list_ex_iff)
  qed
  show "\<not> has_secret p \<Longrightarrow> fst (Scrub p) = p" for p
    by (simp add: Scrub_def has_secret_def list_ex_iff list_all_iff fold_rules_unchanged)
qed

section \<open>Lemmas\<close>

definition event_ok :: "ioevent \<Rightarrow> bool" where
  "event_ok e = (wf_event e \<and> pl_ok e)"

definition collector_inv :: "collector \<Rightarrow> bool" where
  "collector_inv c =
     (graph_inv (sv_vector (cl_service c)) \<and> list_all (\<lambda>ev. event_ok (be_event ev)) (sv_buf (cl_service c)))"

text \<open>\<open>scrubbed_event e e'\<close>: only payload bytes inside the length differ, by scrubbing.\<close>

definition scrubbed_event :: "ioevent \<Rightarrow> ioevent \<Rightarrow> bool" where
  "scrubbed_event e e' =
     (e' = e\<lparr>Payload := Payload e'\<rparr> \<and> wf_event e' \<and> payload_of e' = fst (Scrub (payload_of e)) \<and>
      drop (unat (PayloadLen e)) (Payload e') = drop (unat (PayloadLen e)) (Payload e))"

lemma scrub_event_ok:
  assumes "event_ok (be_event ev)"
  shows "\<exists>ev' log. scrub_event ev = Some (ev', log) \<and> scrubbed_event (be_event ev) (be_event ev') \<and>
    log = snd (Scrub (payload_of (be_event ev)))"
proof -
  let ?e = "be_event ev" and ?p = "payload_of (be_event ev)"
  have len: "length ?p = unat (PayloadLen ?e)" "unat (PayloadLen ?e) \<le> length (Payload ?e)"
    using assms by (auto simp: event_ok_def wf_event_def pl_ok_def)
  have s: "length (fst (Scrub ?p)) = unat (PayloadLen ?e)" by (simp only: redactor.scrub_length len)
  obtain sc log where sc: "Scrub ?p = (sc, log)" by fastforce
  let ?e' = "?e\<lparr>PayloadLen := of_nat (length sc), Payload := go_copy (Payload ?e) sc\<rparr>"
  have run: "scrub_event ev = Some (ev\<lparr>be_event := ?e'\<rparr>, log)"
    using assms sc by (simp add: scrub_event_def payload_slice_Some event_ok_def Let_def)
  have l: "length sc = unat (PayloadLen ?e)" using s sc by simp
  then have pl: "PayloadLen ?e' = PayloadLen ?e" by simp
  have "payload_of ?e' = sc" "drop (unat (PayloadLen ?e)) (Payload ?e') = drop (unat (PayloadLen ?e)) (Payload ?e)"
    using l len by (simp_all add: pl go_copy_def)
  then have "scrubbed_event ?e ?e'"
    using assms l sc by (simp add: scrubbed_event_def event_ok_def wf_event_def)
  with run sc show ?thesis by auto
qed

lemma scrub_events_ok:
  assumes "list_all (\<lambda>ev. event_ok (be_event ev)) evs"
  shows "\<exists>evs' log. scrub_events evs = Some (evs', log) \<and>
    list_all2 scrubbed_event (map be_event evs) (map be_event evs') \<and>
    log = concat (map (\<lambda>ev. snd (Scrub (payload_of (be_event ev)))) evs)"
  using assms
proof (induction evs)
  case (Cons ev evs)
  then obtain evs' log where "scrub_events evs = Some (evs', log)"
    "list_all2 scrubbed_event (map be_event evs) (map be_event evs')"
    "log = concat (map (\<lambda>ev. snd (Scrub (payload_of (be_event ev)))) evs)" by auto
  moreover obtain ev' l where "scrub_event ev = Some (ev', l)" "scrubbed_event (be_event ev) (be_event ev')"
    "l = snd (Scrub (payload_of (be_event ev)))"
    using scrub_event_ok [of ev] Cons.prems by auto
  ultimately show ?case by simp
qed simp

lemma scrubbed_events_clean:
  "list_all2 scrubbed_event es es' \<Longrightarrow> \<forall>e \<in> set es'. \<not> has_secret (payload_of e)"
  by (induction es es' rule: list_all2_induct) (simp_all add: scrubbed_event_def redactor.scrub_clean)

text \<open>The two outcomes of a snapshot.\<close>

definition capture_failed :: "collector \<Rightarrow> collector \<Rightarrow> bool" where
  "capture_failed c c' =
     (cl_snapshots c' = cl_snapshots c \<and> cl_failures c' = cl_failures c + 1 \<and> cl_service c' = cl_service c)"

definition capture_made :: "collector \<Rightarrow> snapshot_info \<Rightarrow> collector \<Rightarrow> bool" where
  "capture_made c info c' =
     (cl_snapshots c' = cl_snapshots c @ [info] \<and> cl_failures c' = cl_failures c \<and>
      cl_exported c' = cl_exported c + 1 \<and> cl_service c' = cl_service c)"

lemma upload_info_frame [frame_simps, simp]:
  "si_id (upload_info env fs info) = si_id info" "si_path (upload_info env fs info) = si_path info"
  by (auto simp: upload_info_def Let_def split: option.split)

text \<open>The exporter as the incident hook leaves it.\<close>

definition prepared_exporter :: "collector \<Rightarrow> exporter" where
  "prepared_exporter c =
     (case lh_incident (cl_local c) of
        None \<Rightarrow> cl_exporter c
      | Some builder \<Rightarrow>
          (case builder (bufferEventsToNative (sv_buf (cl_service c))) of
             None \<Rightarrow> cl_exporter c
           | Some inc \<Rightarrow> SetIncident (Some inc) (cl_exporter c)))"

lemma prepared_exporter_frame [frame_simps, simp]:
  "ex_key (prepared_exporter c) = ex_key (cl_exporter c)"
  "ex_source (prepared_exporter c) = ex_source (cl_exporter c)" "ex_dir (prepared_exporter c) = ex_dir (cl_exporter c)"
  by (simp_all add: prepared_exporter_def SetIncident_def split: option.split)

lemma captureSnapshot_cases:
  assumes "list_all (\<lambda>ev. event_ok (be_event ev)) (sv_buf (cl_service c))"
  obtains (failed) c' where "captureSnapshot env trig c = Some c'" "capture_failed c c'"
  | (made) c' info evs' log m e' fs where "captureSnapshot env trig c = Some c'" "capture_made c info c'"
      "scrub_events (sv_buf (cl_service c)) = Some (evs', log)"
      "Export (ce_codecs env) (ce_export env) evs' (Graph (sv_vector (cl_service c))) log trig
        (prepared_exporter c) (cl_files c) = (Inr (m, si_path info), e', fs)"
      "si_id info = man_id m" "cl_exporter c' = e'"
      "cl_files c' = postProcessSnapshot (ce_can_write env) (cl_local c) (si_path info) evs' fs"
      "ce_storage env = None \<Longrightarrow> si_download_url info = (if cl_http_base c = [] then []
         else trim_right (cl_http_base c) ''/'' @ ''/v1/snapshots/'' @ man_id m @ ''/download'')"
proof -
  obtain evs' log where sc: "scrub_events (sv_buf (cl_service c)) = Some (evs', log)"
    using scrub_events_ok [OF assms] by blast
  note prepared = prepared_exporter_def [symmetric]
  obtain res e' fs where ex: "Export (ce_codecs env) (ce_export env) evs' (Graph (sv_vector (cl_service c))) log trig
      (prepared_exporter c) (cl_files c) = (res, e', fs)" by (metis surj_pair)
  show thesis
  proof (cases res)
    case (Inl err)
    then show ?thesis
      using ex sc by (intro failed) (auto simp: captureSnapshot_def Let_def prepared capture_failed_def)
  next
    case (Inr mp)
    obtain m path where mp: "mp = (m, path)" by (cases mp)
    define info where "info = (let info0 = \<lparr>si_id = man_id m, si_path = path,
                          si_captured_at = ce_format env (man_captured_at m),
                          si_event_count = man_event_count m, si_storage_uri = [], si_download_url = []\<rparr>;
                 info1 = upload_info env fs info0
             in if si_download_url info1 = [] \<and> cl_http_base c \<noteq> []
                          then info1\<lparr>si_download_url := trim_right (cl_http_base c) ''/''
                                      @ ''/v1/snapshots/'' @ man_id m @ ''/download''\<rparr>
                          else info1)"
    have frame: "si_id info = man_id m" "si_path info = path" by (simp_all add: info_def Let_def)
    have url: "ce_storage env = None \<Longrightarrow> si_download_url info = (if cl_http_base c = [] then []
        else trim_right (cl_http_base c) ''/'' @ ''/v1/snapshots/'' @ man_id m @ ''/download'')"
      by (simp add: info_def upload_info_def Let_def)
    have run: "captureSnapshot env trig c = Some (c\<lparr>cl_exporter := e', cl_snapshots := cl_snapshots c @ [info],
        cl_exported := cl_exported c + 1,
        cl_files := postProcessSnapshot (ce_can_write env) (cl_local c) path evs' fs\<rparr>)"
      using ex sc Inr mp by (simp add: captureSnapshot_def Let_def prepared info_def)
    show ?thesis
    proof (rule made [OF run _ sc])
      show "Export (ce_codecs env) (ce_export env) evs' (Graph (sv_vector (cl_service c))) log trig
          (prepared_exporter c) (cl_files c) = (Inr (m, si_path info), e', fs)" using ex Inr mp frame by simp
    qed (simp_all add: capture_made_def frame url)
  qed
qed

lemma captureSnapshot_total:
  assumes "collector_inv c"
  shows "\<exists>c'. captureSnapshot env trig c = Some c' \<and> collector_inv c' \<and> cl_service c' = cl_service c"
proof -
  have ok: "list_all (\<lambda>ev. event_ok (be_event ev)) (sv_buf (cl_service c))"
    using assms by (simp add: collector_inv_def)
  show ?thesis
    by (rule captureSnapshot_cases [OF ok, of env trig])
      (use assms in \<open>auto simp: capture_failed_def capture_made_def collector_inv_def\<close>)
qed

lemma Add_ok:
  "list_all (\<lambda>ev. event_ok (be_event ev)) buf \<Longrightarrow> event_ok evt \<Longrightarrow>
   list_all (\<lambda>ev. event_ok (be_event ev)) (Add evt n now buf)"
  by (auto simp: Add_eq list_all_iff dest!: set_dropWhileD)

lemma collector_ingest_total:
  assumes "collector_inv c" "event_ok evt"
  shows "\<exists>c'. collector_ingest env evt n ts c = Some c' \<and> collector_inv c' \<and>
    sv_ingested (cl_service c') = sv_ingested (cl_service c) + 1 \<and>
    sv_buf (cl_service c') = Add evt n (fst ts) (sv_buf (cl_service c))"
proof -
  have "graph_inv (sv_vector (cl_service c))" using assms(1) by (simp add: collector_inv_def)
  with ingestEvent_total [of evt "cl_service c" n ts "[]"] assms(2)
  obtain sv out where sv: "ingestEvent evt n ts (cl_service c) = Some (sv, out)" "graph_inv (sv_vector sv)"
    "sv_buf sv = Add evt n (fst ts) (sv_buf (cl_service c))" "sv_ingested sv = sv_ingested (cl_service c) + 1"
    by (auto simp: event_ok_def)
  let ?c = "c\<lparr>cl_service := sv\<rparr>"
  have inv: "collector_inv ?c"
    using sv assms by (simp add: collector_inv_def Add_ok)
  show ?thesis
    using captureSnapshot_total [OF inv, of env] inv sv
    by (cases out) (auto simp: collector_ingest_def IngestNative_def)
qed

lemma event_of_item_ok: "event_ok (event_of_item now item)"
proof -
  have "unat (of_nat n :: u32) = n" if "n \<le> 2048" for n :: nat
    using that by (simp add: unat_of_nat take_bit_nat_eq_self)
  then show ?thesis
    by (auto simp: event_ok_def event_of_item_def Let_def wf_event_def pl_ok_def zero_event_def size_defs)
qed

text \<open>An export that can write takes the snapshot.\<close>

lemma captureSnapshot_made:
  assumes "collector_inv c" "ev_mkdir_ok (ce_export env)" "ev_write_ok (ce_export env)"
    "ev_random (ce_export env) = Some nonce"
  shows "\<exists>c' info. captureSnapshot env trig c = Some c' \<and> cl_snapshots c' = cl_snapshots c @ [info] \<and>
    si_path info = path_join [ex_dir (cl_exporter c), incident_name (ev_uuid (ce_export env))]"
proof -
  have ok: "list_all (\<lambda>ev. event_ok (be_event ev)) (sv_buf (cl_service c))"
    using assms(1) by (simp add: collector_inv_def)
  obtain evs' log where sc: "scrub_events (sv_buf (cl_service c)) = Some (evs', log)"
    using scrub_events_ok [OF ok] by blast
  have dir: "ex_dir (prepared_exporter c) = ex_dir (cl_exporter c)"
    by (simp add: prepared_exporter_def SetIncident_def split: option.split)
  show ?thesis
    using assms(2-4)
    by (simp add: captureSnapshot_def Let_def sc prepared_exporter_def [symmetric] dir Export_def Encrypt_def)
qed

text \<open>What is in the file of a snapshot that has been taken, before the local hooks copy it.\<close>

lemma captured_snapshot:
  assumes "codec_laws (ce_codecs env)" "ev_random (ce_export env) = Some nonce" "length nonce = NonceSize"
    and "collector_inv c" "captureSnapshot env trig c = Some c'" "cl_snapshots c' = cl_snapshots c @ [info]"
  obtains snap fs evs where
    "OpenFile (ce_codecs env) fs (si_path info) (ex_key (cl_exporter c)) = Inr snap"
    "cl_files c' = postProcessSnapshot (ce_can_write env) (cl_local c) (si_path info) evs fs"
    "list_all2 scrubbed_event (map be_event (sv_buf (cl_service c))) (snap_events snap)"
    "\<forall>e \<in> set (snap_events snap). \<not> has_secret (payload_of e)"
    "man_incident (snap_manifest snap) = map_option text_incident (ex_incident (prepared_exporter c))"
    "snap_source snap = text_source (case ex_source (cl_exporter c) of None \<Rightarrow> [] | Some s \<Rightarrow> s)"
    "ex_source (cl_exporter c') = ex_source (cl_exporter c)"
    "si_id info = ev_uuid (ce_export env)"
    "si_path info = path_join [ex_dir (cl_exporter c), incident_name (ev_uuid (ce_export env))]"
    "ce_storage env = None \<Longrightarrow> si_download_url info = (if cl_http_base c = [] then []
       else trim_right (cl_http_base c) ''/'' @ ''/v1/snapshots/'' @ ev_uuid (ce_export env) @ ''/download'')"
proof -
  have ok: "list_all (\<lambda>ev. event_ok (be_event ev)) (sv_buf (cl_service c))"
    using assms(4) by (simp add: collector_inv_def)
  show thesis
  proof (rule captureSnapshot_cases [OF ok, of env trig])
    fix c2 assume "captureSnapshot env trig c = Some c2" "capture_failed c c2"
    with assms(5,6) show thesis by (simp add: capture_failed_def)
  next
    fix c2 info2 evs log m e' fs
    assume run: "captureSnapshot env trig c = Some c2" "capture_made c info2 c2"
      and sc: "scrub_events (sv_buf (cl_service c)) = Some (evs, log)"
      and ex: "Export (ce_codecs env) (ce_export env) evs (Graph (sv_vector (cl_service c))) log trig
        (prepared_exporter c) (cl_files c) = (Inr (m, si_path info2), e', fs)"
      and e': "cl_exporter c2 = e'"
      and files: "cl_files c2 = postProcessSnapshot (ce_can_write env) (cl_local c) (si_path info2) evs fs"
      and id: "si_id info2 = man_id m"
      and url: "ce_storage env = None \<Longrightarrow> si_download_url info2 = (if cl_http_base c = [] then []
         else trim_right (cl_http_base c) ''/'' @ ''/v1/snapshots/'' @ man_id m @ ''/download'')"
    have same: "c2 = c'" "info2 = info" using run assms(5,6) by (auto simp: capture_made_def)
    have m: "man_id m = ev_uuid (ce_export env)"
      "si_path info = path_join [ex_dir (cl_exporter c), incident_name (ev_uuid (ce_export env))]"
      using ex by (auto simp: Export_def Let_def manifest_of_def same split: if_splits sum.splits)
    have rel: "list_all2 scrubbed_event (map be_event (sv_buf (cl_service c))) (map be_event evs)"
      using scrub_events_ok [OF ok] sc by auto
    then have wf: "list_all (\<lambda>ev. wf_event (be_event ev)) evs"
      by (auto simp: list_all2_conv_all_nth list_all_length scrubbed_event_def)
    have src: "ex_source e' = ex_source (prepared_exporter c)"
      using ex by (auto simp: Export_def Let_def split: if_splits sum.splits)
    note opened = export_open [OF assms(1) wf assms(2,3) ex]
    show thesis
      by (rule that [OF opened [THEN conjunct1, unfolded prepared_exporter_frame same] files [unfolded same]])
        (use rel scrubbed_events_clean [OF rel] opened src e' same id url m in \<open>auto simp: text_manifest_def\<close>)
  qed
qed

section \<open>Properties\<close>


definition demo_env :: capture_env where
  "demo_env = \<lparr>ce_codecs = plain_codecs,
     ce_export = \<lparr>ev_mkdir_ok = True, ev_write_ok = True, ev_partial = None, ev_uuid = ''1'', ev_now = 0,
       ev_random = Some (replicate NonceSize NUL)\<rparr>,
     ce_storage = None, ce_format = (\<lambda>_. []), ce_can_write = (\<lambda>_. True)\<rparr>"

definition demo_collector :: collector where
  "demo_collector = collector_New (\<lambda>_. []) (\<lambda>_. Inl ()) ''data'' ''c'' ''k'' Map.empty"

lemma demo_collector_inv: "collector_inv demo_collector"
  by (simp add: demo_collector_def collector_New_def Let_def collector_inv_def graph_inv_new)


text \<open>The HTTP endpoint accepts anything.  Whatever the request, posting events never panics:
  every decoded event is cut to the record's size, ingested, and the collector keeps its
  invariant (a closed graph, and only well-formed events in the buffer); a rejected request
  changes nothing.\<close>

theorem http_ingest_total:
  assumes "collector_inv c"
  shows "\<exists>status msg c'. serveIngestEvents env meth body unmarshal c = Some (Status status msg, c') \<and>
    collector_inv c' \<and> (status \<noteq> 202 \<longrightarrow> c' = c)"
proof -
  have loop: "\<exists>c'. each (ingest_item env n) items c = Some c' \<and> collector_inv c'" for n items
  proof (rule each_total)
    show "\<exists>s'. ingest_item env n x s = Some s' \<and> collector_inv s'" if "collector_inv s" for x s
    proof -
      obtain item now ts where "x = (item, now, ts)" by (rule prod_cases3)
      then show ?thesis
        using collector_ingest_total [OF that event_of_item_ok, of env now item n ts]
        by (auto simp: ingest_item_def)
    qed
  qed (rule assms)
  show ?thesis
  proof (cases "meth = ''POST''")
    case False
    then show ?thesis using assms by (simp add: serveIngestEvents_def method_not_allowed_def)
  next
    case True
    show ?thesis
    proof (cases body)
      case (Inr data)
      show ?thesis
      proof (cases "unmarshal data")
        case (Inr p)
        then show ?thesis
          using True \<open>body = Inr data\<close> loop [of "if fst p = [] then ''local-dev'' else fst p" "snd p"]
          by (cases p) (auto simp: serveIngestEvents_def Let_def)
      qed (use True \<open>body = Inr data\<close> assms in \<open>simp add: serveIngestEvents_def\<close>)
    qed (use True assms in \<open>simp add: serveIngestEvents_def\<close>)
  qed
qed

lemma http_ingest_total_witness:
  "\<exists>status msg c'. serveIngestEvents demo_env ''POST'' (Inr ''x'')
     (\<lambda>_. Inr ([], [(\<lparr>it_timestamp = 0, it_fd = 1, it_is_write = 0, it_comm = [], it_payload = replicate 5000 NUL\<rparr>,
        5, (0, 0, 0))])) demo_collector = Some (Status status msg, c') \<and> collector_inv c'"
  using http_ingest_total [OF demo_collector_inv] by blast

text \<open>A manual trigger always takes a snapshot: it is never held back by the cooldown.  When
  the export succeeds, the answer names the new snapshot; when it fails, the failure is only
  counted, and the answer names the previous snapshot as if it had just been taken.\<close>

theorem manual_trigger_answer:
  assumes "collector_inv c" "te_on_snap (sv_triggers (cl_service c))"
  shows "\<exists>resp c'. TriggerSnapshot env detail clk c = Some (resp, c') \<and>
    ((\<exists>info. cl_snapshots c' = cl_snapshots c @ [info] \<and> tr_id resp = si_id info \<and> tr_path resp = si_path info) \<or>
     (cl_failures c' = cl_failures c + 1 \<and> cl_snapshots c' = cl_snapshots c \<and>
      tr_id resp = (if cl_snapshots c = [] then ''pending'' else si_id (last (cl_snapshots c)))))"
proof -
  let ?t = "sv_triggers (cl_service c)"
  let ?c1 = "c\<lparr>cl_service := (cl_service c)\<lparr>sv_triggers := ?t\<lparr>te_last_fire := Some (snd clk)\<rparr>\<rparr>\<rparr>"
  let ?trig = "\<lparr>trig_type = TriggerManual, trig_detail = detail\<rparr>"
  have man: "Manual detail clk ?t = (?t\<lparr>te_last_fire := Some (snd clk)\<rparr>, Some ?trig)"
    using assms(2) by (simp add: Manual_def fire_def)
  have ok: "list_all (\<lambda>ev. event_ok (be_event ev)) (sv_buf (cl_service ?c1))"
    using assms(1) by (simp add: collector_inv_def)
  show ?thesis
  proof (rule captureSnapshot_cases [OF ok, of env ?trig])
    fix c2 assume "captureSnapshot env ?trig ?c1 = Some c2" "capture_failed ?c1 c2"
    then show ?thesis by (simp add: TriggerSnapshot_def man Let_def capture_failed_def)
  next
    fix c2 info evs' log e0 m e' fs
    assume "captureSnapshot env ?trig ?c1 = Some c2" "capture_made ?c1 info c2"
    then show ?thesis by (simp add: TriggerSnapshot_def man Let_def capture_made_def)
  qed
qed

lemma manual_trigger_answer_witness:
  "\<exists>resp c'. TriggerSnapshot demo_env ''why'' (0, 0) demo_collector = Some (resp, c')"
proof -
  have "te_on_snap (sv_triggers (cl_service demo_collector))"
    by (simp add: demo_collector_def collector_New_def Let_def trigger_New_def)
  from manual_trigger_answer [OF demo_collector_inv this, of demo_env "''why''" "(0, 0)"]
  show ?thesis by blast
qed

text \<open>Only snapshots can be downloaded: the canonical URL of an identifier serves the file, or
  redirects to the store, of the first snapshot listed under it, and answers 404 when there is
  none; whatever the URL, the path of a served file is one the collector wrote.\<close>

theorem download_serves_listed_snapshots:
  "(ident \<noteq> [] \<and> \<not> has_suffix ident ''/'' \<longrightarrow>
    serveSnapshotDownload ''GET'' (''/v1/snapshots/'' @ ident @ ''/download'') host c =
      (case find (\<lambda>s. si_id s = ident) (cl_snapshots c) of
         None \<Rightarrow> not_found
       | Some info \<Rightarrow>
           if si_path info = [] then not_found
           else if si_download_url info \<noteq> [] \<and> has_prefix (si_download_url info) ''http''
                \<and> \<not> contains (si_download_url info) host
           then Redirect (si_download_url info) else ServeFile (si_path info))) \<and>
   (serveSnapshotDownload meth url host c = ServeFile p \<longrightarrow>
      meth = ''GET'' \<and> p \<noteq> [] \<and> p \<in> si_path ` set (cl_snapshots c))"
proof -
  have pre: "trim_prefix (''/v1/snapshots/'' @ ident @ ''/download'') ''/v1/snapshots/'' = ident @ ''/download''"
    by (rule trim_prefix_append)
  have suf: "has_suffix (ident @ ''/download'') ''/download''" "trim_suffix (ident @ ''/download'') ''/download'' = ident"
    by (simp add: has_suffix_iff, rule trim_suffix_append)
  have "trim_suffix ident ''/'' = ident" if "\<not> has_suffix ident ''/''"
    using that by (simp add: trim_suffix_def)
  then have "ident \<noteq> [] \<and> \<not> has_suffix ident ''/'' \<longrightarrow>
    serveSnapshotDownload ''GET'' (''/v1/snapshots/'' @ ident @ ''/download'') host c =
      (case find (\<lambda>s. si_id s = ident) (cl_snapshots c) of
         None \<Rightarrow> not_found
       | Some info \<Rightarrow>
           if si_path info = [] then not_found
           else if si_download_url info \<noteq> [] \<and> has_prefix (si_download_url info) ''http''
                \<and> \<not> contains (si_download_url info) host
           then Redirect (si_download_url info) else ServeFile (si_path info))"
    unfolding serveSnapshotDownload_def Let_def pre suf(2) using suf(1) by simp
  moreover have "serveSnapshotDownload meth url host c = ServeFile p \<longrightarrow>
      meth = ''GET'' \<and> p \<noteq> [] \<and> p \<in> si_path ` set (cl_snapshots c)"
    by (auto simp: serveSnapshotDownload_def Let_def not_found_def method_not_allowed_def find_Some_iff
        split: if_splits option.splits)
  ultimately show ?thesis by blast
qed

lemma download_serves_listed_snapshots_witness:
  "serveSnapshotDownload ''GET'' (''/v1/snapshots/'' @ ''x'' @ ''/download'') [] demo_collector = not_found"
proof -
  have "\<not> has_suffix ''x'' ''/''" by (auto simp: has_suffix_iff Cons_eq_append_conv)
  moreover have "cl_snapshots demo_collector = []" by (simp add: demo_collector_def collector_New_def Let_def)
  ultimately show ?thesis
    using download_serves_listed_snapshots [of "''x''" "[]" demo_collector, THEN conjunct1] by simp
qed

end
