(* ===== verification/Incident.thy ===== *)
theory Incident
  imports Manifest Go_Unicode Go_Path "HOL-Library.Char_ord" "HOL-Library.List_Lexorder"
begin

text \<open>
  What local capture derives from the recorded events: the incident summary
  (dre-collector/pkg/localcapture/incident.go) and the replay configuration
  (dre-collector/pkg/localcapture/replayconfig.go).
\<close>

section \<open>Parsing payloads\<close>

definition parseHTTPRequestLine :: "bytes \<Rightarrow> bytes \<times> bytes" where
  "parseHTTPRequestLine payload =
     (let (line, _, _) = cut payload crlf;
          parts = Go_Strings.fields line
      in if length parts < 2 then ([], []) else (parts ! 0, parts ! 1))"

text \<open>The second result is called a body in the code, but it is what stands between the status
  line and the empty line.\<close>

definition parseHTTPStatus :: "bytes \<Rightarrow> int \<times> bytes" where
  "parseHTTPStatus payload =
     (let (line, rest, ok) = cut payload crlf in
      if \<not> ok then (0, [])
      else if \<not> has_prefix line ''HTTP/'' then (0, [])
      else let parts = Go_Strings.fields line in
        if length parts < 2 then (0, [])
        else let status = (case sscanf_d (parts ! 1) of None \<Rightarrow> 0 | Some n \<Rightarrow> n);
                 (body, _, _) = cut rest (crlf @ crlf)
             in (status, trim_space body))"

definition summarizePayload :: "bytes \<Rightarrow> bytes" where
  "summarizePayload payload =
     (let (line, _, _) = cut payload crlf in if 120 < length line then take 120 line @ ''...'' else line)"

fun host_of_lines :: "unicode \<Rightarrow> bytes list \<Rightarrow> bytes option" where
  "host_of_lines u [] = Some []"
| "host_of_lines u (line # lines) =
     (if has_prefix (to_lower u line) ''host:''
      then do { rest \<leftarrow> slice_from 5 line; Some (trim_space rest) }
      else host_of_lines u lines)"

definition parseHTTPHost :: "unicode \<Rightarrow> bytes \<Rightarrow> bytes option" where
  "parseHTTPHost u payload = host_of_lines u (split payload crlf)"

section \<open>The incident\<close>

text \<open>The loop's variables; the set of services is kept in order of insertion.\<close>

record findings =
  fi_failed_step :: bytes
  fi_root_cause :: bytes
  fi_title :: bytes
  fi_services :: "bytes list"

definition add_service :: "bytes \<Rightarrow> findings \<Rightarrow> findings" where
  "add_service s f = (if s \<in> set (fi_services f) then f else f\<lparr>fi_services := fi_services f @ [s]\<rparr>)"

definition note_response :: "int \<times> bytes \<Rightarrow> bytes \<Rightarrow> findings \<Rightarrow> findings" where
  "note_response sd step f =
     (let (status, detail) = sd in
      if 400 \<le> status \<and> (fi_failed_step f = [] \<or> 500 \<le> status)
      then f\<lparr>fi_failed_step := step, fi_root_cause := detail,
             fi_title := (if 500 \<le> status then ''Server error: HTTP '' else ''Client error: HTTP '') @ itoa_int status\<rparr>
      else f)"

definition comm_of :: "ioevent \<Rightarrow> bytes" where
  "comm_of ev = trim_right (Comm ev) [NUL]"

definition note_event :: "ioevent \<Rightarrow> findings \<Rightarrow> findings option" where
  "note_event ev f = do {
     payload \<leftarrow> payload_slice ev;
     let comm = comm_of ev;
     let f1 = (if comm \<noteq> [] then add_service comm f else f);
     if IsWrite ev \<noteq> 0 then
       (let (meth, path) = parseHTTPRequestLine payload
        in Some (if meth \<noteq> [] then add_service (meth @ '' '' @ path) f1 else f1))
     else Some (note_response (parseHTTPStatus payload) (summarizePayload payload) f1)
   }"

text \<open>Go visits the keys of a map in no fixed order: \<open>order\<close> is the order of one run.\<close>

definition BuildIncident ::
  "(bytes list \<Rightarrow> bytes list) \<Rightarrow> ioevent list \<Rightarrow> incident option option" where
  "BuildIncident order events =
     (if length events = 0 then Some None
      else do {
        f \<leftarrow> each note_event events \<lparr>fi_failed_step = [], fi_root_cause = [], fi_title = [], fi_services = []\<rparr>;
        let title = (if fi_title f = [] then ''Captured incident'' else fi_title f);
        let cause = (if fi_root_cause f = [] then ''See event timeline for failing request/response'' else fi_root_cause f);
        let step = (if fi_failed_step f = [] then ''See highlighted error event in timeline'' else fi_failed_step f);
        Some (Some \<lparr>inc_title = title,
          inc_summary = ''Local capture with '' @ itoa (length events) @ '' events. '' @ step,
          inc_root_cause = cause,
          inc_services = filter (\<lambda>s. \<not> contains s '' '') (order (fi_services f)),
          inc_failed_step = step\<rparr>)
      })"

section \<open>The replay configuration\<close>

record replay_service =
  ry_name :: bytes
  ry_local_port :: int
  ry_remote_host :: bytes
  ry_protocol :: bytes

record replay_yaml =
  ry_proxy_addr :: bytes
  ry_debug_addr :: bytes
  ry_freeze_enabled :: bool
  ry_shim_path :: bytes
  ry_services :: "replay_service list"

definition splitServiceHost :: "bytes \<Rightarrow> bytes \<times> int" where
  "splitServiceHost host =
     (if contains host '':'' then
        (let parts = split host '':'' in
         (join '':'' (butlast parts), case sscanf_d (last parts) of None \<Rightarrow> 80 | Some p \<Rightarrow> p))
      else (host, 80))"

definition replay_fmtHostPort :: "bytes \<Rightarrow> int \<Rightarrow> bytes" where
  "replay_fmtHostPort host port = (if port = 80 then host else host @ '':'' @ itoa_int port)"

definition sanitizeServiceName :: "bytes \<Rightarrow> bytes" where
  "sanitizeServiceName host =
     (let h1 = replace_all host ''.'' ''-''; h2 = replace_all h1 '':'' ''-''
      in if h2 = [] then ''service'' else h2)"

definition findClockShim :: "(bytes \<Rightarrow> bytes option) \<Rightarrow> bytes \<Rightarrow> bytes" where
  "findClockShim fs root =
     (case find (\<lambda>p. fs p \<noteq> None)
        (map (\<lambda>rel. path_join [root, rel]) [''bin/clock_shim.so'', ''.bugit/clock_shim.so'']) of
        None \<Rightarrow> [] | Some p \<Rightarrow> p)"

record service_scan =
  sn_seen :: "(bytes \<times> int) list"
  sn_port :: int
  sn_services :: "replay_service list"

definition scan_event :: "unicode \<Rightarrow> ioevent \<Rightarrow> service_scan \<Rightarrow> service_scan option" where
  "scan_event u ev s = do {
     payload \<leftarrow> payload_slice ev;
     host \<leftarrow> parseHTTPHost u payload;
     if host = [] then Some s
     else (let (h, p) = splitServiceHost host in
       if (h, p) \<in> set (sn_seen s) then Some s
       else Some \<lparr>sn_seen = sn_seen s @ [(h, p)], sn_port = sn_port s + 1,
         sn_services = sn_services s @ [\<lparr>ry_name = sanitizeServiceName h, ry_local_port = sn_port s,
           ry_remote_host = replay_fmtHostPort h p, ry_protocol = ''http''\<rparr>]\<rparr>)
   }"

text \<open>\<open>srt\<close> is \<^verbatim>\<open>sort.Slice\<close> by name, which is not stable; \<open>marshal\<close> and \<open>write\<close> are the YAML
  encoder and the file write.\<close>

definition WriteReplayConfig ::
  "unicode \<Rightarrow> (replay_service list \<Rightarrow> replay_service list) \<Rightarrow> (replay_yaml \<Rightarrow> 'err + bytes) \<Rightarrow>
   (bytes \<Rightarrow> bytes \<Rightarrow> 'err option) \<Rightarrow> (bytes \<Rightarrow> bytes option) \<Rightarrow> bytes \<Rightarrow> bytes \<Rightarrow> ioevent list \<Rightarrow>
   ('err option \<times> replay_yaml) option" where
  "WriteReplayConfig u srt marshal write fs path projectRoot events = do {
     s \<leftarrow> each (scan_event u) events \<lparr>sn_seen = [], sn_port = 18081, sn_services = []\<rparr>;
     let shim = findClockShim fs projectRoot;
     let cfg = \<lparr>ry_proxy_addr = ''127.0.0.1:18080'', ry_debug_addr = ''127.0.0.1:19090'',
       ry_freeze_enabled = (shim \<noteq> []), ry_shim_path = shim, ry_services = srt (sn_services s)\<rparr>;
     Some (case marshal cfg of Inl err \<Rightarrow> Some err | Inr data \<Rightarrow> write path data, cfg)
   }"

section \<open>Lemmas\<close>

text \<open>The error responses of a capture, in order: status, summary line and detail.\<close>

definition error_responses :: "ioevent list \<Rightarrow> (int \<times> bytes \<times> bytes) list" where
  "error_responses events =
     map (\<lambda>ev. (fst (parseHTTPStatus (payload_of ev)), summarizePayload (payload_of ev), snd (parseHTTPStatus (payload_of ev))))
       (filter (\<lambda>ev. IsWrite ev = 0 \<and> 400 \<le> fst (parseHTTPStatus (payload_of ev))) events)"

text \<open>The response an incident is about: the last server error, or else the first client error.\<close>

definition worst_response :: "(int \<times> bytes \<times> bytes) list \<Rightarrow> (int \<times> bytes \<times> bytes) option" where
  "worst_response rs =
     (case filter (\<lambda>r. 500 \<le> fst r) rs of
        [] \<Rightarrow> (case rs of [] \<Rightarrow> None | r # _ \<Rightarrow> Some r)
      | es \<Rightarrow> Some (last es))"

definition describes :: "findings \<Rightarrow> (int \<times> bytes \<times> bytes) option \<Rightarrow> bool" where
  "describes f r =
     (case r of
        None \<Rightarrow> fi_failed_step f = [] \<and> fi_root_cause f = [] \<and> fi_title f = []
      | Some (status, step, detail) \<Rightarrow>
          fi_failed_step f = step \<and> step \<noteq> [] \<and> fi_root_cause f = detail \<and>
          fi_title f = (if 500 \<le> status then ''Server error: HTTP '' else ''Client error: HTTP '') @ itoa_int status)"

lemma summarize_status_line:
  assumes "400 \<le> fst (parseHTTPStatus p)"
  shows "summarizePayload p \<noteq> []"
proof -
  obtain line rest ok where c: "cut p crlf = (line, rest, ok)" by (metis surj_pair)
  have "has_prefix line ''HTTP/''"
    using assms by (auto simp: parseHTTPStatus_def c Let_def split: if_splits)
  then have "line \<noteq> []" by (auto simp: has_prefix_def)
  then show ?thesis by (simp add: summarizePayload_def c)
qed

lemma add_service_frame [frame_simps, simp]:
  "fi_failed_step (add_service s f) = fi_failed_step f" "fi_root_cause (add_service s f) = fi_root_cause f"
  "fi_title (add_service s f) = fi_title f"
  by (simp_all add: add_service_def)

lemma describes_add_service [simp]: "describes (add_service s f) r = describes f r"
  by (simp add: describes_def split: option.split)

lemma worst_response_snoc:
  "worst_response (rs @ [(st, step, d)]) =
     (if 500 \<le> st \<or> rs = [] then Some (st, step, d) else worst_response rs)"
  by (cases rs) (auto simp: worst_response_def split: list.split)

lemma note_event_describes:
  assumes "event = ev" "wf_event ev" "pl_ok ev" "describes f (worst_response (error_responses evs))"
  shows "\<exists>f'. note_event ev f = Some f' \<and> describes f' (worst_response (error_responses (evs @ [ev])))"
proof -
  let ?p = "payload_of ev"
  obtain st d where sd: "parseHTTPStatus ?p = (st, d)" by fastforce
  let ?f1 = "if comm_of ev \<noteq> [] then add_service (comm_of ev) f else f"
  have f1: "describes ?f1 (worst_response (error_responses evs))" using assms(4) by simp
  show ?thesis
  proof (cases "IsWrite ev = 0")
    case False
    then have "error_responses (evs @ [ev]) = error_responses evs" by (simp add: error_responses_def)
    then show ?thesis
      using False assms(2-4) by (simp add: note_event_def payload_slice_Some Let_def split: prod.split)
  next
    case True
    have run: "note_event ev f = Some (note_response (st, d) (summarizePayload ?p) ?f1)"
      using True assms(2,3) by (simp add: note_event_def payload_slice_Some Let_def sd)
    show ?thesis
    proof (cases "400 \<le> st")
      case False
      then have "error_responses (evs @ [ev]) = error_responses evs" by (simp add: error_responses_def sd)
      then show ?thesis using False run f1 by (simp add: note_response_def)
    next
      case err: True
      have er: "error_responses (evs @ [ev]) = error_responses evs @ [(st, summarizePayload ?p, d)]"
        using True err by (simp add: error_responses_def sd)
      have "summarizePayload ?p \<noteq> []" using summarize_status_line [of ?p] err sd by simp
      moreover have "fi_failed_step ?f1 = [] \<longleftrightarrow> error_responses evs = []"
        using f1 by (cases "error_responses evs")
          (auto simp: describes_def worst_response_def split: option.splits list.splits prod.splits if_splits)
      ultimately show ?thesis
        using err f1 unfolding run er worst_response_snoc
        by (auto simp: note_response_def describes_def)
    qed
  qed
qed

lemma each_describes:
  assumes "list_all (\<lambda>ev. wf_event ev \<and> pl_ok ev) evs" "describes f (worst_response (error_responses pre))"
  shows "\<exists>f'. each note_event evs f = Some f' \<and> describes f' (worst_response (error_responses (pre @ evs)))"
  using assms
proof (induction evs arbitrary: f pre)
  case (Cons ev evs)
  then obtain f1 where "note_event ev f = Some f1" "describes f1 (worst_response (error_responses (pre @ [ev])))"
    using note_event_describes [OF refl, of ev f pre] by auto
  with Cons.IH [of f1 "pre @ [ev]"] Cons.prems show ?case by simp
qed simp

lemma scan_event_step:
  assumes "scan_event u ev s = Some s'"
    and "distinct (sn_seen s)" "length (sn_services s) = length (sn_seen s)"
    and "sn_port s = 18081 + int (length (sn_seen s))"
    and "map ry_local_port (sn_services s) = map (\<lambda>i. 18081 + int i) [0..<length (sn_seen s)]"
    and "map ry_remote_host (sn_services s) = map (\<lambda>(h, p). replay_fmtHostPort h p) (sn_seen s)"
  shows "distinct (sn_seen s') \<and> length (sn_services s') = length (sn_seen s') \<and>
    sn_port s' = 18081 + int (length (sn_seen s')) \<and>
    map ry_local_port (sn_services s') = map (\<lambda>i. 18081 + int i) [0..<length (sn_seen s')] \<and>
    map ry_remote_host (sn_services s') = map (\<lambda>(h, p). replay_fmtHostPort h p) (sn_seen s') \<and>
    set (sn_seen s') = set (sn_seen s) \<union> {splitServiceHost h | h payload.
      payload_slice ev = Some payload \<and> parseHTTPHost u payload = Some h \<and> h \<noteq> []}"
proof -
  obtain payload host where p: "payload_slice ev = Some payload" "parseHTTPHost u payload = Some host"
    using assms(1) by (auto simp: scan_event_def bind_eq_Some_conv)
  obtain h q where hq: "splitServiceHost host = (h, q)" by fastforce
  have s': "s' = (if host = [] \<or> (h, q) \<in> set (sn_seen s) then s
      else \<lparr>sn_seen = sn_seen s @ [(h, q)], sn_port = sn_port s + 1,
         sn_services = sn_services s @ [\<lparr>ry_name = sanitizeServiceName h, ry_local_port = sn_port s,
           ry_remote_host = replay_fmtHostPort h q, ry_protocol = ''http''\<rparr>]\<rparr>)"
    using assms(1) by (auto simp: scan_event_def p hq split: if_splits)
  then show ?thesis using assms(2-) hq by (auto simp: p)
qed

definition scan_ok :: "unicode \<Rightarrow> ioevent list \<Rightarrow> service_scan \<Rightarrow> bool" where
  "scan_ok u evs s =
     (distinct (sn_seen s) \<and> length (sn_services s) = length (sn_seen s) \<and>
      sn_port s = 18081 + int (length (sn_seen s)) \<and>
      map ry_local_port (sn_services s) = map (\<lambda>i. 18081 + int i) [0..<length (sn_seen s)] \<and>
      map ry_remote_host (sn_services s) = map (\<lambda>(h, p). replay_fmtHostPort h p) (sn_seen s) \<and>
      set (sn_seen s) = {splitServiceHost h | h ev payload. ev \<in> set evs \<and>
        payload_slice ev = Some payload \<and> parseHTTPHost u payload = Some h \<and> h \<noteq> []})"

lemma scan_all:
  "scan_ok u pre s \<Longrightarrow> each (scan_event u) evs s = Some s' \<Longrightarrow> scan_ok u (pre @ evs) s'"
proof (induction evs arbitrary: pre s)
  case (Cons ev evs)
  then obtain s1 where s1: "scan_event u ev s = Some s1" "each (scan_event u) evs s1 = Some s'"
    by (auto simp: bind_eq_Some_conv)
  have "scan_ok u (pre @ [ev]) s1"
    using scan_event_step [OF s1(1)] Cons.prems(1) by (auto simp: scan_ok_def)
  from Cons.IH [OF this s1(2)] show ?case by simp
qed simp

lemma incident_of_worst:
  assumes "list_all (\<lambda>ev. wf_event ev \<and> pl_ok ev) events" "events \<noteq> []"
  shows "\<exists>inc. BuildIncident order events = Some (Some inc) \<and>
    (case worst_response (error_responses events) of
       None \<Rightarrow> inc_title inc = ''Captured incident''
         \<and> inc_root_cause inc = ''See event timeline for failing request/response''
         \<and> inc_failed_step inc = ''See highlighted error event in timeline''
     | Some (status, step, detail) \<Rightarrow>
         inc_title inc = (if 500 \<le> status then ''Server error: HTTP '' else ''Client error: HTTP '') @ itoa_int status
         \<and> inc_failed_step inc = step
         \<and> inc_root_cause inc = (if detail = [] then ''See event timeline for failing request/response'' else detail))"
proof -
  let ?f0 = "\<lparr>fi_failed_step = [], fi_root_cause = [], fi_title = [], fi_services = []\<rparr>"
  have "describes ?f0 (worst_response (error_responses []))"
    by (simp add: describes_def worst_response_def error_responses_def)
  from each_describes [OF assms(1) this] obtain f where f: "each note_event events ?f0 = Some f"
    "describes f (worst_response (error_responses events))" by auto
  obtain inc where inc: "BuildIncident order events = Some (Some inc)"
    and fields: "inc_title inc = (if fi_title f = [] then ''Captured incident'' else fi_title f)"
      "inc_root_cause inc = (if fi_root_cause f = [] then ''See event timeline for failing request/response'' else fi_root_cause f)"
      "inc_failed_step inc = (if fi_failed_step f = [] then ''See highlighted error event in timeline'' else fi_failed_step f)"
    using f(1) assms(2) by (simp add: BuildIncident_def Let_def)
  show ?thesis
  proof (cases "worst_response (error_responses events)")
    case None
    with f(2) fields inc show ?thesis by (simp add: describes_def)
  next
    case (Some r)
    obtain st step d where r: "r = (st, step, d)" by (cases r)
    from f(2) have d: "fi_failed_step f = step" "step \<noteq> []" "fi_root_cause f = d"
      "fi_title f = (if 500 \<le> st then ''Server error: HTTP '' else ''Client error: HTTP '') @ itoa_int st"
      by (simp_all add: describes_def Some r)
    then have "fi_title f \<noteq> []" by simp
    with d fields show ?thesis unfolding inc Some r by simp
  qed
qed

section \<open>Properties\<close>

text \<open>C27: The incident is about the worst response: the last server error of the capture, or else
  the first client error.  Its title carries that status, its failed step is that status line
  (cut to 120 bytes), and a capture without error responses gets the neutral texts.\<close>

theorem incident_reports_worst_response:
  assumes "list_all (\<lambda>ev. wf_event ev \<and> pl_ok ev) events" "events \<noteq> []"
  shows "\<exists>inc. BuildIncident order events = Some (Some inc) \<and>
    (case worst_response (error_responses events) of
       None \<Rightarrow> inc_title inc = ''Captured incident''
         \<and> inc_root_cause inc = ''See event timeline for failing request/response''
         \<and> inc_failed_step inc = ''See highlighted error event in timeline''
     | Some (status, step, detail) \<Rightarrow>
         inc_title inc = (if 500 \<le> status then ''Server error: HTTP '' else ''Client error: HTTP '') @ itoa_int status
         \<and> inc_failed_step inc = step
         \<and> inc_root_cause inc = (if detail = [] then ''See event timeline for failing request/response'' else detail))"
  using assms by (rule incident_of_worst)

lemma incident_reports_worst_response_witness:
  "\<exists>inc. BuildIncident id [zero_event] = Some (Some inc) \<and> inc_title inc = ''Captured incident''"
proof -
  have p: "payload_of zero_event = []" by (simp add: zero_event_def)
  have "parseHTTPStatus [] = (0, [])" by (simp add: parseHTTPStatus_def cut_def crlf_def)
  then have none: "worst_response (error_responses [zero_event]) = None"
    by (simp add: error_responses_def p worst_response_def)
  have "list_all (\<lambda>ev. wf_event ev \<and> pl_ok ev) [zero_event]" by (simp add: pl_ok_def) (simp add: zero_event_def)
  from incident_reports_worst_response [OF this, of id] show ?thesis unfolding none by auto
qed

text \<open>The generated replay configuration has one service per distinct host and port named in
  a Host header of the capture, no more and no fewer, on consecutive local ports from 18081
  that are all different, sorted by name.\<close>

theorem replay_config_services:
  assumes "\<And>xs. set (srt xs) = set xs \<and> length (srt xs) = length xs \<and> sorted (map ry_name (srt xs))"
    and "WriteReplayConfig u srt marshal write fs path root events = Some (r, cfg)"
  shows "\<exists>hosts. distinct hosts \<and>
    set hosts = {splitServiceHost h | h ev payload. ev \<in> set events \<and>
        payload_slice ev = Some payload \<and> parseHTTPHost u payload = Some h \<and> h \<noteq> []} \<and>
    length (ry_services cfg) = length hosts \<and>
    ry_local_port ` set (ry_services cfg) = {18081..<18081 + int (length hosts)} \<and>
    distinct (map ry_local_port (ry_services cfg)) \<and>
    ry_remote_host ` set (ry_services cfg) = (\<lambda>(h, p). replay_fmtHostPort h p) ` set hosts \<and>
    sorted (map ry_name (ry_services cfg))"
proof -
  obtain s where s: "each (scan_event u) events \<lparr>sn_seen = [], sn_port = 18081, sn_services = []\<rparr> = Some s"
    and cfg: "ry_services cfg = srt (sn_services s)"
    using assms(2) by (auto simp: WriteReplayConfig_def bind_eq_Some_conv Let_def)
  have "scan_ok u [] \<lparr>sn_seen = [], sn_port = 18081, sn_services = []\<rparr>" by (simp add: scan_ok_def)
  from scan_all [OF this s] have ok: "scan_ok u events s" by simp
  have ports: "ry_local_port ` set (ry_services cfg) = {18081..<18081 + int (length (sn_seen s))}"
  proof -
    have "set (map ry_local_port (sn_services s)) = (\<lambda>i. 18081 + int i) ` {0..<length (sn_seen s)}"
      using ok by (simp add: scan_ok_def)
    also have "\<dots> = {18081..<18081 + int (length (sn_seen s))}"
    proof -
      have "(\<lambda>i. 18081 + int i) ` {0..<n} = (+) 18081 ` int ` {0..<n}" for n by (simp add: image_image)
      then show ?thesis by (simp only: image_int_atLeastLessThan image_add_atLeastLessThan) (simp add: add.commute)
    qed
    finally show ?thesis using assms(1) cfg by simp
  qed
  have remote: "ry_remote_host ` set (ry_services cfg) = (\<lambda>(h, p). replay_fmtHostPort h p) ` set (sn_seen s)"
  proof -
    have "map ry_remote_host (sn_services s) = map (\<lambda>(h, p). replay_fmtHostPort h p) (sn_seen s)"
      using ok unfolding scan_ok_def by blast
    then have "ry_remote_host ` set (sn_services s) = (\<lambda>(h, p). replay_fmtHostPort h p) ` set (sn_seen s)"
      by (metis list.set_map)
    then show ?thesis unfolding cfg using assms(1) [of "sn_services s"] by simp
  qed
  have len: "length (ry_services cfg) = length (sn_seen s)" using ok assms(1) cfg by (simp add: scan_ok_def)
  then have "card (set (map ry_local_port (ry_services cfg))) = length (map ry_local_port (ry_services cfg))"
    using ports by simp
  then have "distinct (map ry_local_port (ry_services cfg))" by (rule card_distinct)
  then show ?thesis
    using ports remote len assms(1) [of "sn_services s"] ok [unfolded scan_ok_def]
    unfolding cfg [symmetric] by (intro exI [of _ "sn_seen s"] conjI) blast+
qed

lemma replay_config_services_witness:
  "\<exists>r cfg. WriteReplayConfig plain_unicode (sort_key ry_name) (\<lambda>_. Inr []) (\<lambda>_ _. None :: unit option) Map.empty ''p'' ''r'' []
     = Some (r, cfg) \<and> ry_services cfg = []"
proof -
  obtain r cfg where run: "WriteReplayConfig plain_unicode (sort_key ry_name) (\<lambda>_. Inr []) (\<lambda>_ _. None :: unit option)
      Map.empty ''p'' ''r'' [] = Some (r, cfg)"
    by (simp add: WriteReplayConfig_def Let_def)
  have "set (sort_key ry_name xs) = set xs \<and> length (sort_key ry_name xs) = length xs \<and>
      sorted (map ry_name (sort_key ry_name xs))" for xs :: "replay_service list" by simp
  from replay_config_services [OF this run] run show ?thesis by auto
qed

end
