(* ===== verification/Time_Freeze.thy ===== *)
theory Time_Freeze
  imports Manifest
begin

text \<open>
  The frozen clock of a replay (dre-replay-cli/internal/timefreeze): the debugger's cursor is
  mapped to the recorded time, which is handed to the debugged process in an environment
  variable and a state file.
\<close>

section \<open>The engine\<close>

record tf_engine =
  tf_timeline :: clock_timeline
  tf_enabled :: bool
  tf_shim_path :: bytes
  tf_state_file :: bytes

text \<open>The process environment and the files it can reach; an unset variable reads as empty.\<close>

record tf_world =
  w_env :: "bytes \<Rightarrow> bytes option"
  w_files :: "bytes \<Rightarrow> bytes option"

definition getenv :: "tf_world \<Rightarrow> bytes \<Rightarrow> bytes" where
  "getenv w k = (case w_env w k of None \<Rightarrow> [] | Some v \<Rightarrow> v)"

definition NewEngine :: "clock_timeline \<Rightarrow> bool \<Rightarrow> bytes \<Rightarrow> tf_world \<Rightarrow> tf_engine" where
  "NewEngine timeline enabled shim w =
     \<lparr>tf_timeline = timeline, tf_enabled = enabled, tf_shim_path = shim,
      tf_state_file = getenv w ''DRE_FROZEN_TIME_FILE''\<rparr>"

fun best_from :: "int \<Rightarrow> clock_entry list \<Rightarrow> u64 \<Rightarrow> u64" where
  "best_from cursor [] best = best"
| "best_from cursor (ent # ents) best =
     best_from cursor ents
       (if ce_index ent \<le> cursor \<and> best \<le> ce_timestamp ent then ce_timestamp ent else best)"

definition timestampForCursor :: "int \<Rightarrow> ioevent list \<Rightarrow> tf_engine \<Rightarrow> u64" where
  "timestampForCursor cursor events e =
     (if 0 < length (tf_timeline e) then
        (let best = best_from cursor (tf_timeline e) 0
         in if 0 < best then best else ce_timestamp (tf_timeline e ! 0))
      else if 0 \<le> cursor \<and> cursor < int (length events) then TimestampNs (events ! nat cursor)
      else if 0 < length events then TimestampNs (events ! 0)
      else 0)"

text \<open>A failed write of the state file is ignored; \<open>can_write\<close> says which files can be written.\<close>

definition SyncToCursor ::
  "(bytes \<Rightarrow> bool) \<Rightarrow> int \<Rightarrow> ioevent list \<Rightarrow> tf_engine \<Rightarrow> tf_world \<Rightarrow> tf_world" where
  "SyncToCursor can_write cursor events e w =
     (if \<not> tf_enabled e then w
      else let ts = timestampForCursor cursor events e in
        if ts = 0 then w
        else let w' = w\<lparr>w_env := (w_env w)(''DRE_FROZEN_TIME_NS'' \<mapsto> itoa (unat ts))\<rparr> in
          if tf_state_file e \<noteq> [] \<and> can_write (tf_state_file e)
          then w'\<lparr>w_files := (w_files w')(tf_state_file e \<mapsto> itoa (unat ts))\<rparr>
          else w')"

text \<open>The \<^verbatim>\<open>%d\<close> verb into a \<^verbatim>\<open>uint64\<close>: no sign, and nothing is assigned on overflow.\<close>

definition sscanf_u64 :: "bytes \<Rightarrow> u64 option" where
  "sscanf_u64 s =
     (let ds = takeWhile is_digit (trim_encs (filter (\<lambda>e. e \<noteq> [LF]) space_encs) s) in
      if ds \<noteq> [] \<and> dec_val ds < 2 ^ 64 then Some (of_nat (dec_val ds)) else None)"

definition FrozenTimestampNs :: "tf_world \<Rightarrow> u64" where
  "FrozenTimestampNs w =
     (let v = getenv w ''DRE_FROZEN_TIME_NS'' in
      if v = [] then 0 else (case sscanf_u64 v of None \<Rightarrow> 0 | Some ts \<Rightarrow> ts))"

fun last_index_le :: "int \<Rightarrow> nat \<Rightarrow> clock_entry list \<Rightarrow> nat \<Rightarrow> nat" where
  "last_index_le cursor i [] idx = idx"
| "last_index_le cursor i (ent # ents) idx =
     last_index_le cursor (Suc i) ents (if ce_index ent \<le> cursor then i else idx)"

definition ClockIndex :: "int \<Rightarrow> tf_engine \<Rightarrow> nat" where
  "ClockIndex cursor e =
     (if length (tf_timeline e) = 0 then 0 else last_index_le cursor 0 (tf_timeline e) 0)"

section \<open>Timeline files\<close>

datatype 'err file_read = NotExist | ReadFailed 'err | Contents bytes

definition LoadTimeline ::
  "(bytes \<Rightarrow> 'err file_read) \<Rightarrow> (bytes \<Rightarrow> 'err + clock_timeline) \<Rightarrow> bytes \<Rightarrow> 'err + clock_timeline" where
  "LoadTimeline readFile unmarshal path =
     (if path = [] then Inr []
      else case readFile path of
        NotExist \<Rightarrow> Inr []
      | ReadFailed err \<Rightarrow> Inl err
      | Contents data \<Rightarrow> unmarshal data)"

definition WriteTimeline ::
  "(clock_timeline \<Rightarrow> 'err + bytes) \<Rightarrow> (bytes \<Rightarrow> bytes \<Rightarrow> 'err option) \<Rightarrow> bytes \<Rightarrow> clock_timeline \<Rightarrow> 'err option" where
  "WriteTimeline marshal writeFile path timeline =
     (case marshal timeline of Inl err \<Rightarrow> Some err | Inr data \<Rightarrow> writeFile path data)"

section \<open>Lemmas\<close>

lemma best_from_ge: "best \<le> best_from cursor ents best"
  by (induction ents arbitrary: best) (auto intro: order_trans)

lemma best_from_mono: "best \<le> best' \<Longrightarrow> c \<le> c' \<Longrightarrow> best_from c ents best \<le> best_from c' ents best'"
proof (induction ents arbitrary: best best')
  case (Cons ent ents)
  show ?case unfolding best_from.simps
    by (rule Cons.IH) (use Cons.prems in auto)
qed simp

lemma best_from_in: "best_from c ents best = best \<or> best_from c ents best \<in> ce_timestamp ` set ents"
proof (induction ents arbitrary: best)
  case (Cons ent ents)
  then show ?case using Cons.IH [of "ce_timestamp ent"] Cons.IH [of best] by auto
qed simp

lemma best_from_sorted:
  "sorted (map ce_timestamp ents) \<Longrightarrow> \<forall>ent \<in> set ents. best \<le> ce_timestamp ent \<Longrightarrow>
   sorted_wrt (<) (map ce_index ents) \<Longrightarrow>
   best_from c ents best =
     (case filter (\<lambda>ent. ce_index ent \<le> c) ents of [] \<Rightarrow> best | _ \<Rightarrow> ce_timestamp (last (filter (\<lambda>ent. ce_index ent \<le> c) ents)))"
proof (induction ents arbitrary: best)
  case (Cons ent ents)
  then have ih: "best_from c ents b =
     (case filter (\<lambda>ent. ce_index ent \<le> c) ents of [] \<Rightarrow> b | _ \<Rightarrow> ce_timestamp (last (filter (\<lambda>ent. ce_index ent \<le> c) ents)))"
    if "\<forall>ent \<in> set ents. b \<le> ce_timestamp ent" for b
    using that by simp
  show ?case
    using Cons.prems ih by (cases "filter (\<lambda>ent. ce_index ent \<le> c) ents") auto
qed simp

lemma last_index_le_eq:
  "last_index_le c i ents idx =
     (case filter (\<lambda>k. ce_index (ents ! k) \<le> c) [0..<length ents] of
        [] \<Rightarrow> idx | ks \<Rightarrow> i + last ks)"
proof (induction ents arbitrary: i idx)
  case (Cons ent ents)
  have "[0..<length (ent # ents)] = 0 # map Suc [0..<length ents]"
    by (simp add: upt_conv_Cons map_Suc_upt del: upt_Suc)
  then show ?case
    using Cons.IH [of "Suc i"]
    by (simp add: filter_map comp_def last_map del: upt_Suc split: list.split)
qed simp

lemma map_nth_filter:
  "filter P xs = map (\<lambda>k. xs ! k) (filter (\<lambda>k. P (xs ! k)) [0..<length xs])"
proof -
  have "filter P (map (\<lambda>k. xs ! k) [0..<length xs]) = map (\<lambda>k. xs ! k) (filter (\<lambda>k. P (xs ! k)) [0..<length xs])"
    by (simp add: filter_map comp_def)
  then show ?thesis by (simp add: map_nth)
qed

lemma frozen_sync:
  "FrozenTimestampNs (SyncToCursor can_write c events e w) =
     (if tf_enabled e \<and> timestampForCursor c events e \<noteq> 0 then timestampForCursor c events e
      else FrozenTimestampNs w)"
proof -
  have scan: "sscanf_u64 (itoa (unat ts)) = Some ts" for ts :: u64
  proof -
    obtain d ds where ds: "itoa (unat ts) = d # ds" "is_digit d"
      using itoa_not_Nil [of "unat ts"] itoa_digits [of "unat ts"] by (metis list.exhaust list.set_intros(1))
    have "plain_char d" using ds(2) by (auto simp: plain_char_def is_digit_def)
    have "\<not> prefix x (d # ds)" if "x \<in> set space_encs" for x
      using space_encs_not_plain that \<open>plain_char d\<close> by (cases x) auto
    then have "space_len (filter (\<lambda>e. e \<noteq> [LF]) space_encs) (d # ds) = 0"
    proof -
      have "find (\<lambda>e. prefix e (d # ds)) (filter (\<lambda>e. e \<noteq> [LF]) space_encs) = None"
        unfolding find_None_iff using \<open>\<And>x. x \<in> set space_encs \<Longrightarrow> \<not> prefix x (d # ds)\<close> by auto
      then show ?thesis by (simp add: space_len_def)
    qed
    then have "trim_encs (filter (\<lambda>e. e \<noteq> [LF]) space_encs) (itoa (unat ts)) = itoa (unat ts)"
      by (simp add: trim_encs.simps ds(1))
    moreover have "takeWhile is_digit (itoa (unat ts)) = itoa (unat ts)"
      using itoa_digits by (simp add: takeWhile_eq_all_conv)
    moreover have "unat ts < 2 ^ LENGTH(64)" by (rule unsigned_less)
    ultimately show ?thesis unfolding sscanf_u64_def Let_def by (simp del: takeWhile_eq_all_conv)
  qed
  show ?thesis
    by (simp add: SyncToCursor_def Let_def FrozenTimestampNs_def getenv_def scan)
qed

section \<open>Properties\<close>

text \<open>Frozen time never runs backwards while the cursor moves forwards, for every timeline
  recorded with nondecreasing timestamps, whatever its indices.\<close>

theorem frozen_time_monotone:
  assumes "sorted (map ce_timestamp (tf_timeline e))" "tf_timeline e \<noteq> []" "c \<le> c'"
  shows "timestampForCursor c events e \<le> timestampForCursor c' events e"
proof -
  let ?tl = "tf_timeline e"
  have le: "best_from c ?tl 0 \<le> best_from c' ?tl 0" by (rule best_from_mono) (use assms(3) in auto)
  have head: "\<forall>ent \<in> set ?tl. ce_timestamp (?tl ! 0) \<le> ce_timestamp ent"
    using assms(1,2) by (cases ?tl) auto
  have "ce_timestamp (?tl ! 0) \<le> best_from c' ?tl 0" if "0 < best_from c' ?tl 0"
    using best_from_in [of c' ?tl 0] that head by auto
  with le show ?thesis
    using assms(2) by (auto simp: timestampForCursor_def Let_def word_gt_0 dest: order_antisym)
qed

lemma frozen_time_monotone_witness:
  "timestampForCursor 3 [] \<lparr>tf_timeline = [\<lparr>ce_index = 0, ce_timestamp = 100\<rparr>, \<lparr>ce_index = 5, ce_timestamp = 500\<rparr>],
     tf_enabled = True, tf_shim_path = [], tf_state_file = []\<rparr> \<le> (500 :: u64)"
  using frozen_time_monotone [of "\<lparr>tf_timeline = [\<lparr>ce_index = 0, ce_timestamp = 100\<rparr>,
      \<lparr>ce_index = 5, ce_timestamp = 500\<rparr>], tf_enabled = True, tf_shim_path = [], tf_state_file = []\<rparr>" 3 5 "[]"]
  by (simp add: timestampForCursor_def)



text \<open>What the replay publishes is read back: after a synchronisation the environment variable
  holds the frozen time exactly, for all \<open>2 ^ 64\<close> values; a disabled engine or a recording
  without times changes nothing.\<close>

theorem frozen_time_roundtrip:
  "FrozenTimestampNs (SyncToCursor can_write c events e w) =
     (if tf_enabled e \<and> timestampForCursor c events e \<noteq> 0 then timestampForCursor c events e
      else FrozenTimestampNs w)"
  by (rule frozen_sync)

end
