(* ===== verification/Project_Config.thy ===== *)
theory Project_Config
  imports Time_Freeze Go_Path Go_Unicode
begin

text \<open>
  Locating a project and its capture settings (pkg/project/project.go, pkg/project/ports.go).
  Reading a file and the YAML and JSON decoders are fields of the environment; writes return
  the updated file system.
\<close>

section \<open>Settings\<close>

record config =
  cf_collector_http :: bytes
  cf_collector_grpc :: bytes
  cf_record_proxy :: bytes
  cf_app_port :: int
  cf_snapshot_key :: bytes
  cf_runtime :: bytes
  cf_inspect_port :: int
  cf_capture_root :: bytes
  cf_dev_command :: bytes
  cf_trigger4xx :: bool

record layout =
  ly_root :: bytes
  ly_bugit_dir :: bytes
  ly_config_path :: bytes
  ly_replay_path :: bytes
  ly_snapshots_path :: bytes
  ly_data_path :: bytes
  ly_latest_snapshot :: bytes

record capture_target =
  ct_root :: bytes
  ct_dev_command :: "bytes list"
  ct_public_port :: int

record 'e proj_env =
  pe_read :: "bytes \<Rightarrow> 'e file_read"
  pe_yaml :: "bytes \<Rightarrow> config \<Rightarrow> config \<times> 'e option"
  pe_scripts :: "bytes \<Rightarrow> (bytes \<Rightarrow> bytes) option"
  pe_cwd :: bytes
  pe_mkdir :: "bytes \<Rightarrow> 'e option"
  pe_write :: "bytes \<Rightarrow> 'e option"
  pe_yaml_out :: "config \<Rightarrow> 'e + bytes"

definition DirName :: bytes where "DirName = ''.bugit''"
definition ConfigName :: bytes where "ConfigName = ''bugit.yaml''"

definition DefaultConfig :: config where
  "DefaultConfig =
     \<lparr>cf_collector_http = ''http://127.0.0.1:28080'', cf_collector_grpc = ''127.0.0.1:29090'',
      cf_record_proxy = ''127.0.0.1:4000'', cf_app_port = 4000,
      cf_snapshot_key = ''dev-insecure-key-change-me'', cf_runtime = [], cf_inspect_port = 9229,
      cf_capture_root = [], cf_dev_command = ''npm run dev'', cf_trigger4xx = False\<rparr>"

definition LoadConfig :: "'e proj_env \<Rightarrow> bytes \<Rightarrow> config \<times> 'e option" where
  "LoadConfig env path =
     (let cfg = DefaultConfig in
      case pe_read env path of
        NotExist \<Rightarrow> (cfg, None)
      | ReadFailed err \<Rightarrow> (cfg, Some err)
      | Contents data \<Rightarrow>
          (case pe_yaml env data cfg of
             (cfg', Some err) \<Rightarrow> (cfg', Some err)
           | (cfg', None) \<Rightarrow>
               (if cf_snapshot_key cfg' = [] then cfg'\<lparr>cf_snapshot_key := cf_snapshot_key DefaultConfig\<rparr> else cfg',
                None)))"

text \<open>\<^verbatim>\<open>os.Stat\<close> succeeds on a file that is there, readable or not.\<close>

definition exists_file :: "'e proj_env \<Rightarrow> bytes \<Rightarrow> bool" where
  "exists_file env path = (case pe_read env path of NotExist \<Rightarrow> False | _ \<Rightarrow> True)"

definition hasDevPackageJSON :: "'e proj_env \<Rightarrow> bytes \<Rightarrow> bool" where
  "hasDevPackageJSON env dir =
     (case pe_read env (path_join [dir, ''package.json'']) of
        Contents data \<Rightarrow>
          (case pe_scripts env data of
             None \<Rightarrow> False
           | Some scripts \<Rightarrow> scripts ''dev'' \<noteq> [] \<or> scripts ''start'' \<noteq> [])
      | _ \<Rightarrow> False)"

definition readCachedCaptureRoot :: "'e proj_env \<Rightarrow> bytes \<Rightarrow> bytes" where
  "readCachedCaptureRoot env workspace =
     (case find (\<lambda>base. let (cfg, err) = LoadConfig env (path_join [base, DirName, ConfigName])
                         in err = None \<and> cf_capture_root cfg \<noteq> [])
        [workspace, path_dir workspace] of
        None \<Rightarrow> []
      | Some base \<Rightarrow>
          (let root = cf_capture_root (fst (LoadConfig env (path_join [base, DirName, ConfigName])))
           in if path_is_abs root then root else path_join [base, root]))"

definition path_abs :: "'e proj_env \<Rightarrow> bytes \<Rightarrow> bytes" where
  "path_abs env p = (if path_is_abs p then path_clean p else path_join [pe_cwd env, p])"

text \<open>The walk to the parents: \<open>None\<close> is a walk that does not end, \<open>Some None\<close> one that ends
  without success.\<close>

partial_function (option) walk_up :: "'e proj_env \<Rightarrow> bytes \<Rightarrow> bytes option option" where
  "walk_up env dir =
     (if hasDevPackageJSON env dir then Some (Some dir)
      else let parent = path_dir dir in
        if parent = dir then Some None else walk_up env parent)"

definition FindCaptureRoot :: "'e proj_env \<Rightarrow> bytes \<Rightarrow> bytes option" where
  "FindCaptureRoot env workspace =
     (let abs = path_abs env workspace;
          cached = readCachedCaptureRoot env abs
      in if cached \<noteq> [] \<and> exists_file env (path_join [cached, ''package.json'']) then Some cached
         else if hasDevPackageJSON env abs then Some abs
         else (case find (hasDevPackageJSON env)
                 (map (\<lambda>sub. path_join [abs, sub])
                   [''backend'', ''server'', ''api'', ''apps/api'', ''packages/api'']) of
             Some candidate \<Rightarrow> Some candidate
           | None \<Rightarrow>
               (case walk_up env abs of
                  None \<Rightarrow> None
                | Some None \<Rightarrow> Some abs
                | Some (Some dir) \<Rightarrow> Some dir)))"

definition FindRoot :: "'e proj_env \<Rightarrow> bytes \<Rightarrow> bytes option" where
  "FindRoot = FindCaptureRoot"

definition DetectDevCommand :: "'e proj_env \<Rightarrow> bytes \<Rightarrow> bytes" where
  "DetectDevCommand env root =
     (case pe_read env (path_join [root, ''package.json'']) of
        Contents data \<Rightarrow>
          (case pe_scripts env data of
             None \<Rightarrow> ''npm run dev''
           | Some scripts \<Rightarrow>
               if scripts ''dev'' \<noteq> [] then ''npm run dev''
               else if scripts ''start'' \<noteq> [] then ''npm start''
               else ''npm run dev'')
      | _ \<Rightarrow> ''npm run dev'')"

definition ParseDevCommand :: "bytes \<Rightarrow> bytes list" where
  "ParseDevCommand cmd =
     (let parts = Go_Strings.fields (trim_space cmd)
      in if length parts = 0 then [''npm'', ''run'', ''dev''] else parts)"

section \<open>Ports\<close>

text \<open>The first line \<^verbatim>\<open>PORT=\<close> with a positive number.\<close>

fun port_of_lines :: "bytes list \<Rightarrow> int" where
  "port_of_lines [] = 0"
| "port_of_lines (line0 # lines) =
     (let line = trim_space line0 in
      if has_prefix line ''PORT='' then
        (let v = trim_chars (trim_prefix line ''PORT='') [CHR 0x22, CHR 0x27]
         in case atoi v of
              Some p \<Rightarrow> if 0 < p then p else port_of_lines lines
            | None \<Rightarrow> port_of_lines lines)
      else port_of_lines lines)"

definition portFromEnvFile :: "'e proj_env \<Rightarrow> bytes \<Rightarrow> int" where
  "portFromEnvFile env path =
     (case pe_read env path of Contents data \<Rightarrow> port_of_lines (split data [LF]) | _ \<Rightarrow> 0)"

fun first_positive :: "int list \<Rightarrow> int" where
  "first_positive [] = 0"
| "first_positive (p # ps) = (if 0 < p then p else first_positive ps)"

definition env_names :: "bytes list" where
  "env_names = [''.env'', ''.env.local'', ''.env.development'']"

definition portFromEnvDirs :: "'e proj_env \<Rightarrow> bytes \<Rightarrow> int" where
  "portFromEnvDirs env dir = first_positive (map (\<lambda>name. portFromEnvFile env (path_join [dir, name])) env_names)"

text \<open>The expression \<^verbatim>\<open>(?i)(?:NEXT_PUBLIC_API_URL|API_URL|VITE_API_URL)\s*=\s*https?://[^:]+:(\d+)\<close>.
  No two alternatives start alike and every repetition is ended by a byte it excludes, so it
  is matched without backtracking.  Folding case, \<^verbatim>\<open>s\<close> also matches the long s (U+017F).\<close>

definition drop_fold :: "bytes \<Rightarrow> bytes \<Rightarrow> bytes option" where
  "drop_fold word s =
     (if length word \<le> length s \<and> map lower_char (take (length word) s) = map lower_char word
      then Some (drop (length word) s) else None)"

definition re_space :: "char \<Rightarrow> bool" where
  "re_space c = (c \<in> {TAB, LF, CHR 0x0C, CR, CHR '' ''})"

definition drop_optional_s :: "bytes \<Rightarrow> bytes" where
  "drop_optional_s s =
     (case drop_fold ''s'' s of
        Some r \<Rightarrow> r
      | None \<Rightarrow> if has_prefix s [CHR 0xC5, CHR 0xBF] then drop 2 s else s)"

definition api_url_here :: "bytes \<Rightarrow> bytes option" where
  "api_url_here s = do {
     r1 \<leftarrow> (case drop_fold ''NEXT_PUBLIC_API_URL'' s of
              Some r \<Rightarrow> Some r
            | None \<Rightarrow> (case drop_fold ''API_URL'' s of Some r \<Rightarrow> Some r | None \<Rightarrow> drop_fold ''VITE_API_URL'' s));
     r2 \<leftarrow> drop_fold ''='' (dropWhile re_space r1);
     r3 \<leftarrow> drop_fold ''http'' (dropWhile re_space r2);
     r4 \<leftarrow> drop_fold ''://'' (drop_optional_s r3);
     let host = takeWhile (\<lambda>c. c \<noteq> CHR '':'') r4;
     let digits = takeWhile is_digit (drop (length host + 1) r4);
     if host \<noteq> [] \<and> length host < length r4 \<and> digits \<noteq> [] then Some digits else None
   }"

fun api_url_match :: "bytes \<Rightarrow> bytes option" where
  "api_url_match [] = None"
| "api_url_match (c # cs) =
     (case api_url_here (c # cs) of Some digits \<Rightarrow> Some digits | None \<Rightarrow> api_url_match cs)"

definition apiURLFromEnv :: "'e proj_env \<Rightarrow> bytes \<Rightarrow> int" where
  "apiURLFromEnv env dir =
     first_positive (map (\<lambda>name.
       case pe_read env (path_join [dir, name]) of
         Contents data \<Rightarrow>
           (case api_url_match data of
              None \<Rightarrow> 0
            | Some digits \<Rightarrow> (case atoi digits of Some p \<Rightarrow> if 0 < p then p else 0 | None \<Rightarrow> 0))
       | _ \<Rightarrow> 0) env_names)"

definition ResolveBackendPort :: "'e proj_env \<Rightarrow> bytes \<Rightarrow> bytes \<Rightarrow> int" where
  "ResolveBackendPort env workspace captureRoot =
     (let cfgPath = path_join [captureRoot, DirName, ConfigName];
          (cfg, err) = LoadConfig env cfgPath
      in if exists_file env cfgPath \<and> err = None \<and> 0 < cf_app_port cfg then cf_app_port cfg
         else let p = portFromEnvDirs env captureRoot in
           if 0 < p then p
           else let abs = path_abs env workspace;
                    q = first_positive (map (\<lambda>rel. apiURLFromEnv env (path_join [abs, rel]))
                          [''web'', ''frontend'', ''client'', ''apps/web''] @ [apiURLFromEnv env abs])
                in if 0 < q then q
                   else if hasDevPackageJSON env captureRoot then 4000 else 3000)"

definition portFromURL :: "bytes \<Rightarrow> int" where
  "portFromURL raw0 =
     (let raw = trim_space raw0 in
      case index_of raw ''://'' of
        None \<Rightarrow> 0
      | Some i \<Rightarrow>
          (let hostPort = trim_prefix (drop (i + 3) raw) ''/'';
               last_port = (if contains hostPort '':'' then atoi (last (split hostPort '':'')) else None)
           in case last_port of
                Some p \<Rightarrow> p
              | None \<Rightarrow> if contains raw '':3000'' then 3000 else 0))"

definition DetectPublicPort :: "'e proj_env \<Rightarrow> bytes \<Rightarrow> int" where
  "DetectPublicPort env root = ResolveBackendPort env root root"

definition fmtHostPort :: "bytes \<Rightarrow> int \<Rightarrow> bytes" where
  "fmtHostPort host port = host @ '':'' @ itoa_int port"

definition InternalPort :: "int \<Rightarrow> int" where
  "InternalPort publicPort = publicPort + 10000"

definition ResolveCaptureTarget :: "'e proj_env \<Rightarrow> bytes \<Rightarrow> capture_target option" where
  "ResolveCaptureTarget env workspace = do {
     root \<leftarrow> FindCaptureRoot env workspace;
     let cfg = fst (LoadConfig env (path_join [root, DirName, ConfigName]));
     let detected = ResolveBackendPort env workspace root;
     let port = (if cf_app_port cfg \<le> 0 then detected else cf_app_port cfg);
     let cmd = (if cf_dev_command cfg = [] then DetectDevCommand env root else cf_dev_command cfg);
     Some \<lparr>ct_root = root, ct_dev_command = ParseDevCommand cmd, ct_public_port = port\<rparr>
   }"

definition PrepareConfig :: "'e proj_env \<Rightarrow> bytes \<Rightarrow> config \<Rightarrow> config" where
  "PrepareConfig env root cfg =
     (let c1 = (if cf_app_port cfg \<le> 0 then cfg\<lparr>cf_app_port := ResolveBackendPort env root root\<rparr> else cfg);
          c2 = c1\<lparr>cf_record_proxy := fmtHostPort ''127.0.0.1'' (cf_app_port c1)\<rparr>;
          c3 = (if cf_dev_command c2 = [] then c2\<lparr>cf_dev_command := DetectDevCommand env root\<rparr> else c2);
          c4 = (if cf_inspect_port c3 \<le> 0 then c3\<lparr>cf_inspect_port := cf_inspect_port DefaultConfig\<rparr> else c3)
      in c4\<lparr>cf_capture_root := root\<rparr>)"

definition LayoutFor :: "bytes \<Rightarrow> layout" where
  "LayoutFor root =
     (let bugit = path_join [root, DirName]
      in \<lparr>ly_root = root, ly_bugit_dir = bugit, ly_config_path = path_join [bugit, ConfigName],
          ly_replay_path = path_join [bugit, ''replay.yaml''], ly_snapshots_path = path_join [bugit, ''snapshots''],
          ly_data_path = path_join [bugit, ''data''], ly_latest_snapshot = path_join [bugit, ''latest.dre'']\<rparr>)"

section \<open>Writing the layout\<close>

text \<open>A write that succeeds is seen by later reads.\<close>

definition write_file :: "bytes \<Rightarrow> bytes \<Rightarrow> 'e proj_env \<Rightarrow> 'e option \<times> 'e proj_env" where
  "write_file path data env =
     (case pe_write env path of
        Some err \<Rightarrow> (Some err, env)
      | None \<Rightarrow> (None, env\<lparr>pe_read := (pe_read env)(path := Contents data)\<rparr>))"

definition ensureGitignore :: "bytes \<Rightarrow> 'e proj_env \<Rightarrow> 'e option \<times> 'e proj_env" where
  "ensureGitignore root env =
     (let path = path_join [root, ''.gitignore''] in
      case pe_read env path of
        ReadFailed err \<Rightarrow> (Some err, env)
      | res \<Rightarrow>
          (let content = (case res of Contents data \<Rightarrow> data | _ \<Rightarrow> []) in
           if contains content (DirName @ ''/'') \<or> contains content (DirName @ [CHR 0x5C]) then (None, env)
           else let line = DirName @ ''/'' @ [LF];
                    line' = (if 0 < length content \<and> \<not> has_suffix content [LF] then [LF] @ line else line)
                in write_file path (content @ line') env))"

fun mkdir_all :: "bytes list \<Rightarrow> 'e proj_env \<Rightarrow> 'e option" where
  "mkdir_all [] env = None"
| "mkdir_all (d # ds) env = (case pe_mkdir env d of Some err \<Rightarrow> Some err | None \<Rightarrow> mkdir_all ds env)"

definition EnsureLayout :: "bytes \<Rightarrow> 'e proj_env \<Rightarrow> layout \<times> 'e option \<times> 'e proj_env" where
  "EnsureLayout root env =
     (let ly = LayoutFor root in
      case mkdir_all [ly_bugit_dir ly, ly_snapshots_path ly, ly_data_path ly] env of
        Some err \<Rightarrow> (ly, Some err, env)
      | None \<Rightarrow> (ly, ensureGitignore root env))"

definition SaveConfig :: "bytes \<Rightarrow> config \<Rightarrow> 'e proj_env \<Rightarrow> 'e option \<times> 'e proj_env" where
  "SaveConfig path cfg env =
     (case pe_yaml_out env cfg of
        Inl err \<Rightarrow> (Some err, env)
      | Inr data \<Rightarrow>
          (case pe_mkdir env (path_dir path) of
             Some err \<Rightarrow> (Some err, env)
           | None \<Rightarrow> write_file path data env))"

text \<open>The zero value of the settings, returned beside an error.\<close>

definition zero_config :: config where
  "zero_config =
     \<lparr>cf_collector_http = [], cf_collector_grpc = [], cf_record_proxy = [], cf_app_port = 0, cf_snapshot_key = [],
      cf_runtime = [], cf_inspect_port = 0, cf_capture_root = [], cf_dev_command = [], cf_trigger4xx = False\<rparr>"

definition SyncWorkspaceConfig ::
  "bytes \<Rightarrow> 'e proj_env \<Rightarrow> (layout \<times> config \<times> 'e option \<times> 'e proj_env) option" where
  "SyncWorkspaceConfig workspace env = do {
     root \<leftarrow> FindCaptureRoot env workspace;
     Some (case EnsureLayout root env of
         (ly, Some err, env1) \<Rightarrow> (ly, zero_config, Some err, env1)
       | (ly, None, env1) \<Rightarrow>
           (case LoadConfig env1 (ly_config_path ly) of
              (_, Some err) \<Rightarrow> (ly, zero_config, Some err, env1)
            | (cfg, None) \<Rightarrow>
                (let existingInspect = cf_inspect_port cfg;
                     c1 = PrepareConfig env1 root cfg;
                     c2 = (if 0 < existingInspect then c1\<lparr>cf_inspect_port := existingInspect\<rparr> else c1)
                 in case SaveConfig (ly_config_path ly) c2 env1 of (err, env2) \<Rightarrow> (ly, c2, err, env2))))
   }"

section \<open>The walk ends\<close>

definition tot :: "bytes list \<Rightarrow> nat" where
  "tot xs = sum_list (map (\<lambda>x. length x + 1) xs)"

lemma tot_simps [simp]: "tot [] = 0" "tot (x # xs) = length x + 1 + tot xs" "tot (xs @ ys) = tot xs + tot ys"
  "tot (rev xs) = tot xs"
  by (simp_all add: tot_def rev_map [symmetric])

lemma tot_join: "xs \<noteq> [] \<Longrightarrow> length (join ''/'' xs) + 1 = tot xs"
proof (induction xs)
  case (Cons x xs)
  then show ?case by (cases xs) auto
qed simp

lemma tot_clean: "tot (clean_elems rooted acc xs) \<le> tot acc + tot (filter (\<lambda>x. x \<noteq> []) xs)"
proof (induction rooted acc xs rule: clean_elems.induct)
  case (2 rooted acc x xs)
  consider "x = [] \<or> x = dot" | "x \<noteq> []" "x \<noteq> dot" "x = dotdot" "acc = []"
    | y ys where "x \<noteq> []" "x \<noteq> dot" "x = dotdot" "acc = y # ys"
    | "x \<noteq> []" "x \<noteq> dot" "x \<noteq> dotdot"
    by (cases acc) blast+
  then show ?case
  proof cases
    case 1
    then show ?thesis using "2.IH"(1) by (auto intro: le_trans)
  next
    case 2
    then show ?thesis using "2.IH"(2) by (auto intro: le_trans)
  next
    case 3
    then show ?thesis using "2.IH"(3,4) by (cases "y = dotdot") auto
  next
    case 4
    then show ?thesis using "2.IH"(5) by auto
  qed
qed simp

lemma tot_split: "tot (split p ''/'') = length p + 1"
  using tot_join [of "split p ''/''"] by (simp add: join_split)

lemma index_of_char:
  "index_of s [c] = None \<longleftrightarrow> c \<notin> set s" "index_of s [c] = Some i \<Longrightarrow> c \<notin> set (take i s)"
proof -
  show "index_of s [c] = None \<longleftrightarrow> c \<notin> set s" by (induction s) auto
  show "index_of s [c] = Some i \<Longrightarrow> c \<notin> set (take i s)"
    by (induction s arbitrary: i) (auto split: if_splits)
qed

lemma split_elem: "x \<in> set (split s [c]) \<Longrightarrow> c \<notin> set x"
proof (induction s "[c]" rule: split.induct)
  case (1 s)
  then show ?case
    by (subst (asm) (2) split.simps) (auto simp: index_of_char split: option.splits dest: index_of_char(2))
qed

lemma split_ends_empty:
  assumes "q \<noteq> []" "last q = c"
  shows "[] \<in> set (split q [c])"
proof (rule ccontr)
  assume no: "[] \<notin> set (split q [c])"
  let ?x = "last (split q [c])"
  have x: "?x \<in> set (split q [c])" by (rule last_in_set) simp
  with no have "?x \<noteq> []" by metis
  have "join sep xs \<noteq> [] \<and> last (join sep xs) = last (last xs)" if "xs \<noteq> []" "last xs \<noteq> []"
    for sep and xs :: "bytes list"
    using that by (induction sep xs rule: join.induct) auto
  from this [of "split q [c]" "[c]"] \<open>?x \<noteq> []\<close> have "last q = last ?x" by (simp add: join_split)
  moreover have "c \<notin> set ?x" using split_elem [OF x] .
  ultimately show False using assms(2) last_in_set [OF \<open>?x \<noteq> []\<close>] by simp
qed

lemma tot_filter: "tot (filter P xs) + length (filter (\<lambda>x. \<not> P x) xs) \<le> tot xs"
  by (induction xs) auto

lemma length_path_clean:
  assumes "has_prefix p ''/''"
  shows "length (path_clean p) \<le> length p"
    and "1 < length p \<Longrightarrow> last p = CHR ''/'' \<Longrightarrow> length (path_clean p) < length p"
    and "has_prefix (path_clean p) ''/''"
proof -
  obtain q where p: "p = CHR ''/'' # q" using assms by (auto simp: has_prefix_def elim: prefixE)
  have sp: "split p ''/'' = [] # split q ''/''" by (subst split.simps) (simp add: p)
  let ?r = "clean_elems True [] (split p ''/'')" and ?e = "length (filter (\<lambda>x. \<not> x \<noteq> []) (split q ''/''))"
  have r: "tot ?r + ?e \<le> length p"
    using tot_clean [of True "[]" "split p ''/''"] tot_filter [of "\<lambda>x. x \<noteq> []" "split q ''/''"] tot_split [of q]
    unfolding sp by (simp add: p)
  have eq: "path_clean p = ''/'' @ join ''/'' ?r" by (simp add: path_clean_def p)
  have len: "length (path_clean p) = (if ?r = [] then 1 else tot ?r)"
    using tot_join [of ?r] by (simp add: eq)
  show "length (path_clean p) \<le> length p" using len r p by (auto split: if_splits)
  show "has_prefix (path_clean p) ''/''" by (simp add: eq has_prefix_def)
  assume "1 < length p" "last p = CHR ''/''"
  then have "[] \<in> set (split q ''/'')" using p by (intro split_ends_empty) auto
  then have "0 < ?e" by (auto simp: filter_empty_conv)
  with len r \<open>1 < length p\<close> show "length (path_clean p) < length p"
  proof (cases "?r = []")
    case True
    with len \<open>1 < length p\<close> show ?thesis by simp
  next
    case False
    with len have "length (path_clean p) = tot ?r" by simp
    with r \<open>0 < ?e\<close> show ?thesis by linarith
  qed
qed

lemma path_dir_shorter:
  assumes "has_prefix p ''/''"
  shows "path_dir p = p \<or> length (path_dir p) < length p" "has_prefix (path_dir p) ''/''"
proof -
  obtain q where p: "p = CHR ''/'' # q" using assms by (auto simp: has_prefix_def elim: prefixE)
  have "index_of (rev p) ''/'' \<noteq> None" by (simp add: index_of_char p)
  then obtain i where i: "last_index p ''/'' = Some i" by (auto simp: last_index_def)
  let ?q = "take (i + 1) p"
  from last_index_split [OF i] have b: "i + 1 \<le> length p" and s: "p = take i p @ ''/'' @ drop (i + 1) p" by simp_all
  have dir: "path_dir p = path_clean ?q" by (simp add: path_dir_def i)
  have pre: "has_prefix ?q ''/''" by (simp add: p has_prefix_def)
  have "p ! i = CHR ''/''" using s b by (metis Suc_eq_plus1 append_Cons less_eq_Suc_le length_take min.absorb2 nth_append_length order_less_imp_le)
  moreover have "?q \<noteq> []" "length ?q - 1 = i" using b by auto
  ultimately have lst: "last ?q = CHR ''/''" by (metis last_conv_nth lessI nth_take Suc_eq_plus1)
  show "has_prefix (path_dir p) ''/''" unfolding dir by (rule length_path_clean(3) [OF pre])
  show "path_dir p = p \<or> length (path_dir p) < length p"
  proof (cases "i + 1 < length p")
    case True
    then show ?thesis using length_path_clean(1) [OF pre] by (simp add: dir)
  next
    case False
    then have q: "?q = p" using b by simp
    show ?thesis
    proof (cases "1 < length p")
      case True
      then have "length (path_clean p) < length p" using length_path_clean(2) [OF pre] lst unfolding q by blast
      then show ?thesis unfolding dir q by blast
    next
      case False
      then have one: "p = ''/''" using p by simp
      have "length (path_clean p) \<le> 1" "has_prefix (path_clean p) ''/''"
        using length_path_clean(1,3) [OF pre] unfolding q by (simp_all add: one)
      then have "path_clean p = ''/''" by (auto simp: has_prefix_def elim!: prefixE)
      then have "path_clean p = p" using one by simp
      then show ?thesis unfolding dir q by blast
    qed
  qed
qed

lemma walk_up_ends:
  assumes "has_prefix dir ''/''"
  shows "\<exists>r. walk_up env dir = Some r \<and> (\<forall>d. r = Some d \<longrightarrow> hasDevPackageJSON env d)"
  using assms
proof (induction "length dir" arbitrary: dir rule: less_induct)
  case less
  show ?case
  proof (cases "hasDevPackageJSON env dir \<or> path_dir dir = dir")
    case True
    then show ?thesis by (subst walk_up.simps) (auto simp: Let_def)
  next
    case False
    with less.hyps [of "path_dir dir"] path_dir_shorter [OF less.prems]
    obtain r where "walk_up env (path_dir dir) = Some r" "\<forall>d. r = Some d \<longrightarrow> hasDevPackageJSON env d" by blast
    with False show ?thesis by (subst walk_up.simps) (simp add: Let_def)
  qed
qed

lemma path_abs_rooted:
  assumes "has_prefix (pe_cwd env) ''/''"
  shows "has_prefix (path_abs env p) ''/''"
proof (cases "path_is_abs p")
  case True
  then show ?thesis using length_path_clean(3) [of p] by (simp add: path_abs_def path_is_abs_def)
next
  case False
  have "pe_cwd env \<noteq> []" using assms by (auto simp: has_prefix_def)
  then have "path_join [pe_cwd env, p] = path_clean (join ''/'' [pe_cwd env, p])" by (simp add: path_join_def)
  moreover have "has_prefix (join ''/'' [pe_cwd env, p]) ''/''"
    using assms by (auto simp: has_prefix_def elim!: prefixE)
  ultimately show ?thesis using False length_path_clean(3) by (simp add: path_abs_def)
qed

section \<open>Properties\<close>

text \<open>C28: Looking for the project root ends, for every workspace path and every file system: the
  walk to the parents of an absolute path reaches the root.  The result has a package file
  with a start script, unless it was cached in the settings or is the workspace itself.\<close>

theorem FindCaptureRoot_terminates:
  assumes "has_prefix (pe_cwd env) ''/''"
  shows "\<exists>root. FindCaptureRoot env workspace = Some root \<and>
    (hasDevPackageJSON env root \<or> root = path_abs env workspace \<or>
     root = readCachedCaptureRoot env (path_abs env workspace))"
proof -
  from walk_up_ends [OF path_abs_rooted [OF assms], of env workspace]
  obtain r where r: "walk_up env (path_abs env workspace) = Some r" "\<forall>d. r = Some d \<longrightarrow> hasDevPackageJSON env d"
    by blast
  show ?thesis
    using r by (auto simp: FindCaptureRoot_def Let_def find_Some_iff split: option.split)
qed

definition empty_env :: "unit proj_env" where
  "empty_env = \<lparr>pe_read = (\<lambda>_. NotExist), pe_yaml = (\<lambda>_ c. (c, None)), pe_scripts = (\<lambda>_. None), pe_cwd = ''/w'',
     pe_mkdir = (\<lambda>_. None), pe_write = (\<lambda>_. None), pe_yaml_out = (\<lambda>_. Inr [])\<rparr>"

lemma empty_env_root: "FindCaptureRoot empty_env w = Some (path_abs empty_env w)"
proof -
  have n: "hasDevPackageJSON empty_env d = False" "readCachedCaptureRoot empty_env d = []" for d
    by (simp_all add: hasDevPackageJSON_def empty_env_def readCachedCaptureRoot_def LoadConfig_def DefaultConfig_def)
  from walk_up_ends [OF path_abs_rooted, of empty_env empty_env w] obtain r where
    "walk_up empty_env (path_abs empty_env w) = Some r" "\<forall>d. r = Some d \<longrightarrow> hasDevPackageJSON empty_env d"
    by (auto simp: empty_env_def has_prefix_def)
  then show ?thesis using n by (cases r) (simp_all add: FindCaptureRoot_def)
qed

lemma FindCaptureRoot_terminates_witness: "\<exists>root. FindCaptureRoot empty_env ''x/y'' = Some root"
  using FindCaptureRoot_terminates [of empty_env "''x/y''"] by (auto simp: empty_env_def has_prefix_def)

text \<open>A project without saved settings is always captured on port 4000.  The default settings
  already carry that port, so the port found in the project's \<^verbatim>\<open>.env\<close> files or in a frontend's
  API address is never used, whatever it is.\<close>

theorem detected_port_is_ignored:
  assumes "pe_read env (path_join [root, DirName, ConfigName]) = NotExist"
    and "FindCaptureRoot env workspace = Some root"
  shows "\<exists>t. ResolveCaptureTarget env workspace = Some t \<and> ct_root t = root \<and> ct_public_port t = 4000 \<and>
    ct_dev_command t = [''npm'', ''run'', ''dev''] \<and>
    cf_app_port (PrepareConfig env root (fst (LoadConfig env (path_join [root, DirName, ConfigName])))) = 4000"
proof -
  have cfg: "LoadConfig env (path_join [root, DirName, ConfigName]) = (DefaultConfig, None)"
    by (simp add: LoadConfig_def assms(1))
  have d: "cf_app_port DefaultConfig = 4000" "cf_dev_command DefaultConfig = ''npm run dev''"
    "cf_inspect_port DefaultConfig = 9229" by (simp_all add: DefaultConfig_def)
  have "Go_Strings.fields ''npm run dev'' = [''npm'', ''run'', ''dev'']"
    using fields_join_plain [of "[''npm'', ''run'', ''dev'']"] by (simp add: plain_char_def)
  then have "ParseDevCommand ''npm run dev'' = [''npm'', ''run'', ''dev'']"
    by (simp add: ParseDevCommand_def trim_space_plain plain_char_def)
  then show ?thesis
    by (simp add: ResolveCaptureTarget_def assms(2) cfg d PrepareConfig_def Let_def)
qed

lemma detected_port_is_ignored_witness:
  "\<exists>t. ResolveCaptureTarget empty_env ''/w'' = Some t \<and> ct_public_port t = 4000"
  using detected_port_is_ignored [OF _ empty_env_root, of "''/w''"] by (auto simp: empty_env_def)

text \<open>The ignore file is edited once: after a successful call it names the state directory,
  its previous text is a prefix of the new one, and a second call changes nothing.\<close>

theorem gitignore_idempotent:
  assumes "ensureGitignore root env = (None, env')"
  shows "\<exists>data. pe_read env' (path_join [root, ''.gitignore'']) = Contents data \<and>
    (contains data (DirName @ ''/'') \<or> contains data (DirName @ [CHR 0x5C])) \<and>
    (\<forall>d. pe_read env (path_join [root, ''.gitignore'']) = Contents d \<longrightarrow> prefix d data) \<and>
    ensureGitignore root env' = (None, env')"
proof -
  let ?path = "path_join [root, ''.gitignore'']"
  let ?hit = "\<lambda>data. contains data (DirName @ ''/'') \<or> contains data (DirName @ [CHR 0x5C])"
  have again: "ensureGitignore root e = (None, e)" if "pe_read e ?path = Contents data" "?hit data"
    for e :: "'a proj_env" and data
    using that by (simp add: ensureGitignore_def Let_def)
  define content where "content = (case pe_read env ?path of Contents data \<Rightarrow> data | _ \<Rightarrow> [])"
  show ?thesis
  proof (cases "?hit content")
    case True
    moreover have "\<not> ?hit []" by (auto simp: contains_def DirName_def)
    ultimately have c: "pe_read env ?path = Contents content"
      by (auto simp: content_def split: file_read.splits)
    then have "env' = env" using assms True by (simp add: ensureGitignore_def Let_def)
    with c True again [OF c True] show ?thesis by simp
  next
    case False
    define line where "line = (if 0 < length content \<and> \<not> has_suffix content [LF] then [LF] @ DirName @ ''/'' @ [LF]
      else DirName @ ''/'' @ [LF])"
    have "write_file ?path (content @ line) env = (None, env')"
      using assms False unfolding line_def
      by (cases "pe_read env ?path") (auto simp: ensureGitignore_def Let_def content_def split: if_splits)
    then have env': "env' = env\<lparr>pe_read := (pe_read env)(?path := Contents (content @ line))\<rparr>"
      by (auto simp: write_file_def split: option.splits)
    then have c: "pe_read env' ?path = Contents (content @ line)" by simp
    have "line = (if 0 < length content \<and> \<not> has_suffix content [LF] then [LF] else []) @ (DirName @ ''/'') @ [LF]"
      by (simp add: line_def)
    then have "sublist (DirName @ ''/'') line" unfolding sublist_def by blast
    then have "?hit (content @ line)" by (simp add: contains_iff sublist_append)
    with c again [OF c] show ?thesis by (auto simp: content_def split: file_read.splits)
  qed
qed

lemma gitignore_idempotent_witness:
  "ensureGitignore ''r'' (snd (ensureGitignore ''r'' empty_env)) = (None, snd (ensureGitignore ''r'' empty_env))"
proof -
  have "ensureGitignore ''r'' empty_env = (None, snd (ensureGitignore ''r'' empty_env))"
    by (simp add: ensureGitignore_def empty_env_def write_file_def contains_def DirName_def)
  from gitignore_idempotent [OF this] show ?thesis by blast
qed

end
