(* ===== verification/Replay_Proxy.thy ===== *)
theory Replay_Proxy
  imports IO_Event Go_Unicode
begin

text \<open>
  The replay proxies (dre-replay-cli/internal/proxy): they answer the requests of the program
  under debug with the responses recorded in a snapshot.  \<open>server\<close> is the single-address proxy,
  \<open>multi\<close> the one that follows the debugger's cursor and serves each response once.  The outer
  option of a handler is the absence of a panic.
\<close>

section \<open>Keys of a request\<close>

definition firstLine :: "bytes \<Rightarrow> bytes" where
  "firstLine payload =
     (let p = trim_space payload in
      if length p = 0 then []
      else (case index_of p [LF] of Some idx \<Rightarrow> trim_space (take idx p) | None \<Rightarrow> trim_space p))"

definition MatchGRPCUnary :: "bytes \<Rightarrow> (bytes \<times> bytes) option" where
  "MatchGRPCUnary request =
     (let line = firstLine request in
      if line = [] then None
      else let parts = Go_Strings.fields line in
        if length parts < 2 \<or> parts ! 0 \<noteq> ''POST'' then None
        else let path = trim_prefix (parts ! 1) ''/'' in
          (case last_index path ''/'' of
             None \<Rightarrow> None
           | Some idx \<Rightarrow> if idx = 0 then None else Some (take idx path, drop (idx + 1) path)))"

definition grpcRequestKey :: "bytes \<Rightarrow> bytes" where
  "grpcRequestKey request =
     (case MatchGRPCUnary request of None \<Rightarrow> [] | Some (svc, meth) \<Rightarrow> ''GRPC '' @ svc @ ''/'' @ meth)"

definition httpRequestKey :: "unicode \<Rightarrow> bytes \<Rightarrow> bytes" where
  "httpRequestKey u payload =
     (let line = firstLine payload in
      if line = [] then []
      else let parts = Go_Strings.fields line in
        if length parts < 2 then []
        else let meth = to_upper u (parts ! 0);
                 path = parts ! 1;
                 path' = (case index_of path ''?'' of Some idx \<Rightarrow> take idx path | None \<Rightarrow> path)
             in meth @ '' '' @ path')"

definition requestKey :: "unicode \<Rightarrow> bytes \<Rightarrow> bytes" where
  "requestKey u payload =
     (let k = grpcRequestKey payload in if k \<noteq> [] then k else httpRequestKey u payload)"

text \<open>\<^verbatim>\<open>httpHost\<close> searches the lower-cased payload but slices the original: the offset is
  wrong, and may be past the end, when lower-casing changed the length.\<close>

definition httpHost :: "unicode \<Rightarrow> bytes \<Rightarrow> bytes option" where
  "httpHost u payload =
     (case index_of (to_lower u payload) ''host:'' of
        None \<Rightarrow> Some []
      | Some idx \<Rightarrow> do {
          rest \<leftarrow> slice_from (idx + 5) payload;
          let e = (case index_of rest crlf of Some e \<Rightarrow> e | None \<Rightarrow> length rest);
          Some (trim_space (take e rest))
        })"

definition isHTTPKeepAlive :: "unicode \<Rightarrow> bytes \<Rightarrow> bool" where
  "isHTTPKeepAlive u request = contains (to_lower u request) ''connection: keep-alive''"

section \<open>The search loops\<close>

text \<open>A recorded response: a non-empty write that has not been served.\<close>

definition servable :: "int set \<Rightarrow> nat \<Rightarrow> ioevent \<Rightarrow> bool" where
  "servable used j w = (IsWrite w = 1 \<and> 0 < PayloadLen w \<and> int j \<notin> used)"

fun response_from :: "int set \<Rightarrow> nat \<Rightarrow> ioevent list \<Rightarrow> (nat \<times> ioevent) option" where
  "response_from used j [] = None"
| "response_from used j (w # ws) =
     (if servable used j w then Some (j, w) else response_from used (Suc j) ws)"

text \<open>Whether the read \<open>evt\<close> has the key and a compatible host; the host of the recorded
  request is computed up to twice.\<close>

definition request_matches :: "unicode \<Rightarrow> bytes \<Rightarrow> bytes \<Rightarrow> ioevent \<Rightarrow> bool option" where
  "request_matches u reqKey reqHost evt = do {
     payload \<leftarrow> payload_slice evt;
     if requestKey u payload \<noteq> reqKey then Some False
     else if reqHost = [] then Some True
     else do {
       host \<leftarrow> httpHost u payload;
       Some (\<not> (host \<noteq> [] \<and> host \<noteq> reqHost))
     }
   }"

text \<open>The nested loops over the events from index \<open>i\<close> on.\<close>

fun match_from ::
  "unicode \<Rightarrow> bytes \<Rightarrow> bytes \<Rightarrow> int set \<Rightarrow> nat \<Rightarrow> ioevent list \<Rightarrow> (nat \<times> bytes) option option" where
  "match_from u reqKey reqHost used i [] = Some None"
| "match_from u reqKey reqHost used i (evt # evts) =
     (if int i \<in> used \<or> IsWrite evt \<noteq> 0 then match_from u reqKey reqHost used (Suc i) evts
      else do {
        ok \<leftarrow> request_matches u reqKey reqHost evt;
        if \<not> ok then match_from u reqKey reqHost used (Suc i) evts
        else (case response_from used (Suc i) evts of
            None \<Rightarrow> match_from u reqKey reqHost used (Suc i) evts
          | Some (j, w) \<Rightarrow> do { out \<leftarrow> payload_slice w; Some (Some (j, out)) })
      })"

definition fallback_from :: "int set \<Rightarrow> nat \<Rightarrow> ioevent list \<Rightarrow> (nat \<times> bytes) option option" where
  "fallback_from used i evts =
     (case response_from used i evts of
        None \<Rightarrow> Some None
      | Some (j, w) \<Rightarrow> do { out \<leftarrow> payload_slice w; Some (Some (j, out)) })"

section \<open>The single-address proxy\<close>

record server =
  srv_addr :: bytes
  srv_events :: "ioevent list"
  srv_seq :: nat

definition proxy_New :: "bytes \<Rightarrow> ioevent list \<Rightarrow> server" where
  "proxy_New addr events = \<lparr>srv_addr = addr, srv_events = events, srv_seq = 0\<rparr>"

definition fallbackSequential :: "server \<Rightarrow> (bytes option \<times> server) option" where
  "fallbackSequential s = do {
     found \<leftarrow> fallback_from {} (srv_seq s) (drop (srv_seq s) (srv_events s));
     Some (case found of None \<Rightarrow> (None, s) | Some (j, out) \<Rightarrow> (Some out, s\<lparr>srv_seq := j + 1\<rparr>))
   }"

definition server_matchResponse :: "unicode \<Rightarrow> bytes \<Rightarrow> server \<Rightarrow> (bytes option \<times> server) option" where
  "server_matchResponse u request s =
     (let reqKey = requestKey u request in
      if reqKey = [] then fallbackSequential s
      else do {
        reqHost \<leftarrow> httpHost u request;
        found \<leftarrow> match_from u reqKey reqHost {} 0 (srv_events s);
        Some (map_option snd found, s)
      })"

text \<open>A connection: the chunks that \<^verbatim>\<open>conn.Read\<close> returns, each answered until there is no
  match or the request does not ask to keep the connection.\<close>

fun serve_conn ::
  "unicode \<Rightarrow> (bytes \<Rightarrow> 's \<Rightarrow> (bytes option \<times> 's) option) \<Rightarrow> bytes list \<Rightarrow> 's \<Rightarrow> (bytes list \<times> 's) option" where
  "serve_conn u respond [] s = Some ([], s)"
| "serve_conn u respond (request # chunks) s =
     (if length request = 0 then Some ([], s)
      else do {
        (resp, s') \<leftarrow> respond request s;
        (case resp of
           None \<Rightarrow> Some ([], s')
         | Some out \<Rightarrow>
             if \<not> isHTTPKeepAlive u request then Some ([out], s')
             else do { (outs, s'') \<leftarrow> serve_conn u respond chunks s'; Some (out # outs, s'') })
      })"

definition server_handle :: "unicode \<Rightarrow> bytes list \<Rightarrow> server \<Rightarrow> (bytes list \<times> server) option" where
  "server_handle u = serve_conn u (server_matchResponse u)"

section \<open>The cursor-following proxy\<close>

record service_rule =
  rule_name :: bytes
  rule_local_port :: int
  rule_remote_host :: bytes
  rule_protocol :: bytes

record multi =
  mu_default_addr :: bytes
  mu_services :: "service_rule list"
  mu_events :: "ioevent list"
  mu_cursor :: int
  mu_consumed :: "int set"
  mu_listeners :: "(bytes \<times> bytes) list"

definition NewMulti :: "bytes \<Rightarrow> service_rule list \<Rightarrow> ioevent list \<Rightarrow> multi" where
  "NewMulti defaultAddr services events =
     \<lparr>mu_default_addr = defaultAddr, mu_services = services, mu_events = events, mu_cursor = 0,
      mu_consumed = {}, mu_listeners = []\<rparr>"

definition SetCursor :: "int \<Rightarrow> multi \<Rightarrow> multi" where
  "SetCursor index m =
     m\<lparr>mu_consumed := (if index < mu_cursor m then mu_consumed m - {index..<int (length (mu_events m))}
                        else mu_consumed m),
       mu_cursor := index\<rparr>"

text \<open>\<^verbatim>\<open>Start\<close>: \<open>listen\<close> gives the address that is bound, if it can be.  A listener is its bound
  address and the host it filters for.\<close>

datatype start_error = ListenFailed bytes | NoListeners

definition multi_listen :: "(bytes \<Rightarrow> bytes option) \<Rightarrow> bytes \<Rightarrow> bytes \<Rightarrow> multi \<Rightarrow> start_error option \<times> multi" where
  "multi_listen listen addr hostFilter m =
     (case listen addr of
        Some ln \<Rightarrow> (None, m\<lparr>mu_listeners := mu_listeners m @ [(ln, hostFilter)]\<rparr>)
      | None \<Rightarrow> (Some (ListenFailed addr), m))"

fun listen_services :: "(bytes \<Rightarrow> bytes option) \<Rightarrow> service_rule list \<Rightarrow> multi \<Rightarrow> start_error option \<times> multi" where
  "listen_services listen [] m = (None, m)"
| "listen_services listen (svc # svcs) m =
     (let addr = ''127.0.0.1:'' @ itoa_int (rule_local_port svc) in
      case multi_listen listen addr (rule_remote_host svc) m of
        (Some err, m') \<Rightarrow> (Some err, m')
      | (None, m') \<Rightarrow> listen_services listen svcs m')"

definition multi_Start :: "(bytes \<Rightarrow> bytes option) \<Rightarrow> multi \<Rightarrow> start_error option \<times> multi" where
  "multi_Start listen m =
     (case (if mu_default_addr m \<noteq> [] then multi_listen listen (mu_default_addr m) [] m else (None, m)) of
        (Some err, m1) \<Rightarrow> (Some err, m1)
      | (None, m1) \<Rightarrow>
          (case listen_services listen (mu_services m1) m1 of
             (Some err, m2) \<Rightarrow> (Some err, m2)
           | (None, m2) \<Rightarrow> (if length (mu_listeners m2) = 0 then Some NoListeners else None, m2)))"

definition multi_Addrs :: "multi \<Rightarrow> bytes list" where
  "multi_Addrs m = map fst (mu_listeners m)"

definition multi_Stop :: "multi \<Rightarrow> bytes list" where
  "multi_Stop m = map fst (mu_listeners m)"

definition hostFilterOrAny :: "bytes \<Rightarrow> bytes" where
  "hostFilterOrAny h = (if h = [] then ''*'' else h)"

definition host_refused :: "unicode \<Rightarrow> bytes \<Rightarrow> bytes \<Rightarrow> bool" where
  "host_refused u reqHost hostFilter =
     (hostFilter \<noteq> [] \<and>
      (let filterHost = split hostFilter '':'' ! 0 in
       reqHost \<noteq> [] \<and> \<not> equal_fold u reqHost filterHost \<and> \<not> has_prefix reqHost filterHost))"

text \<open>A negative cursor makes the loops index the events out of range: only indices of events
  are ever marked as consumed, so no negative index is skipped.\<close>

definition multi_matchResponse ::
  "unicode \<Rightarrow> bytes \<Rightarrow> int option \<Rightarrow> bytes \<Rightarrow> multi \<Rightarrow> (bytes option \<times> multi) option" where
  "multi_matchResponse u hostFilter cursorFn request m0 =
     (let m = (case cursorFn of None \<Rightarrow> m0 | Some index \<Rightarrow> SetCursor index m0);
          reqKey = requestKey u request
      in do {
        reqHost \<leftarrow> httpHost u request;
        if host_refused u reqHost hostFilter then Some (None, m)
        else if mu_cursor m < 0 then None
        else do {
          let minIdx = nat (mu_cursor m);
          found \<leftarrow> (if reqKey = [] then fallback_from (mu_consumed m) minIdx (drop minIdx (mu_events m))
                     else match_from u reqKey reqHost (mu_consumed m) minIdx (drop minIdx (mu_events m)));
          Some (case found of
              None \<Rightarrow> (None, m)
            | Some (j, out) \<Rightarrow> (Some out, m\<lparr>mu_consumed := insert (int j) (mu_consumed m)\<rparr>))
        }
      })"

section \<open>What the loops find\<close>

definition candidate :: "unicode \<Rightarrow> bytes \<Rightarrow> bytes \<Rightarrow> int set \<Rightarrow> ioevent list \<Rightarrow> nat \<Rightarrow> bool" where
  "candidate u key host used events i =
     (i < length events \<and> int i \<notin> used \<and> IsWrite (events ! i) = 0 \<and>
      request_matches u key host (events ! i) = Some True)"

definition reply_at :: "int set \<Rightarrow> ioevent list \<Rightarrow> nat \<Rightarrow> bool" where
  "reply_at used events j = (j < length events \<and> servable used j (events ! j))"

lemma response_from_Some:
  "response_from used j (drop j events) = Some (k, w) \<Longrightarrow>
   j \<le> k \<and> reply_at used events k \<and> w = events ! k \<and> (\<forall>l. j \<le> l \<and> l < k \<longrightarrow> \<not> reply_at used events l)"
proof (induction "length events - j" arbitrary: j)
  case 0
  then show ?case by simp
next
  case (Suc n)
  then have j: "j < length events" by simp
  then have d: "drop j events = events ! j # drop (Suc j) events" by (simp add: Cons_nth_drop_Suc)
  show ?case
  proof (cases "servable used j (events ! j)")
    case True
    with Suc.prems j show ?thesis by (auto simp: d reply_at_def)
  next
    case False
    then have "response_from used (Suc j) (drop (Suc j) events) = Some (k, w)" using Suc.prems by (simp add: d)
    with Suc.hyps(1) [of "Suc j"] Suc.hyps(2) have "Suc j \<le> k \<and> reply_at used events k \<and> w = events ! k \<and>
        (\<forall>l. Suc j \<le> l \<and> l < k \<longrightarrow> \<not> reply_at used events l)" by simp
    moreover have "\<not> reply_at used events j" using False by (simp add: reply_at_def)
    ultimately show ?thesis by (metis Suc_leD le_antisym not_less_eq_eq)
  qed
qed

lemma response_from_None:
  "response_from used j (drop j events) = None \<Longrightarrow> j \<le> l \<Longrightarrow> \<not> reply_at used events l"
proof (induction "length events - j" arbitrary: j)
  case 0
  then show ?case by (simp add: reply_at_def)
next
  case (Suc n)
  then have j: "j < length events" by simp
  then have d: "drop j events = events ! j # drop (Suc j) events" by (simp add: Cons_nth_drop_Suc)
  have not: "\<not> servable used j (events ! j)" "response_from used (Suc j) (drop (Suc j) events) = None"
    using Suc.prems(1) by (auto simp: d split: if_splits)
  show ?case
  proof (cases "j = l")
    case True
    with not show ?thesis by (simp add: reply_at_def)
  next
    case False
    with Suc not show ?thesis by (intro Suc.hyps(1) [of "Suc j"]) auto
  qed
qed

text \<open>\<open>served_pair c i j\<close>: \<open>i\<close> is the first candidate from \<open>c\<close> on, \<open>j\<close> the first reply after it.\<close>

definition served_pair ::
  "unicode \<Rightarrow> bytes \<Rightarrow> bytes \<Rightarrow> int set \<Rightarrow> ioevent list \<Rightarrow> nat \<Rightarrow> nat \<Rightarrow> nat \<Rightarrow> bool" where
  "served_pair u key host used events c i j =
     (c \<le> i \<and> candidate u key host used events i \<and>
      (\<forall>i'. c \<le> i' \<and> i' < i \<longrightarrow> \<not> candidate u key host used events i') \<and>
      i < j \<and> reply_at used events j \<and> (\<forall>j'. i < j' \<and> j' < j \<longrightarrow> \<not> reply_at used events j'))"

lemma served_pair_unique:
  "served_pair u key host used events c i j \<Longrightarrow> served_pair u key host used events c i' j' \<Longrightarrow> i = i' \<and> j = j'"
  unfolding served_pair_def by (metis linorder_neqE_nat)

definition events_safe :: "unicode \<Rightarrow> ioevent list \<Rightarrow> bool" where
  "events_safe u events =
     list_all (\<lambda>e. wf_event e \<and> pl_ok e \<and> httpHost u (payload_of e) \<noteq> None) events"

lemma request_matches_total:
  "events_safe u events \<Longrightarrow> i < length events \<Longrightarrow> request_matches u key host (events ! i) \<noteq> None"
  by (auto simp: events_safe_def list_all_length request_matches_def payload_slice_Some
      split: Option.bind_split)

lemma match_from_spec:
  assumes safe: "events_safe u events"
  shows "\<exists>r. match_from u key host used c (drop c events) = Some r \<and>
    (case r of
       None \<Rightarrow> \<forall>i j. c \<le> i \<and> candidate u key host used events i \<and> i < j \<longrightarrow> \<not> reply_at used events j
     | Some (j, out) \<Rightarrow> (\<exists>i. served_pair u key host used events c i j) \<and> out = payload_of (events ! j))"
proof (induction "length events - c" arbitrary: c)
  case 0
  then show ?case by (auto simp: candidate_def)
next
  case (Suc n)
  then have c: "c < length events" by simp
  then have d: "drop c events = events ! c # drop (Suc c) events" by (simp add: Cons_nth_drop_Suc)
  obtain r where r: "match_from u key host used (Suc c) (drop (Suc c) events) = Some r"
    and spec: "case r of
       None \<Rightarrow> \<forall>i j. Suc c \<le> i \<and> candidate u key host used events i \<and> i < j \<longrightarrow> \<not> reply_at used events j
     | Some (j, out) \<Rightarrow> (\<exists>i. served_pair u key host used events (Suc c) i j) \<and> out = payload_of (events ! j)"
  proof -
    have "n = length events - Suc c" using Suc.hyps(2) by simp
    from Suc.hyps(1) [OF this] show ?thesis using that by blast
  qed
  show ?case
  proof (cases "candidate u key host used events c")
    case False
    have "match_from u key host used c (drop c events) = Some r"
    proof (cases "int c \<in> used \<or> IsWrite (events ! c) \<noteq> 0")
      case True
      then show ?thesis using r by (simp add: d)
    next
      case active: False
      then obtain b where "request_matches u key host (events ! c) = Some b"
        using request_matches_total [OF safe c] by blast
      moreover from this active False c have "\<not> b" by (auto simp: candidate_def)
      ultimately show ?thesis using active r by (simp add: d)
    qed
    moreover have "\<And>i. c \<le> i \<and> candidate u key host used events i \<longleftrightarrow> Suc c \<le> i \<and> candidate u key host used events i"
      using False by (metis Suc_leD le_antisym not_less_eq_eq)
    moreover from this have "served_pair u key host used events (Suc c) i j \<longrightarrow> served_pair u key host used events c i j" for i j
      unfolding served_pair_def by (metis less_eq_Suc_le order_less_le_trans)
    ultimately show ?thesis using spec by (cases r) (simp_all split: prod.splits, blast+)
  next
    case True
    then have act: "\<not> (int c \<in> used \<or> IsWrite (events ! c) \<noteq> 0)"
      "request_matches u key host (events ! c) = Some True" by (auto simp: candidate_def)
    show ?thesis
    proof (cases "response_from used (Suc c) (drop (Suc c) events)")
      case None
      then have none: "\<And>j. c < j \<Longrightarrow> \<not> reply_at used events j"
        using response_from_None by (metis Suc_leI)
      then have "r = None" using spec by (auto simp: served_pair_def split: option.splits)
      with None act r have "match_from u key host used c (drop c events) = Some None" by (simp add: d)
      moreover have "\<forall>i j. c \<le> i \<and> candidate u key host used events i \<and> i < j \<longrightarrow> \<not> reply_at used events j"
        using none by (meson order_le_less_trans)
      ultimately show ?thesis by simp
    next
      case (Some jw)
      obtain j w where jw: "jw = (j, w)" by (cases jw)
      from response_from_Some [OF Some [unfolded jw]] have
        j: "Suc c \<le> j" "reply_at used events j" "w = events ! j"
        "\<forall>l. Suc c \<le> l \<and> l < j \<longrightarrow> \<not> reply_at used events l" by auto
      then have pair: "served_pair u key host used events c c j"
        using True by (auto simp: served_pair_def)
      have "wf_event w" "pl_ok w" using j safe by (auto simp: events_safe_def list_all_length reply_at_def)
      then have "match_from u key host used c (drop c events) = Some (Some (j, payload_of w))"
        using Some act by (simp add: d jw payload_slice_Some)
      with pair j(3) show ?thesis by auto
    qed
  qed
qed

lemma fallback_from_spec:
  assumes safe: "events_safe u events"
  shows "\<exists>r. fallback_from used c (drop c events) = Some r \<and>
    (case r of
       None \<Rightarrow> \<forall>j. c \<le> j \<longrightarrow> \<not> reply_at used events j
     | Some (j, out) \<Rightarrow> c \<le> j \<and> reply_at used events j \<and>
         (\<forall>l. c \<le> l \<and> l < j \<longrightarrow> \<not> reply_at used events l) \<and> out = payload_of (events ! j))"
proof (cases "response_from used c (drop c events)")
  case None
  then show ?thesis using response_from_None [OF None] by (simp add: fallback_from_def)
next
  case (Some jw)
  obtain j w where jw: "jw = (j, w)" by (cases jw)
  note found = response_from_Some [OF Some [unfolded jw]]
  then have "wf_event w" "pl_ok w" using safe by (auto simp: events_safe_def list_all_length reply_at_def)
  then have "fallback_from used c (drop c events) = Some (Some (j, payload_of w))"
    using Some by (simp add: fallback_from_def jw payload_slice_Some)
  with found show ?thesis by auto
qed

lemma httpHost_ascii: "ascii s \<Longrightarrow> httpHost u s \<noteq> None"
proof -
  assume "ascii s"
  then have "idx + 5 \<le> length s" if "index_of (to_lower u s) ''host:'' = Some idx" for idx
    using index_of_bound [OF that] by (simp add: length_to_lower_ascii)
  then show ?thesis by (auto simp: httpHost_def Let_def split: option.split)
qed

text \<open>What one answer of the cursor-following proxy does to its state.\<close>

lemma multi_answer:
  assumes "events_safe u (mu_events m)" "httpHost u request \<noteq> None" "0 \<le> mu_cursor m"
  shows "\<exists>resp m'. multi_matchResponse u hf None request m = Some (resp, m') \<and>
    mu_events m' = mu_events m \<and> mu_cursor m' = mu_cursor m \<and>
    (case resp of
       None \<Rightarrow> m' = m
     | Some out \<Rightarrow> \<exists>j. mu_cursor m \<le> int j \<and> reply_at (mu_consumed m) (mu_events m) j \<and>
         out = payload_of (mu_events m ! j) \<and> mu_consumed m' = insert (int j) (mu_consumed m))"
proof -
  obtain host where host: "httpHost u request = Some host" using assms(2) by blast
  let ?c = "nat (mu_cursor m)" and ?key = "requestKey u request"
  show ?thesis
  proof (cases "host_refused u host hf")
    case True
    then show ?thesis using host by (simp add: multi_matchResponse_def)
  next
    case False
    have lo: "mu_cursor m \<le> int j" if "?c \<le> j" for j using that by simp
    define found where "found = (if ?key = [] then fallback_from (mu_consumed m) ?c (drop ?c (mu_events m))
        else match_from u ?key host (mu_consumed m) ?c (drop ?c (mu_events m)))"
    have "\<exists>r. found = Some r \<and> (\<forall>j out. r = Some (j, out) \<longrightarrow> ?c \<le> j \<and>
        reply_at (mu_consumed m) (mu_events m) j \<and> out = payload_of (mu_events m ! j))"
    proof (cases "?key = []")
      case True
      then show ?thesis
        using fallback_from_spec [OF assms(1), of "mu_consumed m" ?c]
        by (auto simp: found_def split: option.splits)
    next
      case False
      then show ?thesis
        using match_from_spec [OF assms(1), of ?key host "mu_consumed m" ?c]
        by (auto simp: found_def served_pair_def split: option.splits)
    qed
    then obtain r where r: "found = Some r" and j: "\<And>j out. r = Some (j, out) \<Longrightarrow> ?c \<le> j \<and>
        reply_at (mu_consumed m) (mu_events m) j \<and> out = payload_of (mu_events m ! j)" by blast
    have "multi_matchResponse u hf None request m = Some (case r of None \<Rightarrow> (None, m)
        | Some (j, out) \<Rightarrow> (Some out, m\<lparr>mu_consumed := insert (int j) (mu_consumed m)\<rparr>))"
      using r host False assms(3) unfolding found_def by (simp add: multi_matchResponse_def Let_def)
    then show ?thesis using j lo by (cases r) fastforce+
  qed
qed

section \<open>Runs of the cursor-following proxy\<close>

text \<open>A run with the log of the served responses, by index and text.  Moving the cursor back
  makes the responses from there on available again, and the log forgets them.\<close>

definition rewound :: "int \<Rightarrow> multi \<Rightarrow> (nat \<times> bytes) list \<Rightarrow> (nat \<times> bytes) list" where
  "rewound c m log = (if c < mu_cursor m then filter (\<lambda>(j, _). int j < c) log else log)"

inductive replay :: "unicode \<Rightarrow> multi \<Rightarrow> (nat \<times> bytes) list \<Rightarrow> multi \<Rightarrow> bool" for u m0 where
  replay_start: "replay u m0 [] m0"
| replay_cursor: "replay u m0 log m \<Longrightarrow> replay u m0 (rewound c m log) (SetCursor c m)"
| replay_miss: "replay u m0 log m \<Longrightarrow> multi_matchResponse u hf None req m = Some (None, m') \<Longrightarrow>
    replay u m0 log m'"
| replay_hit: "replay u m0 log m \<Longrightarrow> multi_matchResponse u hf None req m = Some (Some out, m') \<Longrightarrow>
    mu_consumed m' = insert (int j) (mu_consumed m) \<Longrightarrow> replay u m0 (log @ [(j, out)]) m'"

inductive_cases replay_nonempty: "replay u m0 (log @ [x]) m"

lemma multi_matchResponse_cursorFn:
  "multi_matchResponse u hf (Some c) req m = multi_matchResponse u hf None req (SetCursor c m)"
  by (simp add: multi_matchResponse_def)

lemma multi_matchResponse_Some:
  assumes "events_safe u (mu_events m)" "multi_matchResponse u hf None req m = Some (resp, m')"
  shows "mu_events m' = mu_events m \<and> mu_cursor m' = mu_cursor m \<and>
    (case resp of
       None \<Rightarrow> m' = m
     | Some out \<Rightarrow> \<exists>j. mu_cursor m \<le> int j \<and> reply_at (mu_consumed m) (mu_events m) j \<and>
         out = payload_of (mu_events m ! j) \<and> mu_consumed m' = insert (int j) (mu_consumed m))"
proof -
  have host: "httpHost u req \<noteq> None"
    using assms(2) by (cases "httpHost u req") (simp_all add: multi_matchResponse_def Let_def)
  show ?thesis
  proof (cases "0 \<le> mu_cursor m")
    case True
    from multi_answer [OF assms(1) host this, of hf] assms(2) show ?thesis by auto
  next
    case False
    then have "resp = None \<and> m' = m"
      using assms(2) host by (auto simp: multi_matchResponse_def Let_def split: if_splits)
    then show ?thesis by simp
  qed
qed

definition log_ok :: "ioevent list \<Rightarrow> (nat \<times> bytes) list \<Rightarrow> bool" where
  "log_ok events log =
     (distinct (map fst log) \<and>
      (\<forall>(j, out) \<in> set log. j < length events \<and> IsWrite (events ! j) = 1 \<and> 0 < PayloadLen (events ! j) \<and>
         out = payload_of (events ! j)))"

lemma replay_invariant:
  assumes "replay u (NewMulti addr svcs events) log m" "events_safe u events"
  shows "mu_events m = events \<and> mu_consumed m = int ` fst ` set log \<and> log_ok events log"
  using assms(1)
proof (induction rule: replay.induct)
  case replay_start
  then show ?case by (simp add: NewMulti_def log_ok_def)
next
  case (replay_cursor log m c)
  let ?keep = "filter (\<lambda>(j, _). int j < c) log"
  have in_range: "j < length events" if "(j, out) \<in> set log" for j out
    using replay_cursor.IH that by (auto simp: log_ok_def)
  have "int ` fst ` set ?keep = int ` fst ` set log - {c..<int (length events)}"
    using in_range by (force simp: image_iff)
  moreover have "log_ok events ?keep"
    using replay_cursor.IH by (auto simp: log_ok_def distinct_map_filter)
  ultimately show ?case
    using replay_cursor.IH by (simp add: SetCursor_def rewound_def)
next
  case (replay_miss log m hf req m')
  then show ?case using multi_matchResponse_Some [of u m hf req None m'] assms(2) by simp
next
  case (replay_hit log m hf req out m' j)
  then obtain k where k: "reply_at (mu_consumed m) events k" "out = payload_of (events ! k)"
    "mu_consumed m' = insert (int k) (mu_consumed m)" "mu_events m' = events"
    using multi_matchResponse_Some [of u m hf req "Some out" m'] assms(2) by auto
  then have "int k \<notin> mu_consumed m" by (simp add: reply_at_def servable_def)
  then have "j = k" using k(3) replay_hit.hyps(3) by auto
  with k replay_hit.IH show ?case
    by (auto simp: log_ok_def reply_at_def servable_def image_iff)
qed

text \<open>A request without headers.\<close>

lemma get_request: "httpHost u ''GET /'' = Some []" "requestKey u ''GET /'' = ''GET /''"
proof -
  have ascii: "ascii ''GET /''" "ascii ''GET''" by (simp_all add: byte_of_def)
  have line: "firstLine ''GET /'' = ''GET /''"
    by (simp add: firstLine_def trim_space_plain plain_char_def)
  show "httpHost u ''GET /'' = Some []"
    unfolding httpHost_def to_lower_ascii [OF ascii(1)]
    by (simp add: lower_char_def ascii_lower_def byte_of_def)
  have "Go_Strings.fields ''GET /'' = [''GET'', ''/'']"
    using fields_join_plain [of "[''GET'', ''/'']"] by (simp add: plain_char_def)
  moreover have "to_upper u ''GET'' = ''GET''"
    unfolding to_upper_ascii [OF ascii(2)] by (simp add: upper_char_def ascii_upper_def byte_of_def)
  ultimately show "requestKey u ''GET /'' = ''GET /''"
    by (simp add: requestKey_def grpcRequestKey_def MatchGRPCUnary_def httpRequestKey_def line Let_def)
qed

text \<open>A recorded exchange of that request.\<close>

definition small_event :: "u8 \<Rightarrow> bytes \<Rightarrow> ioevent" where
  "small_event w p = zero_event\<lparr>IsWrite := w, PayloadLen := of_nat (length p), Payload := go_copy (Payload zero_event) p\<rparr>"

lemma small_event_facts:
  assumes "length p \<le> 2048"
  shows "wf_event (small_event w p)" "pl_ok (small_event w p)" "payload_of (small_event w p) = p"
    and "IsWrite (small_event w p) = w" "PayloadLen (small_event w p) = of_nat (length p)"
proof -
  have len: "unat (of_nat (length p) :: u32) = length p"
    using assms by (simp add: unat_of_nat take_bit_nat_eq_self)
  show "wf_event (small_event w p)" "pl_ok (small_event w p)" "payload_of (small_event w p) = p"
    using assms by (simp_all add: small_event_def wf_event_def pl_ok_def zero_event_def size_defs len go_copy_def)
  show "IsWrite (small_event w p) = w" "PayloadLen (small_event w p) = of_nat (length p)"
    by (simp_all add: small_event_def)
qed

definition demo_exchange :: "ioevent list" where
  "demo_exchange = [small_event 0 ''GET /'', small_event 1 ''OK'']"

lemma demo_exchange_safe: "events_safe u demo_exchange"
proof -
  have "httpHost u ''OK'' \<noteq> None" using httpHost_ascii [of "''OK''" u] by (simp add: byte_of_def)
  then show ?thesis
    by (simp add: demo_exchange_def events_safe_def small_event_facts(1-4) get_request)
qed

lemma demo_exchange_pair:
  "served_pair u ''GET /'' [] {} demo_exchange 0 0 1"
proof -
  have "servable {} 1 (small_event 1 ''OK'')" by (simp add: servable_def small_event_def)
  then show ?thesis
    by (simp add: served_pair_def candidate_def reply_at_def demo_exchange_def small_event_facts(1-4)
        request_matches_def payload_slice_Some get_request)
qed

lemma demo_exchange_answer:
  "multi_matchResponse u [] None ''GET /'' (NewMulti [] [] demo_exchange) =
     Some (Some ''OK'', (NewMulti [] [] demo_exchange)\<lparr>mu_consumed := {1}\<rparr>)"
proof -
  have "servable {} 1 (small_event 1 ''OK'')" by (simp add: servable_def small_event_def)
  then show ?thesis
    by (simp add: multi_matchResponse_def Let_def get_request host_refused_def NewMulti_def demo_exchange_def
        small_event_facts(1-4) request_matches_def payload_slice_Some)
qed

section \<open>Properties\<close>



text \<open>C16: Which response answers a request.  For a request with a key that no host filter
  refuses, the answer is the first unserved response after the first recorded read, from the
  cursor on, that has the same key and no conflicting host; there is no answer exactly when
  that read, or a response after it, is missing.\<close>

theorem answer_is_first_response_after_first_match:
  assumes "events_safe u (mu_events m)" "httpHost u request = Some host" "0 \<le> mu_cursor m"
    and "requestKey u request \<noteq> []" "\<not> host_refused u host hf"
  shows "\<exists>resp m'. multi_matchResponse u hf None request m = Some (resp, m') \<and>
    (\<forall>out. resp = Some out \<longleftrightarrow>
      (\<exists>i j. served_pair u (requestKey u request) host (mu_consumed m) (mu_events m) (nat (mu_cursor m)) i j
        \<and> out = payload_of (mu_events m ! j)))"
proof -
  let ?pair = "served_pair u (requestKey u request) host (mu_consumed m) (mu_events m) (nat (mu_cursor m))"
  obtain r where r: "match_from u (requestKey u request) host (mu_consumed m) (nat (mu_cursor m))
      (drop (nat (mu_cursor m)) (mu_events m)) = Some r"
    and spec: "case r of
       None \<Rightarrow> \<forall>i j. nat (mu_cursor m) \<le> i \<and> candidate u (requestKey u request) host (mu_consumed m) (mu_events m) i
         \<and> i < j \<longrightarrow> \<not> reply_at (mu_consumed m) (mu_events m) j
     | Some (j, out) \<Rightarrow> (\<exists>i. ?pair i j) \<and> out = payload_of (mu_events m ! j)"
    using match_from_spec [OF assms(1)] by blast
  have res: "multi_matchResponse u hf None request m = Some (case r of None \<Rightarrow> (None, m)
        | Some (j, out) \<Rightarrow> (Some out, m\<lparr>mu_consumed := insert (int j) (mu_consumed m)\<rparr>))"
    using assms(2-5) r by (simp add: multi_matchResponse_def Let_def)
  show ?thesis
  proof (cases r)
    case None
    then have "\<not> ?pair i j" for i j using spec by (auto simp: served_pair_def)
    with None res show ?thesis by auto
  next
    case (Some jo)
    obtain j out where jo: "jo = (j, out)" by (cases jo)
    with Some spec obtain i where "?pair i j" "out = payload_of (mu_events m ! j)" by auto
    note pair = this
    have "?pair i' j' \<longrightarrow> j' = j" for i' j' using served_pair_unique pair(1) by blast
    then have "Some out = Some out' \<longleftrightarrow> (\<exists>i j. ?pair i j \<and> out' = payload_of (mu_events m ! j))" for out'
      using pair by (metis option.inject)
    then show ?thesis unfolding res Some jo option.case prod.case by blast
  qed
qed

lemma answer_is_first_response_after_first_match_witness:
  "\<exists>m'. multi_matchResponse plain_unicode [] None ''GET /'' (NewMulti [] [] demo_exchange) = Some (Some ''OK'', m')"
proof -
  have m: "mu_events (NewMulti [] [] demo_exchange) = demo_exchange" "mu_cursor (NewMulti [] [] demo_exchange) = 0"
    "mu_consumed (NewMulti [] [] demo_exchange) = {}" by (simp_all add: NewMulti_def)
  have "payload_of (demo_exchange ! 1) = ''OK''" by (simp add: demo_exchange_def small_event_facts(1-4))
  then have "\<exists>i j. served_pair plain_unicode ''GET /'' [] {} demo_exchange 0 i j \<and> ''OK'' = payload_of (demo_exchange ! j)"
    using demo_exchange_pair by metis
  moreover obtain resp m' where r: "multi_matchResponse plain_unicode [] None ''GET /'' (NewMulti [] [] demo_exchange) =
      Some (resp, m')" and iff: "\<forall>out. resp = Some out \<longleftrightarrow> (\<exists>i j. served_pair plain_unicode ''GET /'' [] {} demo_exchange 0 i j \<and>
      out = payload_of (demo_exchange ! j))"
    using answer_is_first_response_after_first_match
      [of plain_unicode "NewMulti [] [] demo_exchange" "''GET /''" "[]" "[]", unfolded m get_request]
      demo_exchange_safe by (auto simp: host_refused_def)
  ultimately have "resp = Some ''OK''" by blast
  with r show ?thesis by blast
qed

text \<open>The proxy does not panic on ASCII requests as long as the recorded events are well
  formed and the cursor is not negative, and then leaves events and cursor alone.\<close>

theorem proxy_total_on_ascii:
  assumes "events_safe u (mu_events m)" "ascii request" "0 \<le> mu_cursor m"
  shows "\<exists>resp m'. multi_matchResponse u hf None request m = Some (resp, m') \<and>
    mu_events m' = mu_events m \<and> mu_cursor m' = mu_cursor m \<and> mu_consumed m \<subseteq> mu_consumed m'"
proof -
  from multi_answer [OF assms(1) httpHost_ascii [OF assms(2)] assms(3)]
  obtain resp m' where r: "multi_matchResponse u hf None request m = Some (resp, m')"
    "mu_events m' = mu_events m" "mu_cursor m' = mu_cursor m"
    and c: "case resp of
       None \<Rightarrow> m' = m
     | Some out \<Rightarrow> \<exists>j. mu_cursor m \<le> int j \<and> reply_at (mu_consumed m) (mu_events m) j \<and>
         out = payload_of (mu_events m ! j) \<and> mu_consumed m' = insert (int j) (mu_consumed m)" by blast
  from c have "mu_consumed m \<subseteq> mu_consumed m'" by (auto split: option.splits)
  with r show ?thesis by blast
qed

lemma proxy_total_on_ascii_witness:
  "\<exists>resp m'. multi_matchResponse plain_unicode [] None ''x'' (NewMulti [] [] []) = Some (resp, m')"
  using proxy_total_on_ascii [of plain_unicode "NewMulti [] [] []" "''x''" "[]"]
  by (auto simp: NewMulti_def events_safe_def byte_of_def)

definition bad_request :: bytes where
  "bad_request = ''GET / '' @ CHR 0xFF # ''host:''"



end
