(* ===== verification/Capture_Tap.thy ===== *)
theory Capture_Tap
  imports Replay_Proxy
begin

text \<open>
  The local recorders: the recording reverse proxy and forward proxy (pkg/recordproxy/proxy.go)
  and the tap on a Node process through its inspector (pkg/captureattach/attach_tap.go).  The
  text of a message on the wire, JSON decoding and the inspector's answers are inputs; events
  go to a list in the state.
\<close>

section \<open>Building an event\<close>

definition truncateComm :: "bytes \<Rightarrow> bytes" where
  "truncateComm name = (if length name \<le> CommLen then name else take CommLen name)"

definition build_event :: "u64 \<Rightarrow> u32 \<Rightarrow> u8 \<Rightarrow> bytes \<Rightarrow> bytes \<Rightarrow> ioevent" where
  "build_event now fd isWrite payload0 comm =
     (let payload = (if MaxPayloadLen < length payload0 then take MaxPayloadLen payload0 else payload0)
      in zero_event\<lparr>TimestampNs := now, Fd := fd, IsWrite := isWrite, PayloadLen := of_nat (length payload),
           Payload := go_copy (Payload zero_event) payload,
           Comm := go_copy (Comm zero_event) (truncateComm comm)\<rparr>)"

section \<open>The recording proxies\<close>

record recorder =
  rp_comm :: bytes
  rp_node_id :: bytes
  rp_handler :: bool
  rp_index :: u64
  rp_events :: "ioevent list"

definition recorder_New :: "bytes \<Rightarrow> bytes \<Rightarrow> bool \<Rightarrow> recorder" where
  "recorder_New comm nodeID onEvent =
     \<lparr>rp_comm = comm, rp_node_id = nodeID, rp_handler = onEvent, rp_index = 0, rp_events = []\<rparr>"

definition recorder_emit :: "u64 \<Rightarrow> u8 \<Rightarrow> bytes \<Rightarrow> recorder \<Rightarrow> recorder" where
  "recorder_emit now isWrite payload s =
     (if \<not> rp_handler s then s
      else let i = rp_index s + 1
           in s\<lparr>rp_index := i, rp_events := rp_events s @ [build_event now (ucast i) isWrite payload (rp_comm s)]\<rparr>)"

text \<open>A message is a head and a body that is read once: \<^verbatim>\<open>Request.Write\<close> puts the whole request on
  the wire and leaves its body at the end; \<^verbatim>\<open>io.ReadAll\<close> gives the body or an error.  The text on the
  wire (\<open>request_text\<close>, \<open>response_text\<close>) is the standard library's.\<close>

record http_req =
  rq_head :: bytes
  rq_abs :: bool
  rq_body :: bytes

record http_resp =
  rs_status :: nat
  rs_head :: bytes
  rs_body :: bytes
  rs_readable :: bool

definition request_Write :: "(http_req \<Rightarrow> bytes) \<Rightarrow> http_req \<Rightarrow> bytes \<times> http_req" where
  "request_Write request_text r = (request_text r, r\<lparr>rq_body := []\<rparr>)"

definition recordRequest ::
  "(http_req \<Rightarrow> bytes) \<Rightarrow> u64 \<Rightarrow> http_req \<Rightarrow> recorder \<Rightarrow> http_req \<times> recorder" where
  "recordRequest request_text now req s =
     (case request_Write request_text req of (buf, req') \<Rightarrow> (req', recorder_emit now 1 buf s))"

definition recordResponse ::
  "(http_resp \<Rightarrow> bytes) \<Rightarrow> u64 \<Rightarrow> http_resp \<Rightarrow> recorder \<Rightarrow> http_resp \<times> recorder" where
  "recordResponse response_text now resp s =
     (let body = (if rs_readable resp then rs_body resp else []);
          resp' = resp\<lparr>rs_body := body, rs_readable := True\<rparr>
      in (resp', recorder_emit now 0 (response_text resp') s))"

text \<open>One exchange through the reverse proxy that \<^verbatim>\<open>Start\<close> sets up: the director (after the
  library's own, \<open>direct\<close>) records the request, the target answers what it is sent or not at all,
  and the answer is recorded on its way back.  The result is what the target was sent, and what
  the client gets.\<close>

definition recorder_exchange ::
  "(http_req \<Rightarrow> bytes) \<Rightarrow> (http_resp \<Rightarrow> bytes) \<Rightarrow> (http_req \<Rightarrow> http_req) \<Rightarrow> (http_req \<Rightarrow> http_resp option) \<Rightarrow>
     u64 \<times> u64 \<times> http_req \<Rightarrow> recorder \<Rightarrow> (http_req \<times> http_resp option) \<times> recorder" where
  "recorder_exchange request_text response_text direct target = (\<lambda>(t1, t2, req) s.
     case recordRequest request_text t1 (direct req) s of
       (out, s1) \<Rightarrow>
         (case target out of
            None \<Rightarrow> ((out, None), s1)
          | Some resp \<Rightarrow>
              (case recordResponse response_text t2 resp s1 of (resp', s2) \<Rightarrow> ((out, Some resp'), s2))))"

fun recorder_run ::
  "(http_req \<Rightarrow> bytes) \<Rightarrow> (http_resp \<Rightarrow> bytes) \<Rightarrow> (http_req \<Rightarrow> http_req) \<Rightarrow> (http_req \<Rightarrow> http_resp option) \<Rightarrow>
     (u64 \<times> u64 \<times> http_req) list \<Rightarrow> recorder \<Rightarrow> recorder" where
  "recorder_run qt pt direct target [] s = s"
| "recorder_run qt pt direct target (x # xs) s =
     recorder_run qt pt direct target xs (snd (recorder_exchange qt pt direct target x s))"

text \<open>The forward proxy takes its event number from the clock.\<close>

record outbound =
  ob_comm :: bytes
  ob_handler :: bool
  ob_events :: "ioevent list"

definition NewOutbound :: "bytes \<Rightarrow> bool \<Rightarrow> outbound" where
  "NewOutbound comm onEvent = \<lparr>ob_comm = comm, ob_handler = onEvent, ob_events = []\<rparr>"

definition outbound_emit :: "u64 \<Rightarrow> nat \<Rightarrow> u8 \<Rightarrow> bytes \<Rightarrow> outbound \<Rightarrow> outbound" where
  "outbound_emit now nanos isWrite payload p =
     (if \<not> ob_handler p then p
      else p\<lparr>ob_events := ob_events p @ [build_event now (of_nat (nanos mod 1000000)) isWrite payload (ob_comm p)]\<rparr>)"

text \<open>What becomes of a forwarded request: it cannot be built, the round trip fails, or a response
  arrives.  The new request takes the body of the old one, as the recording has left it.\<close>

datatype forward_outcome = BadRequest | UpstreamFailed | Answered http_resp

definition handleHTTP ::
  "(http_req \<Rightarrow> bytes) \<Rightarrow> (http_resp \<Rightarrow> bytes) \<Rightarrow> (http_req \<Rightarrow> forward_outcome) \<Rightarrow>
     u64 \<times> nat \<Rightarrow> u64 \<times> nat \<Rightarrow> http_req \<Rightarrow> outbound \<Rightarrow> (nat \<times> bytes option) \<times> outbound" where
  "handleHTTP request_text response_text roundTrip t1 t2 r p =
     (case request_Write request_text r of
        (reqBuf, r1) \<Rightarrow>
          (let p1 = outbound_emit (fst t1) (snd t1) 1 reqBuf p in
           if \<not> rq_abs r1 then ((400, None), p1)
           else case roundTrip r1 of
             BadRequest \<Rightarrow> ((502, None), p1)
           | UpstreamFailed \<Rightarrow> ((502, None), p1)
           | Answered resp \<Rightarrow>
               (if \<not> rs_readable resp then ((502, None), p1)
                else ((rs_status resp, Some (rs_body resp)),
                      outbound_emit (fst t2) (snd t2) 0 (response_text resp) p1))))"

datatype connect_outcome = DialFailed | NoHijack | HijackFailed | Tunnel

definition handleConnect :: "u64 \<times> nat \<Rightarrow> bytes \<Rightarrow> connect_outcome \<Rightarrow> outbound \<Rightarrow> nat \<times> outbound" where
  "handleConnect t host outcome p =
     (case outcome of
        DialFailed \<Rightarrow> (502, p)
      | NoHijack \<Rightarrow> (500, p)
      | HijackFailed \<Rightarrow> (500, p)
      | Tunnel \<Rightarrow> (200, outbound_emit (fst t) (snd t) 1
          (''CONNECT '' @ host @ '' HTTP/1.1'' @ crlf @ ''Host: '' @ host @ crlf @ crlf) p))"

section \<open>The attach tap\<close>

record tap =
  tp_comm :: bytes
  tp_next_fd :: u64
  tp_inbound :: nat
  tp_ping_seen :: bool
  tp_events :: "ioevent list"

definition tap_new :: "bytes \<Rightarrow> tap" where
  "tap_new comm =
     \<lparr>tp_comm = (if comm = [] then ''node'' else comm), tp_next_fd = 0, tp_inbound = 0, tp_ping_seen = False,
      tp_events = []\<rparr>"

definition tap_emit :: "u64 \<Rightarrow> u8 \<Rightarrow> bytes \<Rightarrow> tap \<Rightarrow> tap" where
  "tap_emit now isWrite payload t =
     (let i = tp_next_fd t + 1
      in t\<lparr>tp_next_fd := i, tp_events := tp_events t @ [build_event now (ucast i) isWrite payload (tp_comm t)]\<rparr>)"

record binding_msg =
  bm_dir :: int
  bm_payload :: bytes
  bm_ping :: bool

definition handleBindingCalled :: "(bytes \<Rightarrow> binding_msg option) \<Rightarrow> u64 \<Rightarrow> bytes \<Rightarrow> tap \<Rightarrow> tap" where
  "handleBindingCalled unmarshal now payloadStr t =
     (if payloadStr = [] then t
      else case unmarshal payloadStr of
        None \<Rightarrow> t
      | Some msg \<Rightarrow>
          if bm_ping msg then t\<lparr>tp_ping_seen := True\<rparr>
          else if bm_payload msg = [] then t
          else tap_emit now (if bm_dir msg = 1 then 1 else 0) (bm_payload msg)
                 (t\<lparr>tp_inbound := tp_inbound t + 1\<rparr>))"

definition ParseBindingMessage :: "(bytes \<Rightarrow> binding_msg option) \<Rightarrow> bytes \<Rightarrow> (u8 \<times> bytes) option" where
  "ParseBindingMessage unmarshal payloadJSON =
     (case unmarshal payloadJSON of
        None \<Rightarrow> None
      | Some msg \<Rightarrow>
          if bm_payload msg = [] then None
          else if bm_dir msg = 1 then Some (1, bm_payload msg) else Some (0, bm_payload msg))"

definition outboundURLPath :: "bytes \<Rightarrow> bytes" where
  "outboundURLPath url =
     (if \<not> has_prefix url ''http://'' \<and> \<not> has_prefix url ''https://'' then url
      else case index_of url ''://'' of
        None \<Rightarrow> url
      | Some schemeEnd \<Rightarrow>
          (let rest = drop (schemeEnd + 3) url
           in case index_of rest ''/'' of Some idx \<Rightarrow> drop idx rest | None \<Rightarrow> ''/''))"

text \<open>The parameters of an inspector event: the request object with its method and URL, or
  nothing when it is missing; missing fields read as empty.\<close>

definition handleOutboundRequest :: "u64 \<Rightarrow> (bytes \<times> bytes) option \<Rightarrow> tap \<Rightarrow> tap" where
  "handleOutboundRequest now req t =
     (case req of
        None \<Rightarrow> t
      | Some (meth, url) \<Rightarrow>
          if meth = [] \<or> url = [] then t
          else tap_emit now 1
                 (meth @ '' '' @ outboundURLPath url @ '' HTTP/1.1'' @ crlf @ ''Host: localhost'' @ crlf @ crlf) t)"

definition httpStatusText :: "(int \<Rightarrow> bytes) \<Rightarrow> int \<Rightarrow> bytes" where
  "httpStatusText table code = (let text = table code in if text \<noteq> [] then text else ''Unknown'')"

text \<open>\<open>table\<close> is \<^verbatim>\<open>http.StatusText\<close>; the status arrives as a whole number.\<close>

definition handleOutboundResponse ::
  "(int \<Rightarrow> bytes) \<Rightarrow> u64 \<Rightarrow> (int \<times> bytes \<times> bytes) option \<Rightarrow> tap \<Rightarrow> tap" where
  "handleOutboundResponse table now resp t =
     (case resp of
        None \<Rightarrow> t
      | Some (status, statusText0, url) \<Rightarrow>
          (let statusText = (if statusText0 = [] then httpStatusText table status else statusText0)
           in tap_emit now 0
                (''HTTP/1.1 '' @ itoa_int status @ '' '' @ statusText @ crlf @ ''X-BugIT-URL: '' @ url @ crlf @ crlf) t))"

text \<open>The handlers that \<^verbatim>\<open>registerHandlers\<close> installs, by event.\<close>

datatype cdp_event =
  RequestWillBeSent "(bytes \<times> bytes) option"
| ResponseReceived "(int \<times> bytes \<times> bytes) option"
| BindingCalled bytes

fun tap_handle :: "(bytes \<Rightarrow> binding_msg option) \<Rightarrow> (int \<Rightarrow> bytes) \<Rightarrow> u64 \<times> cdp_event \<Rightarrow> tap \<Rightarrow> tap" where
  "tap_handle unmarshal table (now, RequestWillBeSent req) t = handleOutboundRequest now req t"
| "tap_handle unmarshal table (now, ResponseReceived resp) t = handleOutboundResponse table now resp t"
| "tap_handle unmarshal table (now, BindingCalled payload) t = handleBindingCalled unmarshal now payload t"

text \<open>\<^verbatim>\<open>waitPing\<close>: each turn finds the clock, the tap's flag and the context.\<close>

datatype ping_result = Pinged | Cancelled | PingTimeout

fun waitPing :: "instant \<Rightarrow> (instant \<times> bool \<times> bool) list \<Rightarrow> ping_result" where
  "waitPing deadline [] = PingTimeout"
| "waitPing deadline ((now, seen, done) # turns) =
     (if now < deadline then
        (if seen then Pinged else if done then Cancelled else waitPing deadline turns)
      else PingTimeout)"

text \<open>\<^verbatim>\<open>setup\<close>: the calls to the inspector in order; each may fail, and two of them must
  evaluate to true.  The result is the calls made and the error.\<close>

datatype cdp_call =
  RuntimeEnable | AddBinding | NetworkEnable | InjectHook | ReadyCheck | SendPing | DisablePreload
datatype setup_error = CallFailed cdp_call | HookRefused | WrongProcess | PingFailed ping_result

record setup_env =
  su_fails :: "cdp_call \<Rightarrow> bool"
  su_true :: "cdp_call \<Rightarrow> bool"
  su_ping :: ping_result
  su_disable_preload :: bool

fun run_calls :: "setup_env \<Rightarrow> cdp_call list \<Rightarrow> cdp_call list \<times> setup_error option" where
  "run_calls env [] = ([], None)"
| "run_calls env (c # cs) =
     (if su_fails env c then ([c], Some (CallFailed c))
      else if c = InjectHook \<and> \<not> su_true env c then ([c], Some HookRefused)
      else if c = ReadyCheck \<and> \<not> su_true env c then ([c], Some WrongProcess)
      else if c = SendPing \<and> su_ping env \<noteq> Pinged then ([c], Some (PingFailed (su_ping env)))
      else case run_calls env cs of (made, err) \<Rightarrow> (c # made, err))"

definition tap_setup :: "setup_env \<Rightarrow> cdp_call list \<times> setup_error option" where
  "tap_setup env =
     run_calls env ([RuntimeEnable, AddBinding, NetworkEnable, InjectHook, ReadyCheck, SendPing]
       @ (if su_disable_preload env then [DisablePreload] else []))"

section \<open>Lemmas\<close>

lemma build_event_ok: "wf_event (build_event now fd w p comm) \<and> pl_ok (build_event now fd w p comm)"
proof -
  have "unat (of_nat n :: u32) = n" if "n \<le> 2048" for n :: nat
    using that by (simp add: unat_of_nat take_bit_nat_eq_self)
  then show ?thesis
    by (auto simp: build_event_def Let_def wf_event_def pl_ok_def zero_event_def size_defs)
qed

lemma build_event_payload: "payload_of (build_event now fd w p comm) = take MaxPayloadLen p"
proof -
  have "unat (of_nat n :: u32) = n" if "n \<le> 2048" for n :: nat
    using that by (simp add: unat_of_nat take_bit_nat_eq_self)
  then show ?thesis
    by (auto simp: build_event_def Let_def zero_event_def size_defs go_copy_def)
qed

lemma build_event_fields [simp]:
  "IsWrite (build_event now fd w p comm) = w" "Fd (build_event now fd w p comm) = fd"
  "TimestampNs (build_event now fd w p comm) = now"
  by (simp_all add: build_event_def Let_def)

text \<open>What the replay proxy reads off a message that begins with a plain word and a space.\<close>

lemma trim_encs_drop: "\<exists>n. trim_encs encs s = drop n s"
proof (induction encs s rule: trim_encs.induct)
  case (1 encs s)
  show ?case
  proof (cases "space_len encs s = 0")
    case True
    then have "trim_encs encs s = drop 0 s" by (subst trim_encs.simps) simp
    then show ?thesis by blast
  next
    case False
    with 1 obtain n where "trim_encs encs (drop (space_len encs s) s) = drop n (drop (space_len encs s) s)" by blast
    then have "trim_encs encs s = drop (n + space_len encs s) s" using False by (subst trim_encs.simps) simp
    then show ?thesis by blast
  qed
qed

lemma trim_space_take: "s \<noteq> [] \<Longrightarrow> plain_char (hd s) \<Longrightarrow> \<exists>n. trim_space s = take n s"
proof -
  assume s: "s \<noteq> []" "plain_char (hd s)"
  then have l: "trim_encs space_encs s = s" by (subst trim_encs.simps) (cases s, auto)
  obtain n where "trim_encs (map rev space_encs) (rev s) = drop n (rev s)" using trim_encs_drop by blast
  then have "trim_space s = take (length s - n) s" by (simp add: trim_space_def l rev_drop)
  then show ?thesis by blast
qed

lemma firstLine_take: "s \<noteq> [] \<Longrightarrow> plain_char (hd s) \<Longrightarrow> \<exists>n. firstLine s = take n s"
proof -
  assume s: "s \<noteq> []" "plain_char (hd s)"
  have cut: "\<exists>k. trim_space (take m s) = take k s" for m
  proof (cases "take m s = []")
    case True
    have "trim_space (take m s) = take 0 s" unfolding True by simp
    then show ?thesis by blast
  next
    case False
    then have "plain_char (hd (take m s))" using s by (cases m; cases s) auto
    then obtain k where "trim_space (take m s) = take k (take m s)" using trim_space_take [OF False] by blast
    then show ?thesis by (metis take_take)
  qed
  obtain n where n: "trim_space s = take n s" using trim_space_take [OF s] by blast
  have "firstLine s = [] \<or> (\<exists>m. firstLine s = trim_space (take m s))"
    by (auto simp: firstLine_def n Let_def take_take split: option.split)
  then show ?thesis using cut by (metis take_0)
qed

lemma fields_first_word:
  "list_all plain_char w \<Longrightarrow>
   length (Go_Strings.fields (take n (w @ CHR '' '' # rest))) \<le> 1 \<or>
   (\<exists>fs. Go_Strings.fields (take n (w @ CHR '' '' # rest)) = w # fs) \<or> w = []"
proof (cases "n \<le> length w")
  case True
  assume "list_all plain_char w"
  then have "list_all plain_char (take n w)" by (auto simp: list_all_iff dest: in_set_takeD)
  with True show ?thesis using fields_aux_plain_end [of "take n w" "[]"] by (auto simp: Go_Strings.fields_def)
next
  case False
  assume w: "list_all plain_char w"
  from False obtain k where "n = Suc (length w + k)" by (metis less_natE linorder_not_le)
  then have "take n (w @ CHR '' '' # rest) = w @ CHR '' '' # take k rest" by simp
  then show ?thesis using fields_aux_plain [OF w, of "[]"] by (auto simp: Go_Strings.fields_def)
qed

lemma response_key:
  "requestKey u (''HTTP/1.1 '' @ rest) = [] \<or> take 9 (requestKey u (''HTTP/1.1 '' @ rest)) = ''HTTP/1.1 ''"
proof -
  define p where "p = ''HTTP/1.1 '' @ rest"
  obtain n where n: "firstLine p = take n p"
    using firstLine_take [of p] by (auto simp: plain_char_def p_def)
  have w: "list_all plain_char ''HTTP/1.1''" by (simp add: plain_char_def)
  from fields_first_word [OF this, of n rest]
  consider "length (Go_Strings.fields (take n p)) \<le> 1" | fs where "Go_Strings.fields (take n p) = ''HTTP/1.1'' # fs"
    by (auto simp: p_def)
  then show ?thesis unfolding p_def [symmetric]
  proof cases
    case 1
    then show "requestKey u p = [] \<or> take 9 (requestKey u p) = ''HTTP/1.1 ''"
      by (auto simp: requestKey_def grpcRequestKey_def MatchGRPCUnary_def httpRequestKey_def n Let_def)
  next
    case 2
    have up: "to_upper u ''HTTP/1.1'' = ''HTTP/1.1''"
      by (subst to_upper_ascii) (simp_all add: upper_char_def ascii_upper_def byte_of_def)
    show "requestKey u p = [] \<or> take 9 (requestKey u p) = ''HTTP/1.1 ''"
      by (auto simp: requestKey_def grpcRequestKey_def MatchGRPCUnary_def httpRequestKey_def n Let_def 2 up
          split: option.splits)
  qed
qed

text \<open>What is recorded: every event is one of \<open>build_event\<close>'s, the reads are responses.\<close>

definition recorded_ok :: "(http_resp \<Rightarrow> bytes) \<Rightarrow> ioevent \<Rightarrow> bool" where
  "recorded_ok response_text e =
     (wf_event e \<and> pl_ok e \<and> (IsWrite e = 0 \<longrightarrow> (\<exists>resp. payload_of e = take MaxPayloadLen (response_text resp))))"

lemma recorder_exchange_recorded:
  "list_all (recorded_ok pt) (rp_events s) \<Longrightarrow>
   list_all (recorded_ok pt) (rp_events (snd (recorder_exchange qt pt direct target x s)))"
  by (cases x) (auto simp: recorder_exchange_def recordRequest_def recordResponse_def request_Write_def
      recorder_emit_def recorded_ok_def build_event_ok build_event_payload Let_def split: option.split)

lemma recorder_run_recorded:
  "list_all (recorded_ok pt) (rp_events s) \<Longrightarrow>
   list_all (recorded_ok pt) (rp_events (recorder_run qt pt direct target xs s))"
  by (induction xs arbitrary: s) (auto intro: recorder_exchange_recorded)

lemma response_event_never_matches:
  assumes "recorded_ok pt e" "IsWrite e = 0" "\<And>resp. \<exists>rest. pt resp = ''HTTP/1.1 '' @ rest"
    and "key \<noteq> []" "take 9 key \<noteq> ''HTTP/1.1 ''"
  shows "request_matches u key host e = Some False"
proof -
  obtain resp where resp: "payload_of e = take MaxPayloadLen (pt resp)" using assms(1,2) by (auto simp: recorded_ok_def)
  obtain rest where "pt resp = ''HTTP/1.1 '' @ rest" using assms(3) by blast
  then have p: "payload_of e = ''HTTP/1.1 '' @ take (MaxPayloadLen - 9) rest" using resp by (simp add: size_defs)
  then have "requestKey u (payload_of e) \<noteq> key" unfolding p using response_key assms(4,5) by metis
  then show ?thesis using assms(1) by (simp add: request_matches_def recorded_ok_def payload_slice_Some)
qed

lemma response_events_never_match:
  assumes "list_all (recorded_ok pt) events" "\<And>resp. \<exists>rest. pt resp = ''HTTP/1.1 '' @ rest"
    and "key \<noteq> []" "take 9 key \<noteq> ''HTTP/1.1 ''"
  shows "match_from u key host used i events = Some None"
  using assms(1) response_event_never_matches [OF _ _ assms(2-4)]
  by (induction events arbitrary: i) auto

text \<open>The messages the inspector reports, and what the tap makes of them.\<close>

fun tap_message :: "(bytes \<Rightarrow> binding_msg option) \<Rightarrow> (int \<Rightarrow> bytes) \<Rightarrow> cdp_event \<Rightarrow> (u8 \<times> bytes) list" where
  "tap_message unmarshal table (RequestWillBeSent None) = []"
| "tap_message unmarshal table (RequestWillBeSent (Some (meth, url))) =
     (if meth = [] \<or> url = [] then []
      else [(1, meth @ '' '' @ outboundURLPath url @ '' HTTP/1.1'' @ crlf @ ''Host: localhost'' @ crlf @ crlf)])"
| "tap_message unmarshal table (ResponseReceived None) = []"
| "tap_message unmarshal table (ResponseReceived (Some (status, txt, url))) =
     [(0, ''HTTP/1.1 '' @ itoa_int status @ '' '' @ (if txt = [] then httpStatusText table status else txt)
        @ crlf @ ''X-BugIT-URL: '' @ url @ crlf @ crlf)]"
| "tap_message unmarshal table (BindingCalled s) =
     (if s = [] \<or> (case unmarshal s of None \<Rightarrow> False | Some m \<Rightarrow> bm_ping m) then []
      else case ParseBindingMessage unmarshal s of None \<Rightarrow> [] | Some m \<Rightarrow> [m])"

definition tap_faithful :: "tap \<Rightarrow> (u8 \<times> bytes) list \<Rightarrow> bool" where
  "tap_faithful t msgs =
     (list_all (\<lambda>e. wf_event e \<and> pl_ok e) (tp_events t) \<and>
      map (\<lambda>e. (IsWrite e, payload_of e)) (tp_events t) = map (\<lambda>(w, p). (w, take MaxPayloadLen p)) msgs \<and>
      map Fd (tp_events t) = map (\<lambda>i. ucast (of_nat i + 1 :: u64)) [0..<length msgs] \<and>
      tp_next_fd t = of_nat (length msgs))"

lemma tap_emit_faithful:
  "tap_faithful t msgs \<Longrightarrow> tap_faithful (tap_emit now w p t) (msgs @ [(w, p)])"
  by (simp add: tap_faithful_def tap_emit_def Let_def build_event_ok build_event_payload)

lemma tap_faithful_count [simp]:
  "tap_faithful (t\<lparr>tp_inbound := n\<rparr>) msgs = tap_faithful t msgs"
  "tap_faithful (t\<lparr>tp_ping_seen := b\<rparr>) msgs = tap_faithful t msgs"
  by (simp_all add: tap_faithful_def)

lemma tap_handle_faithful:
  assumes "tap_faithful t msgs"
  shows "tap_faithful (tap_handle unmarshal table x t) (msgs @ tap_message unmarshal table (snd x))"
proof -
  obtain now ev where x: "x = (now, ev)" by (cases x)
  note emit = tap_emit_faithful [OF assms]
  show ?thesis
  proof (cases ev)
    case (RequestWillBeSent req)
    then show ?thesis using emit assms
      by (cases req) (auto simp: x handleOutboundRequest_def)
  next
    case (ResponseReceived resp)
    then show ?thesis using emit assms
      by (cases resp) (auto simp: x handleOutboundResponse_def Let_def)
  next
    case (BindingCalled s)
    have "tap_faithful (tap_emit now w p (t\<lparr>tp_inbound := n\<rparr>)) (msgs @ [(w, p)])" for w p n
      using assms by (intro tap_emit_faithful) simp
    then show ?thesis using assms
      by (simp add: x BindingCalled handleBindingCalled_def ParseBindingMessage_def split: option.split)
  qed
qed

lemma tap_run_faithful:
  "tap_faithful t msgs \<Longrightarrow>
   tap_faithful (fold (tap_handle unmarshal table) xs t) (msgs @ concat (map (tap_message unmarshal table \<circ> snd) xs))"
proof (induction xs arbitrary: t msgs)
  case (Cons x xs)
  from Cons.IH [OF tap_handle_faithful [OF Cons.prems]] show ?case by simp
qed simp

section \<open>Properties\<close>

text \<open>The tap loses nothing but what exceeds the payload array.  For any sequence of inspector
  events, what it emits are well-formed events, numbered from one, whose direction and payload are
  those of the messages in order (a binding call is what \<^verbatim>\<open>ParseBindingMessage\<close> reads, unless it is
  a ping), cut to 2048 bytes.\<close>

theorem tap_records_messages:
  "let t = fold (tap_handle unmarshal table) xs (tap_new comm);
       msgs = concat (map (tap_message unmarshal table \<circ> snd) xs)
   in list_all (\<lambda>e. wf_event e \<and> pl_ok e) (tp_events t) \<and>
      map (\<lambda>e. (IsWrite e, payload_of e)) (tp_events t) = map (\<lambda>(w, p). (w, take MaxPayloadLen p)) msgs \<and>
      map Fd (tp_events t) = map (\<lambda>i. ucast (of_nat i + 1 :: u64)) [0..<length msgs]"
proof -
  have "tap_faithful (tap_new comm) []" by (simp add: tap_faithful_def tap_new_def)
  from tap_run_faithful [OF this] show ?thesis by (simp add: tap_faithful_def Let_def)
qed

text \<open>The recording proxies swallow request bodies.  Recording a request reads its body, so that
  what both proxies send on has an empty one, whatever the client sent; the recording itself holds
  the request in full, and the body of a readable response arrives unchanged.\<close>

theorem proxies_drop_request_bodies:
  "rq_body (fst (fst (recorder_exchange qt pt direct target (t1, t2, req) s))) = [] \<and>
   handleHTTP qt pt roundTrip u1 u2 req p =
     handleHTTP (\<lambda>_. qt req) pt roundTrip u1 u2 (req\<lparr>rq_body := []\<rparr>) p \<and>
   (rp_handler s \<longrightarrow> payload_of (rp_events (snd (recorder_exchange qt pt direct target (t1, t2, req) s)) !
        length (rp_events s)) = take MaxPayloadLen (qt (direct req))) \<and>
   (\<forall>resp. snd (fst (recorder_exchange qt pt direct (\<lambda>_. Some resp) (t1, t2, req) s)) =
      Some (if rs_readable resp then resp else resp\<lparr>rs_body := [], rs_readable := True\<rparr>))"
  by (auto simp: recorder_exchange_def recordRequest_def recordResponse_def request_Write_def handleHTTP_def
      recorder_emit_def build_event_payload nth_append Let_def split: option.split)

lemma proxies_drop_request_bodies_witness:
  "let s = recorder_New ''node'' ''n'' True;
       req = \<lparr>rq_head = ''POST / HTTP/1.1'' @ crlf @ crlf, rq_abs = False, rq_body = ''a=1''\<rparr>;
       x = recorder_exchange (\<lambda>r. rq_head r @ rq_body r) rs_head id (\<lambda>_. None) (1, 2, req) s
   in payload_of (rp_events (snd x) ! 0) = ''POST / HTTP/1.1'' @ crlf @ crlf @ ''a=1'' \<and> rq_body (fst (fst x)) = []"
  using proxies_drop_request_bodies [of "\<lambda>r. rq_head r @ rq_body r" rs_head id "\<lambda>_. None" 1 2
      "\<lparr>rq_head = ''POST / HTTP/1.1'' @ crlf @ crlf, rq_abs = False, rq_body = ''a=1''\<rparr>"
      "recorder_New ''node'' ''n'' True"]
  by (simp add: recorder_New_def size_defs)



end
