(* ===== verification/Local_Capture.thy ===== *)
theory Local_Capture
  imports Collector Incident Project_Config Capture_Tap
begin

text \<open>
  Local capture (dre-collector/pkg/localcapture/daemon.go and attach.go) with the detection of the
  runtime (pkg/runtimedetect/detect.go): a collector in the same process, fed by the recorders
  over HTTP.  The JSON codec, the clock, the debugger's answers and the end of the captured
  command are inputs.
\<close>

section \<open>The runtime\<close>

datatype runtime = RuntimeGo | RuntimeNode | RuntimePython | RuntimeUnknown

definition hasFile :: "'e proj_env \<Rightarrow> bytes \<Rightarrow> bytes \<Rightarrow> bool" where
  "hasFile env root name = exists_file env (path_join [root, name])"

definition Detect :: "'e proj_env \<Rightarrow> bytes \<Rightarrow> runtime" where
  "Detect env root =
     (if exists_file env (path_join [root, ''go.mod'']) then RuntimeGo
      else if exists_file env (path_join [root, ''package.json'']) then RuntimeNode
      else if hasFile env root ''pyproject.toml'' \<or> hasFile env root ''requirements.txt'' then RuntimePython
      else RuntimeUnknown)"

definition runtime_name :: "runtime \<Rightarrow> bytes" where
  "runtime_name rt =
     (case rt of RuntimeGo \<Rightarrow> ''go'' | RuntimeNode \<Rightarrow> ''node'' | RuntimePython \<Rightarrow> ''python'' | RuntimeUnknown \<Rightarrow> ''unknown'')"

text \<open>The package's own \<^verbatim>\<open>itoa\<close>: a negative number gives no digits, and more than sixteen digits
  run off its buffer.\<close>

definition rt_itoa :: "int \<Rightarrow> bytes option" where
  "rt_itoa n =
     (if n = 0 then Some ''0'' else if n < 0 then Some []
      else if 10 ^ 16 \<le> n then None else Some (itoa (nat n)))"

definition EnvAdjustments :: "runtime \<Rightarrow> int \<Rightarrow> bytes list option" where
  "EnvAdjustments rt inspectPort =
     (case rt of
        RuntimeNode \<Rightarrow> do {
          port \<leftarrow> rt_itoa inspectPort;
          let token = ''--inspect=127.0.0.1:'' @ port;
          Some [''BUGIT_NODE_INSPECT='' @ token, ''NODE_OPTIONS='' @ token]
        }
      | RuntimePython \<Rightarrow> do {
          port \<leftarrow> rt_itoa inspectPort;
          Some [''BUGIT_DEBUGPY=1'', ''BUGIT_DEBUGPY_PORT='' @ port]
        }
      | _ \<Rightarrow> Some [])"

definition CleanEnv :: "bytes list \<Rightarrow> bytes list" where
  "CleanEnv env = filter (\<lambda>e. \<not> (13 \<le> length e \<and> take 13 e = ''NODE_OPTIONS='')) env"

section \<open>Addresses\<close>

definition splitHostPort :: "bytes \<Rightarrow> bytes \<Rightarrow> bytes \<times> bytes" where
  "splitHostPort addr defPort =
     (if contains addr '':'' then
        (let parts = split addr '':'' in (parts ! 0, parts ! (length parts - 1)))
      else (''127.0.0.1'', defPort))"

definition splitHTTP :: "bytes \<Rightarrow> bytes \<Rightarrow> bytes \<times> bytes" where
  "splitHTTP raw defPort =
     splitHostPort (trim_prefix (trim_prefix raw ''http://'') ''https://'') defPort"

section \<open>State\<close>

text \<open>\<open>dm_done\<close>: the context of the command is done.  The collector runs under that context and
  closes its listeners when it is done, at once; the daemon calls it again only after a pause.
  The source map store is one object that the daemon and the exporter share: it is the
  exporter's \<open>ex_source\<close>.\<close>

record daemon =
  dm_layout :: layout
  dm_cfg :: config
  dm_collector :: collector
  dm_done :: bool
  dm_record :: "recorder option"
  dm_outbound :: "outbound option"

definition source_refs :: "daemon \<Rightarrow> source_map" where
  "source_refs d = (case ex_source (cl_exporter (dm_collector d)) of None \<Rightarrow> [] | Some refs \<Rightarrow> refs)"

definition set_ref :: "int \<Rightarrow> source_ref \<Rightarrow> daemon \<Rightarrow> daemon" where
  "set_ref idx ref d =
     (let c = dm_collector d;
          refs = Store_Set (source_refs d) idx (src_file ref) (src_line ref) (src_column ref) (src_function ref)
      in d\<lparr>dm_collector := SetLocalHooks ((cl_local c)\<lparr>lh_source_map := Some refs\<rparr>) c\<rparr>)"

section \<open>Posting events\<close>

text \<open>The HTTP and JSON layer between the daemon and its collector: the encoder and the decoder
  of the endpoint, with the clock readings of the handler.\<close>

record http_layer =
  hl_encode :: "bytes \<times> event_item list \<Rightarrow> bytes"
  hl_decode :: "bytes \<Rightarrow> bytes + bytes \<times> event_item list"
  hl_env :: capture_env
  hl_quote :: "bytes \<Rightarrow> bytes"
  hl_detail :: "bytes \<Rightarrow> bytes option"
  hl_response :: "trigger_response \<Rightarrow> bytes"
  hl_parsed :: "bytes \<Rightarrow> bytes"

definition bytesTrim :: "bytes \<Rightarrow> bytes" where
  "bytesTrim b = trim_right b [NUL]"

definition isHTTPError :: "ioevent \<Rightarrow> bool option" where
  "isHTTPError evt =
     (if IsWrite evt \<noteq> 0 then Some False
      else do {
        p \<leftarrow> payload_slice evt;
        Some (contains p ''HTTP/1.1 5'' \<or> contains p ''HTTP/1.0 5'' \<or>
              contains p ''HTTP/1.1 4'' \<or> contains p ''HTTP/1.0 4'')
      })"

definition post_item :: "ioevent \<Rightarrow> event_item option" where
  "post_item evt = do {
     payload \<leftarrow> payload_slice evt;
     Some \<lparr>it_timestamp = TimestampNs evt, it_fd = Fd evt, it_is_write = IsWrite evt,
           it_comm = bytesTrim (Comm evt), it_payload = payload\<rparr>
   }"

datatype post_error = NotReachable | BadStatus nat bytes

definition postEvent ::
  "http_layer \<Rightarrow> u64 \<times> stamps \<Rightarrow> ioevent \<Rightarrow> daemon \<Rightarrow> (post_error option \<times> daemon) option" where
  "postEvent hl clk evt d = do {
     item \<leftarrow> post_item evt;
     let body = hl_encode hl (''local-dev'', [item]);
     if dm_done d then Some (Some NotReachable, d)
     else do {
       (reply, c') \<leftarrow> serveIngestEvents (hl_env hl) ''POST'' (Inr body)
          (\<lambda>data. case hl_decode hl data of
             Inl err \<Rightarrow> Inl err
           | Inr (node, items) \<Rightarrow> Inr (node, map (\<lambda>it. (it, clk)) items)) (dm_collector d);
       let d' = d\<lparr>dm_collector := c'\<rparr>;
       Some (case reply of Status st msg \<Rightarrow> if 300 \<le> st then Some (BadStatus st msg) else None | _ \<Rightarrow> None, d')
     }
   }"

text \<open>\<open>frame\<close> is the answer of the debugger, if there is one, at the time of the call.\<close>

definition note_source :: "source_ref option \<Rightarrow> ioevent \<Rightarrow> daemon \<Rightarrow> daemon option" where
  "note_source frame evt d = do {
     bad \<leftarrow> isHTTPError evt;
     Some (if \<not> bad then d
           else case frame of None \<Rightarrow> d | Some ref \<Rightarrow> set_ref (uint (Fd evt)) ref d)
   }"

definition PostIOEvent ::
  "http_layer \<Rightarrow> u64 \<times> stamps \<Rightarrow> source_ref option \<Rightarrow> ioevent \<Rightarrow> daemon \<Rightarrow> (post_error option \<times> daemon) option" where
  "PostIOEvent hl clk frame evt d = do {
     (err, d') \<leftarrow> postEvent hl clk evt d;
     if err \<noteq> None then Some (err, d')
     else do { d'' \<leftarrow> note_source frame evt d'; Some (None, d'') }
   }"

text \<open>The sink that \<^verbatim>\<open>StartDaemon\<close> gives to the recorders only logs a failed post.\<close>

definition eventSink ::
  "http_layer \<Rightarrow> u64 \<times> stamps \<Rightarrow> source_ref option \<Rightarrow> ioevent \<Rightarrow> daemon \<Rightarrow> daemon option" where
  "eventSink hl clk frame evt d = do {
     (err, d') \<leftarrow> postEvent hl clk evt d;
     note_source frame evt d'
   }"

section \<open>Snapshots\<close>

text \<open>\<^verbatim>\<open>triggerSnapshot\<close>: \<open>stat\<close> is whether the link to the latest snapshot exists after the call;
  \<^verbatim>\<open>%q\<close> quotes the detail the Go way, which the server's decoder may not accept.\<close>

definition latest_there :: "daemon \<Rightarrow> bool" where
  "latest_there d = (cl_files (dm_collector d) (ly_latest_snapshot (dm_layout d)) \<noteq> None)"

definition triggerSnapshot ::
  "http_layer \<Rightarrow> instant \<times> instant \<Rightarrow> bytes \<Rightarrow> daemon \<Rightarrow> (bytes option \<times> daemon) option" where
  "triggerSnapshot hl clk detail0 d =
     (let detail = (if detail0 = [] then ''manual capture'' else detail0);
          body = ''{'' @ [CHR 0x22] @ ''detail'' @ [CHR 0x22] @ '':'' @ hl_quote hl detail @ ''}''
      in if dm_done d then Some (None, d)
         else do {
           (reply, c') \<leftarrow> serve_trigger (hl_env hl) (hl_response hl) ''POST'' (hl_detail hl body) clk (dm_collector d);
           let d' = d\<lparr>dm_collector := c'\<rparr>;
           let path = (case reply of Status st data \<Rightarrow> hl_parsed hl data | _ \<Rightarrow> []);
           Some (if latest_there d' then (Some (ly_latest_snapshot (dm_layout d')), d')
                 else if path \<noteq> [] then (Some path, d') else (None, d'))
         })"

text \<open>How the captured command ends: by itself, with or without an error, or by the context of
  the command being done first.  The answer is the path, empty when there is none, and
  whether an error is returned.\<close>

datatype capture_end = Exited | Failed | Interrupted

definition path_of_opt :: "bytes option \<Rightarrow> bytes" where
  "path_of_opt r = (case r of None \<Rightarrow> [] | Some p \<Rightarrow> p)"

definition snap_when ::
  "http_layer \<Rightarrow> instant \<times> instant \<Rightarrow> bool \<Rightarrow> bytes \<Rightarrow> bytes \<times> daemon \<Rightarrow> (bytes \<times> daemon) option" where
  "snap_when hl clk b detail = (\<lambda>(path, d).
     if b then do { (r, d') \<leftarrow> triggerSnapshot hl clk detail d; Some (path_of_opt r, d') } else Some (path, d))"

definition RunCapture_end ::
  "http_layer \<Rightarrow> instant \<times> instant \<Rightarrow> instant \<times> instant \<Rightarrow> capture_end \<Rightarrow> bool \<Rightarrow> bytes \<Rightarrow> daemon \<Rightarrow>
     ((bytes \<times> bool) \<times> daemon) option" where
  "RunCapture_end hl clk1 clk2 how saveOnExit detail d =
     (case how of
        Failed \<Rightarrow> do {
          (path, d1) \<leftarrow> snap_when hl clk1 True ''capture exit'' ([], d);
          Some ((path, True), d1)
        }
      | Exited \<Rightarrow> do {
          (path, d1) \<leftarrow> snap_when hl clk1 saveOnExit ''capture exit'' ([], d);
          (path', d2) \<leftarrow> snap_when hl clk2 (path = [] \<and> saveOnExit) detail (path, d1);
          Some ((path', False), d2)
        }
      | Interrupted \<Rightarrow> do {
          (path, d1) \<leftarrow> snap_when hl clk1 saveOnExit ''interrupt'' ([], d\<lparr>dm_done := True\<rparr>);
          (path', d2) \<leftarrow> snap_when hl clk2 (path = [] \<and> saveOnExit) detail (path, d1);
          Some ((path', False), d2)
        })"

text \<open>The end of \<^verbatim>\<open>RunAttachRecord\<close>: it waits for the context, then saves.\<close>

definition RunAttachRecord_end ::
  "http_layer \<Rightarrow> instant \<times> instant \<Rightarrow> instant \<times> instant \<Rightarrow> bool \<Rightarrow> bytes \<Rightarrow> daemon \<Rightarrow>
     ((bytes \<times> bool) \<times> daemon) option" where
  "RunAttachRecord_end hl clk1 clk2 saveOnExit detail d = do {
     (path, d1) \<leftarrow> snap_when hl clk1 saveOnExit ''interrupt'' ([], d\<lparr>dm_done := True\<rparr>);
     (path', d2) \<leftarrow> snap_when hl clk2 (path = [] \<and> saveOnExit) detail (path, d1);
     Some ((path', saveOnExit \<and> path' = []), d2)
   }"

definition TriggerSnapshotHTTP ::
  "'e proj_env \<Rightarrow> http_layer \<Rightarrow> instant \<times> instant \<Rightarrow> bytes \<Rightarrow> bytes \<Rightarrow> collector \<Rightarrow> (bytes option \<times> daemon) option" where
  "TriggerSnapshotHTTP env hl clk workspace detail c = do {
     captureRoot \<leftarrow> FindCaptureRoot env workspace;
     let ly = LayoutFor captureRoot;
     let cfg = (case LoadConfig env (ly_config_path ly) of (cfg, None) \<Rightarrow> cfg | (_, Some _) \<Rightarrow> DefaultConfig);
     triggerSnapshot hl clk detail
       \<lparr>dm_layout = ly, dm_cfg = cfg, dm_collector = c, dm_done = False, dm_record = None, dm_outbound = None\<rparr>
   }"

text \<open>Finding snapshots.  An entry of a directory: its name, whether it is a directory, and its
  modification time when it can be read; the zero time comes before every other.\<close>

record dir_entry =
  en_name :: bytes
  en_is_dir :: bool
  en_mtime :: "instant option"

definition is_snapshot :: "dir_entry \<Rightarrow> bool" where
  "is_snapshot e = (\<not> en_is_dir e \<and> has_suffix (en_name e) ''.dre'')"

text \<open>The loop over the entries with the variables \<^verbatim>\<open>latest\<close> and \<^verbatim>\<open>latestTime\<close>.\<close>

fun newest :: "bytes \<Rightarrow> dir_entry list \<Rightarrow> bytes \<times> instant option \<Rightarrow> bytes" where
  "newest dir [] (latest, t) = latest"
| "newest dir (e # es) (latest, t) =
     (if \<not> is_snapshot e then newest dir es (latest, t)
      else case en_mtime e of
        None \<Rightarrow> newest dir es (latest, t)
      | Some m \<Rightarrow>
          if (case t of None \<Rightarrow> True | Some t' \<Rightarrow> t' < m)
          then newest dir es (path_join [dir, en_name e], Some m)
          else newest dir es (latest, t))"

datatype 'e lookup_error = DirError 'e | NoSnapshots

definition LatestSnapshot ::
  "'e proj_env \<Rightarrow> (bytes \<Rightarrow> 'e + dir_entry list) \<Rightarrow> bytes \<Rightarrow> ('e lookup_error + bytes) option" where
  "LatestSnapshot env readDir root = do {
     captureRoot \<leftarrow> FindCaptureRoot env root;
     let ly = LayoutFor captureRoot;
     Some (if exists_file env (ly_latest_snapshot ly) then Inr (ly_latest_snapshot ly)
           else case readDir (ly_snapshots_path ly) of
             Inl err \<Rightarrow> Inl (DirError err)
           | Inr entries \<Rightarrow>
               (let latest = newest (ly_snapshots_path ly) entries ([], None)
                in if latest = [] then Inl NoSnapshots else Inr latest))
   }"

definition local_ListSnapshots ::
  "'e proj_env \<Rightarrow> (bytes \<Rightarrow> 'e + dir_entry list) \<Rightarrow> bytes \<Rightarrow> ('e + bytes list) option" where
  "local_ListSnapshots env readDir root = do {
     captureRoot \<leftarrow> FindCaptureRoot env root;
     let ly = LayoutFor captureRoot;
     Some (case readDir (ly_snapshots_path ly) of
         Inl err \<Rightarrow> Inl err
       | Inr entries \<Rightarrow> Inr (map (\<lambda>e. path_join [ly_snapshots_path ly, en_name e]) (filter is_snapshot entries)))
   }"

section \<open>Starting the daemon\<close>

datatype 'e start_failure = LayoutFailed 'e | ConfigFailed 'e | SaveFailed 'e | NotReady | RecorderFailed

text \<open>What the environment decides: the process environment, the trigger rules, the file system of
  the collector, the order of a map's keys, sorting and YAML for the replay configuration,
  whether the collector answers in time and which addresses can be listened on.\<close>

record 'e start_env =
  st_proj :: "'e proj_env"
  st_getenv :: "bytes \<Rightarrow> bytes"
  st_rules :: "bytes \<Rightarrow> 'e + bytes list"
  st_files :: filesystem
  st_order :: "bytes list \<Rightarrow> bytes list"
  st_unicode :: unicode
  st_sort :: "replay_service list \<Rightarrow> replay_service list"
  st_marshal :: "replay_yaml \<Rightarrow> 'e + bytes"
  st_write :: "bytes \<Rightarrow> bytes \<Rightarrow> 'e option"
  st_ready :: bool
  st_listen :: "bytes \<Rightarrow> bool"

definition incident_builder :: "(bytes list \<Rightarrow> bytes list) \<Rightarrow> ioevent list \<Rightarrow> incident option" where
  "incident_builder order events = (case BuildIncident order events of None \<Rightarrow> None | Some r \<Rightarrow> r)"

text \<open>The replay writer as an update of the collector's files.\<close>

definition replay_writer :: "'e start_env \<Rightarrow> bytes \<Rightarrow> bytes \<Rightarrow> ioevent list \<Rightarrow> filesystem \<Rightarrow> filesystem" where
  "replay_writer env path root events fs =
     (case WriteReplayConfig (st_unicode env) (st_sort env) (st_marshal env) (st_write env) fs path root events of
        Some (None, cfg) \<Rightarrow> (case st_marshal env cfg of Inr data \<Rightarrow> fs(path \<mapsto> data) | Inl err \<Rightarrow> fs)
      | _ \<Rightarrow> fs)"

definition daemon_hooks :: "'e start_env \<Rightarrow> layout \<Rightarrow> bytes \<Rightarrow> local_hooks" where
  "daemon_hooks env ly captureRoot =
     \<lparr>lh_incident = Some (incident_builder (st_order env)), lh_source_map = Some [],
      lh_replay_writer = Some (replay_writer env), lh_snapshot_dir = ly_snapshots_path ly,
      lh_latest_link = ly_latest_snapshot ly, lh_replay_path = ly_replay_path ly, lh_project_root = captureRoot\<rparr>"

text \<open>The result: the addresses the collector is run on, and the failure or the daemon with the
  configuration.\<close>

definition StartDaemon ::
  "'e start_env \<Rightarrow> bytes \<Rightarrow> bool \<Rightarrow> ((bytes \<times> bytes) option \<times> config \<times> ('e start_failure + daemon)) option" where
  "StartDaemon env root skipProxy = do {
     captureRoot \<leftarrow> FindCaptureRoot (st_proj env) root;
     Some (case EnsureLayout captureRoot (st_proj env) of
       (ly, Some err, pe1) \<Rightarrow> (None, zero_config, Inl (LayoutFailed err))
     | (ly, None, pe1) \<Rightarrow>
       (case LoadConfig pe1 (ly_config_path ly) of
          (_, Some err) \<Rightarrow> (None, zero_config, Inl (ConfigFailed err))
        | (cfg0, None) \<Rightarrow>
          (let cfg = PrepareConfig pe1 captureRoot cfg0 in
           case SaveConfig (ly_config_path ly) cfg pe1 of
             (Some err, pe2) \<Rightarrow> (None, zero_config, Inl (SaveFailed err))
           | (None, pe2) \<Rightarrow>
             (let getenv = (st_getenv env)(''DRE_DATA_DIR'' := ly_data_path ly, ''DRE_CLUSTER'' := ''local'',
                    ''DRE_SNAPSHOT_KEY'' := cf_snapshot_key cfg, ''DRE_LEADER_ELECT'' := ''0'',
                    ''DRE_LOCAL_MODE'' := ''1'', ''DRE_TRIGGER_4XX'' := (if cf_trigger4xx cfg then ''1'' else []));
                  (grpcHost, grpcPort) = splitHostPort (cf_collector_grpc cfg) ''29090'';
                  (httpHost, httpPort) = splitHTTP (cf_collector_http cfg) ''28080'';
                  addrs = (grpcHost @ '':'' @ grpcPort, httpHost @ '':'' @ httpPort);
                  c0 = collector_New getenv (st_rules env) (ly_data_path ly) ''local'' (cf_snapshot_key cfg) (st_files env);
                  c = SetLocalHooks (daemon_hooks env ly captureRoot) c0;
                  d = \<lparr>dm_layout = ly, dm_cfg = cfg, dm_collector = c, dm_done = False,
                       dm_record = None, dm_outbound = None\<rparr>;
                  rt = runtime_name (Detect pe2 captureRoot);
                  comm = (if rt = ''unknown'' then ''app'' else rt)
              in if \<not> st_ready env then (Some addrs, cfg, Inl NotReady)
                 else if skipProxy then (Some addrs, cfg, Inr d)
                 else if \<not> st_listen env (cf_record_proxy cfg) then (Some addrs, cfg, Inl RecorderFailed)
                 else (Some addrs, cfg,
                   Inr (d\<lparr>dm_record := Some (recorder_New comm ''local-dev'' True),
                          dm_outbound := Some (NewOutbound comm True)\<rparr>))))))
   }"

section \<open>Lemmas\<close>

text \<open>What the JSON layer does to an item, and the law of the codec.\<close>

definition text_item :: "event_item \<Rightarrow> event_item" where
  "text_item item = item\<lparr>it_comm := json_text (it_comm item), it_payload := json_text (it_payload item)\<rparr>"

definition http_laws :: "http_layer \<Rightarrow> bool" where
  "http_laws hl =
     (\<forall>node items. hl_decode hl (hl_encode hl (node, items)) = Inr (json_text node, map text_item items))"

lemma json_text_ascii: "ascii s \<Longrightarrow> json_text s = s"
proof (induction s)
  case Nil
  then show ?case by (simp add: json_text_def map_runes_def)
next
  case (Cons c s)
  then show ?case by (simp add: json_text_def map_runes_ascii_Cons encode_rune_def byte_of_def)
qed

lemma trim_NUL_padded: "bytesTrim s @ replicate (length s - length (bytesTrim s)) NUL = s"
proof -
  have "rev s = takeWhile (\<lambda>c. c \<in> {NUL}) (rev s) @ dropWhile (\<lambda>c. c \<in> {NUL}) (rev s)" by simp
  moreover have "takeWhile (\<lambda>c. c \<in> {NUL}) (rev s) = replicate (length (takeWhile (\<lambda>c. c \<in> {NUL}) (rev s))) NUL"
    by (rule replicate_eqI) (auto dest: set_takeWhileD)
  ultimately obtain n where "rev s = replicate n NUL @ rev (bytesTrim s)"
    unfolding bytesTrim_def trim_right_def by (metis list.set(1) list.simps(15) rev_rev_ident)
  then have "s = bytesTrim s @ replicate n NUL" by (metis rev_append rev_replicate rev_rev_ident)
  then show ?thesis by (metis add_diff_cancel_left' length_append length_replicate)
qed

text \<open>An event whose text survives JSON: the process identifier is not sent, a zero timestamp is
  replaced, and bytes that are not UTF-8 are.\<close>

definition textual :: "ioevent \<Rightarrow> bool" where
  "textual e =
     (PidTgid e = 0 \<and> TimestampNs e \<noteq> 0 \<and> zero_tail e \<and>
      json_text (payload_of e) = payload_of e \<and> json_text (bytesTrim (Comm e)) = bytesTrim (Comm e))"

lemma event_of_item_textual:
  assumes "wf_event e" "pl_ok e" "textual e" "post_item e = Some item"
  shows "event_of_item now (text_item item) = e"
proof -
  have item: "text_item item = \<lparr>it_timestamp = TimestampNs e, it_fd = Fd e, it_is_write = IsWrite e,
      it_comm = bytesTrim (Comm e), it_payload = payload_of e\<rparr>"
    using assms by (auto simp: post_item_def payload_slice_Some text_item_def textual_def)
  have pl: "unat (PayloadLen e) \<le> MaxPayloadLen" "length (Payload e) = MaxPayloadLen"
    using assms(1,2) by (simp_all add: wf_event_def pl_ok_def)
  then have len: "length (payload_of e) \<le> MaxPayloadLen" by simp
  have "go_copy (replicate CommLen NUL) (bytesTrim (Comm e)) = Comm e"
  proof -
    have "length (bytesTrim (Comm e)) \<le> CommLen"
      using trim_NUL_padded [of "Comm e"] assms(1) by (metis le_add1 length_append wf_event_def)
    then show ?thesis using trim_NUL_padded [of "Comm e"] assms(1) by (simp add: go_copy_zero_prefix wf_event_def)
  qed
  moreover have "go_copy (replicate MaxPayloadLen NUL) (payload_of e) = Payload e"
    using payload_zero_tail [OF assms(1,2)] assms(1-3) len
    by (simp add: go_copy_zero_prefix textual_def wf_event_def pl_ok_def min_def)
  ultimately show ?thesis
    using assms(3) pl unfolding item event_of_item_def
    by (intro ioevent.equality) (simp_all add: Let_def zero_event_def textual_def)
qed

lemma postEvent_stores:
  assumes "http_laws hl" "collector_inv (dm_collector d)" "\<not> dm_done d"
    and "wf_event e" "pl_ok e" "textual e"
  shows "\<exists>d'. postEvent hl (now, ts) e d = Some (None, d') \<and>
    dm_collector d' = the (collector_ingest (hl_env hl) e ''local-dev'' ts (dm_collector d)) \<and>
    d' = d\<lparr>dm_collector := dm_collector d'\<rparr> \<and> collector_inv (dm_collector d') \<and>
    sv_buf (cl_service (dm_collector d')) = Add e ''local-dev'' (fst ts) (sv_buf (cl_service (dm_collector d)))"
proof -
  obtain item where item: "post_item e = Some item"
    using assms(4,5) by (simp add: post_item_def payload_slice_Some)
  have node: "json_text ''local-dev'' = ''local-dev''" by (rule json_text_ascii) (simp add: byte_of_def)
  have dec: "hl_decode hl (hl_encode hl (''local-dev'', [item])) = Inr (''local-dev'', [text_item item])"
    using assms(1) node by (simp add: http_laws_def)
  have ev: "event_of_item now (text_item item) = e" by (rule event_of_item_textual [OF assms(4-6) item])
  obtain c' where c': "collector_ingest (hl_env hl) e ''local-dev'' ts (dm_collector d) = Some c'" "collector_inv c'"
    "sv_buf (cl_service c') = Add e ''local-dev'' (fst ts) (sv_buf (cl_service (dm_collector d)))"
    using collector_ingest_total [OF assms(2)] assms(4,5) unfolding event_ok_def by blast
  have "postEvent hl (now, ts) e d = Some (None, d\<lparr>dm_collector := c'\<rparr>)"
    using assms(3) by (simp add: postEvent_def item serveIngestEvents_def dec ingest_item_def ev c')
  with c' show ?thesis by simp
qed

text \<open>Events of the recorders are textual when their text is.\<close>

lemma build_event_textual:
  assumes "now \<noteq> 0" "json_text (take MaxPayloadLen p) = take MaxPayloadLen p" "ascii comm"
  shows "textual (build_event now fd w p comm)"
proof -
  let ?e = "build_event now fd w p comm"
  have tail: "zero_tail ?e"
  proof -
    have "unat (of_nat n :: u32) = n" if "n \<le> 2048" for n :: nat
      using that by (simp add: unat_of_nat take_bit_nat_eq_self)
    then show ?thesis
      by (auto simp: zero_tail_def build_event_def Let_def zero_event_def size_defs go_copy_def)
  qed
  have "set (Comm ?e) \<subseteq> set comm \<union> {NUL}"
    by (auto simp: build_event_def Let_def zero_event_def truncateComm_def go_copy_def
        dest: in_set_takeD in_set_dropD split: if_splits)
  moreover have "set (bytesTrim (Comm ?e)) \<subseteq> set (Comm ?e)"
    by (metis Un_iff set_append subsetI trim_NUL_padded)
  ultimately have "set (bytesTrim (Comm ?e)) \<subseteq> set comm \<union> {NUL}" by blast
  moreover have "byte_of c < 128" if "c \<in> set comm \<union> {NUL}" for c
    using that assms(3) by (auto simp: ascii_def) (simp add: byte_of_def)
  ultimately have "ascii (bytesTrim (Comm ?e))" unfolding ascii_def by blast
  then show ?thesis
    using assms(1,2) tail build_event_payload [of now fd w p comm]
    by (simp add: textual_def json_text_ascii) (simp add: build_event_def Let_def zero_event_def)
qed

text \<open>Recorded events are numbered from one.\<close>

definition numbered :: "recorder \<Rightarrow> bool" where
  "numbered s =
     (rp_index s = of_nat (length (rp_events s)) \<and>
      map Fd (rp_events s) = map (\<lambda>i. ucast (of_nat i + 1 :: u64)) [0..<length (rp_events s)])"

lemma numbered_emit: "numbered s \<Longrightarrow> numbered (recorder_emit now w p s)"
  by (auto simp: numbered_def recorder_emit_def Let_def)

lemma numbered_run: "numbered s \<Longrightarrow> numbered (recorder_run qt pt direct target xs s)"
proof (induction xs arbitrary: s)
  case (Cons x xs)
  have "numbered (snd (recorder_exchange qt pt direct target x s))"
    using Cons.prems
    by (cases x) (auto simp: recorder_exchange_def recordRequest_def recordResponse_def request_Write_def Let_def
        numbered_emit split: option.split)
  then show ?case using Cons.IH by simp
qed simp

lemma numbered_New: "numbered (recorder_New comm node b)"
  by (simp add: numbered_def recorder_New_def)

lemma recorded_number:
  assumes "numbered s" "k < length (rp_events s)" "length (rp_events s) < 2 ^ 32"
  shows "uint (Fd (rp_events s ! k)) = int k + 1"
proof -
  have "Fd (rp_events s ! k) = ucast (of_nat k + 1 :: u64)"
    using assms(1,2) unfolding numbered_def by (metis (no_types, lifting) add_0 diff_zero length_map length_upt nth_map nth_upt)
  also have "(of_nat k + 1 :: u64) = of_nat (Suc k)" by simp
  finally have fd: "Fd (rp_events s ! k) = ucast (of_nat (Suc k) :: u64)" .
  have "unat (of_nat (Suc k) :: u64) = Suc k"
    using assms(2,3) by (simp only: unat_of_nat take_bit_nat_eq_self) (simp add: take_bit_nat_eq_self)
  then have "unat (Fd (rp_events s ! k)) = Suc k"
    using assms(2,3) unfolding fd by (simp add: unsigned_ucast_eq take_bit_nat_eq_self)
  then show ?thesis by (simp add: uint_nat)
qed

text \<open>The source map of a daemon.\<close>

lemma source_refs_set_ref:
  "source_refs (set_ref i ref d) =
     Store_Set (source_refs d) i (src_file ref) (src_line ref) (src_column ref) (src_function ref)"
  by (simp add: set_ref_def source_refs_def SetLocalHooks_def SetSourceMap_def Let_def)

lemma set_ref_frame [frame_simps, simp]:
  "cl_service (dm_collector (set_ref i ref d)) = cl_service (dm_collector d)"
  "cl_snapshots (dm_collector (set_ref i ref d)) = cl_snapshots (dm_collector d)"
  "cl_files (dm_collector (set_ref i ref d)) = cl_files (dm_collector d)"
  by (simp_all add: set_ref_def SetLocalHooks_def Let_def)

lemma lookup_set_ref:
  "Store_RefForIndex (source_refs (set_ref i ref d)) j =
     (if j = i then Some (ref\<lparr>src_index := i\<rparr>) else Store_RefForIndex (source_refs d) j)"
  using source_store.get_put [of i ref "source_refs d" j] by (simp add: source_refs_set_ref store_put_def)

lemma isHTTPError_total: "wf_event e \<Longrightarrow> pl_ok e \<Longrightarrow> isHTTPError e \<noteq> None"
  by (auto simp: isHTTPError_def payload_slice_Some)

text \<open>Where the files of a snapshot stay as the exporter has written them.\<close>

lemma postProcessSnapshot_keeps:
  assumes "path \<noteq> lh_latest_link h"
    and "\<And>w root evs fs. lh_replay_writer h = Some w \<Longrightarrow> w (lh_replay_path h) root evs fs path = fs path"
  shows "postProcessSnapshot can_write h path events fs path = fs path"
proof (cases "lh_snapshot_dir h = []")
  case False
  have copy: "copy_file can_write src dest fs' path = fs' path" if "dest \<noteq> path" for src dest fs'
    using that by (simp add: copy_file_def split: option.split)
  define dest where "dest = path_join [lh_snapshot_dir h, path_base path]"
  define fs1 where "fs1 = (if path \<noteq> dest then copy_file can_write path dest fs else fs)"
  define path1 where "path1 = (if path \<noteq> dest \<and> fs path \<noteq> None then dest else path)"
  define fs2 where "fs2 = (if lh_latest_link h \<noteq> [] then copy_file can_write path1 (lh_latest_link h) fs1 else fs1)"
  have "fs1 path = fs path" using copy by (simp add: fs1_def)
  then have two: "fs2 path = fs path" using copy assms(1) by (simp add: fs2_def)
  have "postProcessSnapshot can_write h path events fs =
      (if lh_replay_path h \<noteq> [] \<and> 0 < length events then
         (case lh_replay_writer h of
            None \<Rightarrow> fs2
          | Some writer \<Rightarrow> writer (lh_replay_path h) (lh_project_root h) (bufferEventsToNative events) fs2)
       else fs2)"
    using False by (simp only: postProcessSnapshot_def Let_def if_False fs2_def path1_def fs1_def dest_def)
  then show ?thesis using two
    by (cases "lh_replay_writer h") (simp_all add: assms(2))
qed (simp add: postProcessSnapshot_def)

lemma replay_writer_keeps: "path \<noteq> p \<Longrightarrow> replay_writer env p root evs fs path = fs path"
  by (auto simp: replay_writer_def split: option.split sum.split)

lemma daemon_hooks_keep:
  assumes "hooks = (daemon_hooks env ly root)\<lparr>lh_source_map := m\<rparr>"
    and "path \<noteq> ly_latest_snapshot ly" "path \<noteq> ly_replay_path ly"
  shows "postProcessSnapshot cw hooks path evs fs path = fs path"
  by (rule postProcessSnapshot_keeps)
    (use assms(2,3) in \<open>auto simp: assms(1) daemon_hooks_def replay_writer_keeps\<close>)

text \<open>What a snapshot taken by an ingested event holds.\<close>

lemma ingest_snapshot_contents:
  assumes "codec_laws (ce_codecs env)" "ev_random (ce_export env) = Some nonce" "length nonce = NonceSize"
    and "collector_inv c" "event_ok e"
    and "collector_ingest env e n ts c = Some c'" "cl_snapshots c' = cl_snapshots c @ [info]"
    and "\<And>fs cw evs. postProcessSnapshot cw (cl_local c) (si_path info) evs fs (si_path info) = fs (si_path info)"
  shows "\<exists>snap. OpenFile (ce_codecs env) (cl_files c') (si_path info) (ex_key (cl_exporter c)) = Inr snap \<and>
    snap_source snap = text_source (case ex_source (cl_exporter c) of None \<Rightarrow> [] | Some s \<Rightarrow> s) \<and>
    ex_source (cl_exporter c') = ex_source (cl_exporter c)"
proof -
  have "graph_inv (sv_vector (cl_service c))" using assms(4) by (simp add: collector_inv_def)
  with ingestEvent_total [of e "cl_service c" n ts "[]"] assms(5)
  obtain sv out where sv: "ingestEvent e n ts (cl_service c) = Some (sv, out)" "graph_inv (sv_vector sv)"
    "sv_buf sv = Add e n (fst ts) (sv_buf (cl_service c))"
    by (auto simp: event_ok_def)
  let ?c = "c\<lparr>cl_service := sv\<rparr>"
  have ok: "list_all (\<lambda>ev. event_ok (be_event ev)) (sv_buf (cl_service ?c))"
    using sv assms(4,5) by (simp add: collector_inv_def Add_ok)
  have run: "case out of None \<Rightarrow> c' = ?c | Some trig \<Rightarrow> captureSnapshot env trig ?c = Some c'"
    using assms(6) sv(1) by (cases out) (auto simp: collector_ingest_def IngestNative_def)
  then obtain trig where trig: "captureSnapshot env trig ?c = Some c'"
    using assms(7) by (cases out) auto
  have inv: "collector_inv ?c" using ok sv(2) by (simp add: collector_inv_def)
  have snaps: "cl_snapshots c' = cl_snapshots ?c @ [info]" using assms(7) by simp
  show ?thesis
  proof (rule captured_snapshot [OF assms(1-3) inv trig snaps])
    fix snap fs evs
    assume *: "OpenFile (ce_codecs env) fs (si_path info) (ex_key (cl_exporter ?c)) = Inr snap"
      "cl_files c' = postProcessSnapshot (ce_can_write env) (cl_local ?c) (si_path info) evs fs"
      "snap_source snap = text_source (case ex_source (cl_exporter ?c) of None \<Rightarrow> [] | Some s \<Rightarrow> s)"
      "ex_source (cl_exporter c') = ex_source (cl_exporter ?c)"
    have "cl_files c' (si_path info) = fs (si_path info)" using *(2) assms(8) by simp
    from OpenFile_cong [of "cl_files c'" "si_path info" fs "si_path info", OF this] *(1,3,4) show ?thesis by (intro exI [of _ snap]) simp
  qed
qed

lemma ingest_event_stored:
  assumes "http_laws hl" "collector_inv (dm_collector d)" "\<not> dm_done d"
    and "wf_event e" "pl_ok e" "textual e"
  shows "\<exists>d'. PostIOEvent hl (now, ts) ref e d = Some (None, d') \<and> collector_inv (dm_collector d') \<and>
    sv_buf (cl_service (dm_collector d')) = Add e ''local-dev'' (fst ts) (sv_buf (cl_service (dm_collector d))) \<and>
    (\<exists>c'. collector_ingest (hl_env hl) e ''local-dev'' ts (dm_collector d) = Some c' \<and>
      note_source ref e (d\<lparr>dm_collector := c'\<rparr>) = Some d')"
proof -
  obtain d1 where d1: "postEvent hl (now, ts) e d = Some (None, d1)" "d1 = d\<lparr>dm_collector := dm_collector d1\<rparr>"
    "dm_collector d1 = the (collector_ingest (hl_env hl) e ''local-dev'' ts (dm_collector d))"
    "collector_inv (dm_collector d1)"
    "sv_buf (cl_service (dm_collector d1)) = Add e ''local-dev'' (fst ts) (sv_buf (cl_service (dm_collector d)))"
    using postEvent_stores [OF assms] by blast
  obtain c' where "collector_ingest (hl_env hl) e ''local-dev'' ts (dm_collector d) = Some c'"
    using collector_ingest_total [OF assms(2)] assms(4,5) unfolding event_ok_def by blast
  with d1(2,3) have c': "collector_ingest (hl_env hl) e ''local-dev'' ts (dm_collector d) = Some c'"
    "d1 = d\<lparr>dm_collector := c'\<rparr>" by simp_all
  obtain b where b: "isHTTPError e = Some b" using isHTTPError_total [OF assms(4,5)] by blast
  obtain d' where d': "note_source ref e d1 = Some d'" "cl_service (dm_collector d') = cl_service (dm_collector d1)"
    using b by (auto simp: note_source_def split: option.split)
  have "PostIOEvent hl (now, ts) ref e d = Some (None, d')" using d1(1) d'(1) by (simp add: PostIOEvent_def)
  moreover have "collector_inv (dm_collector d')" using d1(4) d'(2) by (simp add: collector_inv_def)
  ultimately show ?thesis using d1(5) d' c' by auto
qed

text \<open>The loop of \<open>newest\<close> over the snapshots that have a time.\<close>

definition dated :: "bytes \<Rightarrow> dir_entry list \<Rightarrow> (bytes \<times> instant) list" where
  "dated dir es =
     map (\<lambda>e. (path_join [dir, en_name e], the (en_mtime e)))
       (filter (\<lambda>e. is_snapshot e \<and> en_mtime e \<noteq> None) es)"

lemma dated_Cons:
  "dated dir (e # es) =
     (if is_snapshot e \<and> en_mtime e \<noteq> None then (path_join [dir, en_name e], the (en_mtime e)) # dated dir es
      else dated dir es)"
  by (simp add: dated_def)

lemma newest_Some:
  "\<exists>m. (newest dir es (latest, Some t), m) \<in> set ((latest, t) # dated dir es) \<and>
     (\<forall>x \<in> set ((latest, t) # dated dir es). snd x \<le> m)"
proof (induction es arbitrary: latest t)
  case Nil
  show ?case by (simp add: dated_def)
next
  case (Cons e es)
  show ?case
  proof (cases "is_snapshot e \<and> en_mtime e \<noteq> None")
    case False
    then have "newest dir (e # es) (latest, Some t) = newest dir es (latest, Some t)"
      by (auto split: option.split)
    with Cons.IH [of latest t] False show ?thesis by (simp only: dated_Cons if_False)
  next
    case True
    then obtain m0 where m0: "en_mtime e = Some m0" by blast
    have d: "dated dir (e # es) = (path_join [dir, en_name e], m0) # dated dir es"
      using True m0 by (simp add: dated_Cons)
    show ?thesis
    proof (cases "t < m0")
      case True
      with \<open>is_snapshot e \<and> _\<close> m0
      have "newest dir (e # es) (latest, Some t) = newest dir es (path_join [dir, en_name e], Some m0)" by simp
      moreover obtain m where "(newest dir es (path_join [dir, en_name e], Some m0), m) \<in> set (dated dir (e # es))"
        "\<forall>x \<in> set (dated dir (e # es)). snd x \<le> m"
        using Cons.IH [of "path_join [dir, en_name e]" m0] unfolding d by blast
      moreover from this(2) have "t \<le> m" using True by (simp add: d)
      ultimately show ?thesis by (intro exI [of _ m]) simp
    next
      case False
      with \<open>is_snapshot e \<and> _\<close> m0
      have "newest dir (e # es) (latest, Some t) = newest dir es (latest, Some t)" by simp
      moreover obtain m where "(newest dir es (latest, Some t), m) \<in> set ((latest, t) # dated dir es)"
        "\<forall>x \<in> set ((latest, t) # dated dir es). snd x \<le> m"
        using Cons.IH [of latest t] by blast
      moreover from this(2) have "m0 \<le> m" using False by simp
      ultimately show ?thesis unfolding d by (intro exI [of _ m]) auto
    qed
  qed
qed

lemma newest_None:
  "case dated dir es of
     [] \<Rightarrow> newest dir es (latest, None) = latest
   | _ \<Rightarrow> \<exists>m. (newest dir es (latest, None), m) \<in> set (dated dir es) \<and> (\<forall>x \<in> set (dated dir es). snd x \<le> m)"
proof (induction es)
  case Nil
  show ?case by (simp add: dated_def)
next
  case (Cons e es)
  show ?case
  proof (cases "is_snapshot e \<and> en_mtime e \<noteq> None")
    case False
    then have "newest dir (e # es) (latest, None) = newest dir es (latest, None)"
      by (auto split: option.split)
    with Cons.IH False show ?thesis by (simp only: dated_Cons if_False)
  next
    case True
    then obtain m0 where m0: "en_mtime e = Some m0" by blast
    have d: "dated dir (e # es) = (path_join [dir, en_name e], m0) # dated dir es"
      using True m0 by (simp add: dated_Cons)
    have "newest dir (e # es) (latest, None) = newest dir es (path_join [dir, en_name e], Some m0)"
      using True m0 by simp
    then show ?thesis using newest_Some [of dir es "path_join [dir, en_name e]" m0] by (simp add: d)
  qed
qed

lemma path_join_nonempty: "y \<noteq> [] \<Longrightarrow> path_join [x, y] \<noteq> []"
proof -
  have "path_clean p \<noteq> []" for p by (simp add: path_clean_def dot_def Let_def)
  moreover assume "y \<noteq> []"
  ultimately show ?thesis by (cases "x = []") (simp_all add: path_join_def)
qed

text \<open>The incident of a snapshot is built before the events are scrubbed.\<close>

lemma has_secret_nonempty: "has_secret p \<Longrightarrow> p \<noteq> []"
  by (auto simp: has_secret_iff rules_def)

lemma prepared_incident:
  assumes "list_all (\<lambda>ev. event_ok (be_event ev)) (sv_buf (cl_service c))" "sv_buf (cl_service c) \<noteq> []"
    and "lh_incident (cl_local c) = Some (incident_builder order)"
    and "worst_response (error_responses (map be_event (sv_buf (cl_service c)))) = Some (st, step, detail)" "detail \<noteq> []"
  shows "\<exists>inc. ex_incident (prepared_exporter c) = Some inc \<and> inc_root_cause inc = detail"
proof -
  let ?evs = "map be_event (sv_buf (cl_service c))"
  have "list_all (\<lambda>ev. wf_event ev \<and> pl_ok ev) ?evs"
    using assms(1) by (simp add: list.pred_map comp_def event_ok_def)
  from incident_of_worst [OF this, of order] assms(2,4,5) obtain inc where
    "BuildIncident order ?evs = Some (Some inc)" "inc_root_cause inc = detail" by auto
  then show ?thesis
    by (simp add: prepared_exporter_def assms(3) incident_builder_def bufferEventsToNative_def SetIncident_def)
qed

section \<open>Examples\<close>

definition demo_layer :: http_layer where
  "demo_layer =
     \<lparr>hl_encode = (\<lambda>(n, items). num_enc (n, map (\<lambda>it. (uint (it_timestamp it), uint (it_fd it), uint (it_is_write it),
          it_comm it, it_payload it)) items)),
      hl_decode = (\<lambda>data. case (num_dec data :: (bytes \<times> (int \<times> int \<times> int \<times> bytes \<times> bytes) list) option) of
          None \<Rightarrow> Inl ''bad''
        | Some (n, items) \<Rightarrow> Inr (json_text n, map (\<lambda>(t, fd, w, comm, p). text_item
            \<lparr>it_timestamp = of_int t, it_fd = of_int fd, it_is_write = of_int w, it_comm = comm, it_payload = p\<rparr>) items)),
      hl_env = demo_env, hl_quote = id, hl_detail = (\<lambda>_. None), hl_response = tr_path, hl_parsed = id\<rparr>"

lemma demo_layer_laws: "http_laws demo_layer"
proof -
  have eq: "\<lparr>it_timestamp = it_timestamp x, it_fd = it_fd x, it_is_write = it_is_write x, it_comm = it_comm x,
      it_payload = it_payload x\<rparr> = x" for x :: event_item by (cases x) simp
  show ?thesis by (simp add: http_laws_def demo_layer_def num_dec_enc comp_def eq)
qed

definition demo_start :: "unit start_env" where
  "demo_start =
     \<lparr>st_proj = empty_env, st_getenv = (\<lambda>_. []), st_rules = (\<lambda>_. Inl ()), st_files = Map.empty, st_order = id,
      st_unicode = plain_unicode, st_sort = sort_key ry_name, st_marshal = (\<lambda>_. Inr []), st_write = (\<lambda>_ _. None),
      st_ready = True, st_listen = (\<lambda>_. True)\<rparr>"

definition demo_daemon :: daemon where
  "demo_daemon =
     \<lparr>dm_layout = LayoutFor ''/p'', dm_cfg = DefaultConfig,
      dm_collector = SetLocalHooks (daemon_hooks demo_start (LayoutFor ''/p'') ''/p'') demo_collector,
      dm_done = False, dm_record = None, dm_outbound = None\<rparr>"

lemma demo_daemon_inv: "collector_inv (dm_collector demo_daemon)" "\<not> dm_done demo_daemon"
  using demo_collector_inv by (simp_all add: demo_daemon_def SetLocalHooks_def collector_inv_def)

definition demo_error :: ioevent where
  "demo_error = build_event 5 1 0 ''HTTP/1.1 500'' ''node''"

lemma demo_error_facts:
  "wf_event demo_error" "pl_ok demo_error" "textual demo_error" "IsWrite demo_error = 0" "Fd demo_error = 1"
  "payload_of demo_error = ''HTTP/1.1 500''" "isHTTPError demo_error = Some True"
proof -
  show ok: "wf_event demo_error" "pl_ok demo_error" using build_event_ok by (simp_all add: demo_error_def)
  show "IsWrite demo_error = 0" "Fd demo_error = 1" by (simp_all add: demo_error_def)
  show p: "payload_of demo_error = ''HTTP/1.1 500''"
    unfolding demo_error_def build_event_payload by (simp add: size_defs)
  show "textual demo_error" unfolding demo_error_def
    by (rule build_event_textual) (simp_all add: size_defs json_text_ascii byte_of_def)
  have "contains ''HTTP/1.1 500'' ''HTTP/1.1 5''" by (simp add: contains_def)
  then show "isHTTPError demo_error = Some True"
    using ok p by (simp add: isHTTPError_def payload_slice_Some demo_error_def)
qed

text \<open>A server error that sets a cookie, and a collector that has buffered it.\<close>

definition demo_leak :: bytes where
  "demo_leak = ''HTTP/1.1 500 E'' @ crlf @ ''Set-Cookie: s'' @ crlf @ crlf"

lemma demo_leak_status: "parseHTTPStatus demo_leak = (500, ''Set-Cookie: s'')"
proof -
  have "cut demo_leak crlf = (''HTTP/1.1 500 E'', ''Set-Cookie: s'' @ crlf @ crlf, True)"
    by (simp add: demo_leak_def cut_def crlf_def index_of.simps)
  moreover have "cut (''Set-Cookie: s'' @ crlf @ crlf) (crlf @ crlf) = (''Set-Cookie: s'', [], True)"
    by (simp add: cut_def crlf_def index_of.simps)
  moreover have "Go_Strings.fields ''HTTP/1.1 500 E'' = [''HTTP/1.1'', ''500'', ''E'']"
    using fields_join_plain [of "[''HTTP/1.1'', ''500'', ''E'']"] by (simp add: plain_char_def)
  moreover have "trim_space ''Set-Cookie: s'' = ''Set-Cookie: s''"
    by (simp add: trim_space_plain plain_char_def)
  moreover have "sscanf_d ''500'' = Some 500" by code_simp
  ultimately show ?thesis by (simp add: parseHTTPStatus_def has_prefix_def)
qed

lemma demo_leak_secret: "has_secret ''Set-Cookie: s''"
proof -
  have "rmatch (snd (rules ! 2)) (drop 4 ''Set-Cookie: s'') \<noteq> None"
    by (simp add: rules_def is_ws_def not_eol_def)
  moreover have "rules ! 2 \<in> set rules" by (simp add: rules_def)
  ultimately show ?thesis unfolding has_secret_iff by blast
qed

definition demo_leaky :: collector where
  "demo_leaky =
     (let c = dm_collector demo_daemon in
      c\<lparr>cl_service := (cl_service c)\<lparr>sv_buf :=
          [\<lparr>be_event = build_event 5 1 0 demo_leak ''node'', be_node = ''n'', be_at = 0\<rparr>]\<rparr>\<rparr>)"

lemma demo_leaky_facts:
  "collector_inv demo_leaky" "sv_buf (cl_service demo_leaky) \<noteq> []"
  "cl_local demo_leaky = (daemon_hooks demo_start (LayoutFor ''/p'') ''/p'')\<lparr>lh_source_map := Some []\<rparr>"
  "ex_key (cl_exporter demo_leaky) = ''k''" "ex_dir (cl_exporter demo_leaky) = ''data''"
  "worst_response (error_responses (map be_event (sv_buf (cl_service demo_leaky)))) =
     Some (500, summarizePayload demo_leak, ''Set-Cookie: s'')"
proof -
  have "length demo_leak \<le> MaxPayloadLen" by (simp add: demo_leak_def size_defs)
  then have "payload_of (build_event 5 1 0 demo_leak ''node'') = demo_leak"
    unfolding build_event_payload by simp
  then show "worst_response (error_responses (map be_event (sv_buf (cl_service demo_leaky)))) =
     Some (500, summarizePayload demo_leak, ''Set-Cookie: s'')"
    by (simp add: demo_leaky_def Let_def error_responses_def demo_leak_status worst_response_def)
  show "collector_inv demo_leaky"
    using demo_daemon_inv(1) build_event_ok
    by (simp add: demo_leaky_def Let_def collector_inv_def event_ok_def)
qed (simp_all add: demo_leaky_def Let_def demo_daemon_def SetLocalHooks_def SetSourceMap_def daemon_hooks_def
      demo_collector_def collector_New_def exporter_New_def)

lemma demo_paths:
  "path_join [''data'', incident_name ''1''] \<noteq> ly_latest_snapshot (LayoutFor ''/p'')"
  "path_join [''data'', incident_name ''1''] \<noteq> ly_replay_path (LayoutFor ''/p'')"
proof -
  have "hd (ly_latest_snapshot (LayoutFor ''/p'')) = CHR ''/''" by code_simp
  moreover have "hd (ly_replay_path (LayoutFor ''/p'')) = CHR ''/''" by code_simp
  moreover have "hd (path_join [''data'', incident_name ''1'']) \<noteq> CHR ''/''" by code_simp
  ultimately show "path_join [''data'', incident_name ''1''] \<noteq> ly_latest_snapshot (LayoutFor ''/p'')"
    "path_join [''data'', incident_name ''1''] \<noteq> ly_replay_path (LayoutFor ''/p'')" by metis+
qed

lemma demo_env_facts:
  "hl_env demo_layer = demo_env" "ce_codecs demo_env = plain_codecs"
  "ev_random (ce_export demo_env) = Some (replicate NonceSize NUL)" "length (replicate NonceSize NUL) = NonceSize"
  by (simp_all add: demo_layer_def demo_env_def)

section \<open>Properties\<close>

text \<open>C34: What a recorder hands to the daemon reaches the collector's buffer unchanged: the event
  survives the trip through JSON and the collector's endpoint, byte for byte and under the
  local node's name, as long as its recorded text is UTF-8.\<close>

theorem recorded_event_reaches_buffer:
  assumes "http_laws hl" "collector_inv (dm_collector d)" "\<not> dm_done d"
    and "t \<noteq> 0" "json_text (take MaxPayloadLen p) = take MaxPayloadLen p" "ascii comm"
  shows "\<exists>d'. PostIOEvent hl (now, ts) ref (build_event t fd w p comm) d = Some (None, d') \<and>
    collector_inv (dm_collector d') \<and>
    sv_buf (cl_service (dm_collector d')) =
      Add (build_event t fd w p comm) ''local-dev'' (fst ts) (sv_buf (cl_service (dm_collector d)))"
  using ingest_event_stored [OF assms(1-3), of "build_event t fd w p comm"] build_event_ok
    build_event_textual [OF assms(4-6)] by blast

lemma recorded_event_reaches_buffer_witness:
  "\<exists>d'. PostIOEvent demo_layer (9, (7, 7, 7)) None (build_event 5 1 1 ''GET / HTTP/1.1'' ''node'') demo_daemon = Some (None, d') \<and>
     map be_at (sv_buf (cl_service (dm_collector d'))) = [7]"
proof -
  have "sv_buf (cl_service (dm_collector demo_daemon)) = []"
    by (simp add: demo_daemon_def SetLocalHooks_def demo_collector_def collector_New_def Let_def)
  moreover have "json_text (take MaxPayloadLen ''GET / HTTP/1.1'') = take MaxPayloadLen ''GET / HTTP/1.1''"
    "ascii ''node''" by (simp_all add: size_defs json_text_ascii byte_of_def)
  ultimately show ?thesis
    using recorded_event_reaches_buffer [OF demo_layer_laws demo_daemon_inv, of 5 "''GET / HTTP/1.1''" "''node''" 9 "(7, 7, 7)" None 1 1]
    by (auto simp: Add_eq WindowDuration_def)
qed

text \<open>Source references are filed one event too late.  The daemon files the location of a failing
  response under the number in the event's descriptor field, which counts the recorded events
  from one; the reference is found at the index after the event's own, where the lookup by the
  event's own index still gives what was there before.\<close>

theorem source_refs_off_by_one:
  assumes "s = recorder_run qt pt direct target xs (recorder_New comm node True)"
    and "k < length (rp_events s)" "length (rp_events s) < 2 ^ 32" "isHTTPError (rp_events s ! k) = Some True"
  shows "\<exists>d'. note_source (Some ref) (rp_events s ! k) d = Some d' \<and>
    Store_RefForIndex (source_refs d') (int k + 1) = Some (ref\<lparr>src_index := int k + 1\<rparr>) \<and>
    Store_RefForIndex (source_refs d') (int k) = Store_RefForIndex (source_refs d) (int k)"
proof -
  have "uint (Fd (rp_events s ! k)) = int k + 1"
    by (rule recorded_number [OF _ assms(2,3)]) (simp add: assms(1) numbered_run numbered_New)
  then show ?thesis using assms(4) by (simp add: note_source_def lookup_set_ref)
qed

lemma source_refs_off_by_one_witness:
  "let s = recorder_run rq_head rs_head id
        (\<lambda>_. Some \<lparr>rs_status = 500, rs_head = ''HTTP/1.1 500'', rs_body = [], rs_readable = True\<rparr>)
        [(3, 4, \<lparr>rq_head = ''GET /'', rq_abs = False, rq_body = []\<rparr>)] (recorder_New ''node'' ''n'' True);
       ref = \<lparr>src_index = 0, src_file = ''a.js'', src_line = 7, src_column = 0, src_function = ''f''\<rparr>
   in \<exists>d'. note_source (Some ref) (rp_events s ! 1) demo_daemon = Some d' \<and>
        Store_RefForIndex (source_refs d') 1 = None \<and>
        Store_RefForIndex (source_refs d') 2 = Some (ref\<lparr>src_index := 2\<rparr>)"
proof -
  define s where "s = recorder_run rq_head rs_head id
        (\<lambda>_. Some \<lparr>rs_status = 500, rs_head = ''HTTP/1.1 500'', rs_body = [], rs_readable = True\<rparr>)
        [(3, 4, \<lparr>rq_head = ''GET /'', rq_abs = False, rq_body = []\<rparr>)] (recorder_New ''node'' ''n'' True)"
  define ref where "ref = \<lparr>src_index = 0, src_file = ''a.js'', src_line = 7, src_column = 0, src_function = ''f''\<rparr>"
  have ev: "rp_events s = [build_event 3 1 1 ''GET /'' ''node'', build_event 4 2 0 ''HTTP/1.1 500'' ''node'']"
    by (simp add: s_def recorder_exchange_def recordRequest_def recordResponse_def recorder_emit_def recorder_New_def
        request_Write_def Let_def)
  let ?e = "build_event 4 2 0 ''HTTP/1.1 500'' ''node''"
  have "payload_of ?e = ''HTTP/1.1 500''" unfolding build_event_payload by (simp add: size_defs)
  then have bad: "isHTTPError ?e = Some True"
    using build_event_ok [of 4 2 0 "''HTTP/1.1 500''" "''node''"]
    by (simp add: isHTTPError_def payload_slice_Some contains_def)
  have none: "Store_RefForIndex (source_refs demo_daemon) 1 = None"
    by (simp add: demo_daemon_def source_refs_def SetLocalHooks_def SetSourceMap_def daemon_hooks_def
        Store_RefForIndex_def Store_Snapshot_def RefForIndex_def)
  from source_refs_off_by_one [OF s_def, of 1 ref demo_daemon] bad none
  show ?thesis unfolding Let_def s_def [symmetric] ref_def [symmetric] ev by auto
qed

text \<open>\<^verbatim>\<open>LatestSnapshot\<close> without a link picks a newest snapshot: some file of the directory with the
  snapshot suffix and a readable modification time that no other such file exceeds; it reports that
  there is none only when there is none.\<close>

theorem LatestSnapshot_newest:
  assumes "FindCaptureRoot env root = Some r" "\<not> exists_file env (ly_latest_snapshot (LayoutFor r))"
    and "readDir (ly_snapshots_path (LayoutFor r)) = Inr entries"
  shows "(\<exists>e m. e \<in> set entries \<and> is_snapshot e \<and> en_mtime e = Some m \<and>
      LatestSnapshot env readDir root = Some (Inr (path_join [ly_snapshots_path (LayoutFor r), en_name e])) \<and>
      (\<forall>e' \<in> set entries. \<forall>m'. is_snapshot e' \<and> en_mtime e' = Some m' \<longrightarrow> m' \<le> m)) \<or>
    (LatestSnapshot env readDir root = Some (Inl NoSnapshots) \<and>
      (\<forall>e \<in> set entries. is_snapshot e \<longrightarrow> en_mtime e = None))"
proof -
  let ?dir = "ly_snapshots_path (LayoutFor r)"
  let ?new = "newest ?dir entries ([], None)"
  have run: "LatestSnapshot env readDir root = Some (if ?new = [] then Inl NoSnapshots else Inr ?new)"
    using assms by (simp add: LatestSnapshot_def Let_def)
  show ?thesis
  proof (cases "dated ?dir entries")
    case Nil
    then have "\<forall>e \<in> set entries. is_snapshot e \<longrightarrow> en_mtime e = None"
      by (auto simp: dated_def filter_empty_conv)
    with Nil newest_None [of ?dir entries "[]"] run show ?thesis by simp
  next
    case (Cons x xs)
    then obtain m where m: "(?new, m) \<in> set (dated ?dir entries)" "\<forall>x \<in> set (dated ?dir entries). snd x \<le> m"
      using newest_None [of ?dir entries "[]"] by auto
    then obtain e where e: "e \<in> set entries" "is_snapshot e" "en_mtime e = Some m"
      "?new = path_join [?dir, en_name e]" by (auto simp: dated_def)
    have "en_name e \<noteq> []" using e(2) by (auto simp: is_snapshot_def has_suffix_def)
    then have "?new \<noteq> []" using e(4) path_join_nonempty by simp
    moreover have "m' \<le> m" if "e' \<in> set entries" "is_snapshot e'" "en_mtime e' = Some m'" for e' m'
    proof -
      have "(path_join [?dir, en_name e'], m') \<in> set (dated ?dir entries)" using that by (force simp: dated_def)
      with m(2) show ?thesis by auto
    qed
    ultimately show ?thesis using e run by auto
  qed
qed

lemma LatestSnapshot_newest_witness:
  "LatestSnapshot empty_env (\<lambda>_. Inr [\<lparr>en_name = ''a.dre'', en_is_dir = False, en_mtime = Some 1\<rparr>,
      \<lparr>en_name = ''b.dre'', en_is_dir = False, en_mtime = Some 2\<rparr>]) ''/p'' =
   Some (Inr (path_join [ly_snapshots_path (LayoutFor (path_abs empty_env ''/p'')), ''b.dre'']))"
proof -
  let ?a = "\<lparr>en_name = ''a.dre'', en_is_dir = False, en_mtime = Some 1\<rparr>"
  let ?b = "\<lparr>en_name = ''b.dre'', en_is_dir = False, en_mtime = Some 2\<rparr>"
  have snap: "is_snapshot ?a" "is_snapshot ?b" by (simp_all add: is_snapshot_def has_suffix_def suffix_def)
  have "\<not> exists_file empty_env p" for p by (simp add: exists_file_def empty_env_def)
  from LatestSnapshot_newest [OF empty_env_root this, of "\<lambda>_. Inr [?a, ?b]" "''/p''" "[?a, ?b]"]
  show ?thesis using snap by auto
qed

text \<open>C33: The snapshot of a failure lacks the failure's source reference.  A failing response is posted
  before its location is looked up, and posting it is what triggers the snapshot: the archive
  has the references that were there before, while the new one is filed after the fact.\<close>

theorem error_snapshot_lacks_its_source:
  assumes "http_laws hl" "codec_laws (ce_codecs (hl_env hl))"
    and "ev_random (ce_export (hl_env hl)) = Some nonce" "length nonce = NonceSize"
    and "collector_inv (dm_collector d)" "\<not> dm_done d" "wf_event e" "pl_ok e" "textual e" "isHTTPError e = Some True"
    and "cl_local (dm_collector d) = (daemon_hooks env (dm_layout d) root)\<lparr>lh_source_map := m\<rparr>"
    and "PostIOEvent hl (now, ts) (Some ref) e d = Some (None, d')"
    and "cl_snapshots (dm_collector d') = cl_snapshots (dm_collector d) @ [info]"
    and "si_path info \<noteq> ly_latest_snapshot (dm_layout d)" "si_path info \<noteq> ly_replay_path (dm_layout d)"
  shows "\<exists>snap. OpenFile (ce_codecs (hl_env hl)) (cl_files (dm_collector d')) (si_path info)
        (ex_key (cl_exporter (dm_collector d))) = Inr snap \<and>
      snap_source snap = text_source (source_refs d) \<and>
      Store_RefForIndex (source_refs d') (uint (Fd e)) = Some (ref\<lparr>src_index := uint (Fd e)\<rparr>)"
proof -
  obtain d1 c' where d1: "PostIOEvent hl (now, ts) (Some ref) e d = Some (None, d1)"
    "collector_ingest (hl_env hl) e ''local-dev'' ts (dm_collector d) = Some c'"
    "note_source (Some ref) e (d\<lparr>dm_collector := c'\<rparr>) = Some d1"
    using ingest_event_stored [OF assms(1,5,6,7,8,9), of now ts "Some ref"] by blast
  then have d': "d' = set_ref (uint (Fd e)) ref (d\<lparr>dm_collector := c'\<rparr>)"
    using assms(10,12) by (simp add: note_source_def)
  have keep: "postProcessSnapshot cw (cl_local (dm_collector d)) (si_path info) evs fs (si_path info) = fs (si_path info)"
    for cw evs fs by (rule daemon_hooks_keep [OF assms(11,14,15)])
  have snaps: "cl_snapshots c' = cl_snapshots (dm_collector d) @ [info]" using assms(13) by (simp add: d')
  have "event_ok e" using assms(7,8) by (simp add: event_ok_def)
  from ingest_snapshot_contents [OF assms(2-5) this d1(2) snaps keep] obtain snap where
    "OpenFile (ce_codecs (hl_env hl)) (cl_files c') (si_path info) (ex_key (cl_exporter (dm_collector d))) = Inr snap"
    "snap_source snap = text_source (source_refs d)" unfolding source_refs_def by blast
  then show ?thesis by (simp add: d' lookup_set_ref)
qed

lemma demo_capture:
  assumes "collector_inv c"
  shows "\<exists>c' info. captureSnapshot demo_env trig c = Some c' \<and> cl_snapshots c' = cl_snapshots c @ [info] \<and>
    si_path info = path_join [ex_dir (cl_exporter c), incident_name ''1'']"
  using captureSnapshot_made [OF assms, of demo_env] by (simp add: demo_env_def)

lemma demo_ingest:
  "\<exists>c' info. collector_ingest demo_env demo_error n (0, 0, 0) (dm_collector demo_daemon) = Some c' \<and>
    cl_snapshots c' = cl_snapshots (dm_collector demo_daemon) @ [info] \<and>
    si_path info = path_join [ex_dir (cl_exporter (dm_collector demo_daemon)), incident_name ''1'']"
proof -
  let ?c = "dm_collector demo_daemon"
  have trg: "sv_triggers (cl_service ?c) = trigger_New True"
    by (simp add: demo_daemon_def SetLocalHooks_def demo_collector_def collector_New_def Let_def)
  have "payload_slice demo_error = Some ''HTTP/1.1 500''"
    using demo_error_facts by (simp add: payload_slice_Some)
  moreover have "first_match ''HTTP/1.1 500'' (te_rules5xx (trigger_New True)) = Some ''HTTP/1.1 5''"
    by (simp add: trigger_New_def contains_def)
  ultimately obtain trg' trig where ev: "Evaluate demo_error n (0, 0) (trigger_New True) = Some (trg', Some trig)"
    using demo_error_facts(4) by (simp add: Evaluate_def fire_def) (simp add: trigger_New_def since_def)
  have ok: "event_ok demo_error" using demo_error_facts(1,2) by (simp add: event_ok_def)
  have g: "graph_inv (sv_vector (cl_service ?c))" using demo_daemon_inv(1) by (simp add: collector_inv_def)
  from ingestEvent_total [OF demo_error_facts(1,2) g, of n "(0, 0, 0)" "[]"]
  obtain sv out where sv: "ingestEvent demo_error n (0, 0, 0) (cl_service ?c) = Some (sv, out)" "graph_inv (sv_vector sv)"
    "sv_buf sv = Add demo_error n 0 (sv_buf (cl_service ?c))" by auto
  have out: "out = Some trig"
    using sv(1) ev by (auto simp: ingestEvent_def trg Let_def bind_eq_Some_conv)
  have "collector_inv (?c\<lparr>cl_service := sv\<rparr>)"
    using sv(2,3) demo_daemon_inv(1) ok by (simp add: collector_inv_def Add_ok)
  from demo_capture [OF this, of trig] show ?thesis
    using sv(1) out by (simp add: collector_ingest_def IngestNative_def)
qed

lemma error_snapshot_lacks_its_source_witness:
  "\<exists>d' snap. PostIOEvent demo_layer (9, 0, 0, 0)
       (Some \<lparr>src_index = 0, src_file = ''a.js'', src_line = 7, src_column = 0, src_function = ''f''\<rparr>) demo_error demo_daemon
       = Some (None, d') \<and>
     OpenFile plain_codecs (cl_files (dm_collector d')) (path_join [''data'', incident_name ''1'']) ''k'' = Inr snap \<and>
     snap_source snap = [] \<and>
     map_option src_file (Store_RefForIndex (source_refs d') 1) = Some ''a.js''"
proof -
  let ?ref = "\<lparr>src_index = 0, src_file = ''a.js'', src_line = 7, src_column = 0, src_function = ''f''\<rparr>"
  have d: "ex_key (cl_exporter (dm_collector demo_daemon)) = ''k''" "source_refs demo_daemon = []"
    "ex_dir (cl_exporter (dm_collector demo_daemon)) = ''data''" "dm_layout demo_daemon = LayoutFor ''/p''"
    "cl_local (dm_collector demo_daemon) = (daemon_hooks demo_start (dm_layout demo_daemon) ''/p'')\<lparr>lh_source_map := Some []\<rparr>"
    by (simp_all add: demo_daemon_def source_refs_def SetLocalHooks_def SetSourceMap_def daemon_hooks_def demo_collector_def
        collector_New_def Let_def exporter_New_def)
  obtain d' c' where run: "PostIOEvent demo_layer (9, 0, 0, 0) (Some ?ref) demo_error demo_daemon = Some (None, d')"
    "collector_ingest (hl_env demo_layer) demo_error ''local-dev'' (0, 0, 0) (dm_collector demo_daemon) = Some c'"
    "note_source (Some ?ref) demo_error (demo_daemon\<lparr>dm_collector := c'\<rparr>) = Some d'"
    using ingest_event_stored [OF demo_layer_laws demo_daemon_inv demo_error_facts(1-3), of 9 "(0, 0, 0)" "Some ?ref"] by blast
  obtain info where info: "cl_snapshots c' = cl_snapshots (dm_collector demo_daemon) @ [info]"
    "si_path info = path_join [''data'', incident_name ''1'']"
    using demo_ingest [of "''local-dev''"] run(2) demo_env_facts(1) d(3) by auto
  have d': "d' = set_ref 1 ?ref (demo_daemon\<lparr>dm_collector := c'\<rparr>)"
    using run(3) demo_error_facts(5,7) by (simp add: note_source_def)
  have snaps: "cl_snapshots (dm_collector d') = cl_snapshots (dm_collector demo_daemon) @ [info]"
    using info(1) by (simp add: d')
  have ne: "si_path info \<noteq> ly_latest_snapshot (dm_layout demo_daemon)" "si_path info \<noteq> ly_replay_path (dm_layout demo_daemon)"
    unfolding d(4) info(2) by (rule demo_paths)+
  from error_snapshot_lacks_its_source [of demo_layer, unfolded demo_env_facts(1,2), OF demo_layer_laws plain_codecs_laws demo_env_facts(3,4)
      demo_daemon_inv demo_error_facts(1-3,7) d(5) run(1) snaps ne]
  obtain snap where "OpenFile plain_codecs (cl_files (dm_collector d')) (si_path info) ''k'' = Inr snap"
    "snap_source snap = []" "Store_RefForIndex (source_refs d') 1 = Some (?ref\<lparr>src_index := 1\<rparr>)"
    unfolding d(1,2) demo_error_facts(5) by (auto simp: text_source_def)
  then show ?thesis using run(1) unfolding info(2) by auto
qed

text \<open>C32: Credentials reach the archive through the incident.  The incident is built from the events as
  captured and its root cause is the header text of the worst response: a credential in it (a
  \<^verbatim>\<open>Set-Cookie\<close> line, say) is in the manifest in clear, although no event of the same archive
  holds one any more.\<close>

theorem incident_leaks_credentials:
  assumes "codec_laws (ce_codecs env)" "ev_random (ce_export env) = Some nonce" "length nonce = NonceSize"
    and "collector_inv c" "sv_buf (cl_service c) \<noteq> []"
    and "cl_local c = (daemon_hooks senv ly root)\<lparr>lh_source_map := sm\<rparr>"
    and "worst_response (error_responses (map be_event (sv_buf (cl_service c)))) = Some (st, step, detail)"
    and "has_secret detail" "ascii detail"
    and "captureSnapshot env trig c = Some c'" "cl_snapshots c' = cl_snapshots c @ [info]"
    and "si_path info \<noteq> ly_latest_snapshot ly" "si_path info \<noteq> ly_replay_path ly"
  shows "\<exists>snap inc. OpenFile (ce_codecs env) (cl_files c') (si_path info) (ex_key (cl_exporter c)) = Inr snap \<and>
    man_incident (snap_manifest snap) = Some inc \<and> inc_root_cause inc = detail \<and> has_secret (inc_root_cause inc) \<and>
    (\<forall>e \<in> set (snap_events snap). \<not> has_secret (payload_of e))"
proof -
  have ok: "list_all (\<lambda>ev. event_ok (be_event ev)) (sv_buf (cl_service c))"
    using assms(4) by (simp add: collector_inv_def)
  obtain inc where inc: "ex_incident (prepared_exporter c) = Some inc" "inc_root_cause inc = detail"
    using prepared_incident [OF ok assms(5) _ assms(7) has_secret_nonempty [OF assms(8)], of "st_order senv"]
    by (auto simp: assms(6) daemon_hooks_def)
  have plain: "inc_root_cause (text_incident inc) = detail"
    using inc(2) assms(9) by (simp add: text_incident_def json_text_ascii)
  show ?thesis
  proof (rule captured_snapshot [OF assms(1-4,10,11)])
    fix snap fs evs
    assume *: "OpenFile (ce_codecs env) fs (si_path info) (ex_key (cl_exporter c)) = Inr snap"
      "cl_files c' = postProcessSnapshot (ce_can_write env) (cl_local c) (si_path info) evs fs"
      "\<forall>e \<in> set (snap_events snap). \<not> has_secret (payload_of e)"
      "man_incident (snap_manifest snap) = map_option text_incident (ex_incident (prepared_exporter c))"
    have "cl_files c' (si_path info) = fs (si_path info)" using *(2) daemon_hooks_keep [OF assms(6,12,13)] by simp
    from OpenFile_cong [of "cl_files c'" "si_path info" fs "si_path info", OF this] *(1,3,4) inc(1) plain assms(8) show ?thesis
      by (intro exI [of _ snap] exI [of _ "text_incident inc"]) simp
  qed
qed

lemma incident_leaks_credentials_witness:
  "\<exists>c' snap inc. captureSnapshot demo_env \<lparr>trig_type = TriggerManual, trig_detail = []\<rparr> demo_leaky = Some c' \<and>
     OpenFile plain_codecs (cl_files c') (path_join [''data'', incident_name ''1'']) ''k'' = Inr snap \<and>
     man_incident (snap_manifest snap) = Some inc \<and> inc_root_cause inc = ''Set-Cookie: s''"
proof -
  let ?t = "\<lparr>trig_type = TriggerManual, trig_detail = []\<rparr>"
  obtain c' info where run: "captureSnapshot demo_env ?t demo_leaky = Some c'"
    "cl_snapshots c' = cl_snapshots demo_leaky @ [info]" "si_path info = path_join [''data'', incident_name ''1'']"
    using demo_capture [OF demo_leaky_facts(1), of ?t] unfolding demo_leaky_facts(5) by blast
  have ne: "si_path info \<noteq> ly_latest_snapshot (LayoutFor ''/p'')" "si_path info \<noteq> ly_replay_path (LayoutFor ''/p'')"
    unfolding run(3) by (rule demo_paths)+
  have "ascii ''Set-Cookie: s''" by (simp add: byte_of_def)
  from incident_leaks_credentials [of demo_env, unfolded demo_env_facts(2), OF plain_codecs_laws demo_env_facts(3,4)
      demo_leaky_facts(1-3,6) demo_leak_secret this run(1,2) ne]
  show ?thesis using run(1) unfolding run(3) demo_leaky_facts(4) by blast
qed

end
