(* ===== verification/Summary.thy ===== *)
theory Summary
  imports IO_Event Go_Strings
begin

text \<open>
  The readable view of a snapshot: event summaries (dre-replay-cli/internal/summary) and the
  correlation of event indices with processes (dre-replay-cli/internal/delve/sync.go).
\<close>

section \<open>One event\<close>

text \<open>The name of the process: the array without its trailing zero bytes and outer spaces.\<close>

definition comm_text :: "ioevent \<Rightarrow> bytes" where
  "comm_text e = trim_space (trim_right (Comm e) [NUL])"

text \<open>The summaries clamp the length field, so no value of it panics.\<close>

definition clamped_payload :: "ioevent \<Rightarrow> bytes" where
  "clamped_payload e =
     (let pl = unat (PayloadLen e);
          pl' = (if length (Payload e) < pl then length (Payload e) else pl)
      in take pl' (Payload e))"

definition first_line_error :: "bytes \<Rightarrow> bool" where
  "first_line_error line =
     (contains line '' 500 '' \<or> contains line '' 502 '' \<or> contains line '' 503 '' \<or> contains line '' 5'')"

definition httpSummary :: "bytes \<Rightarrow> bytes \<times> bool" where
  "httpSummary payload =
     (if payload = [] then (''(empty)'', False)
      else let lines0 = split payload crlf;
               lines1 = (if length lines0 = 0 then split payload [LF] else lines0);
               line = lines1 ! 0;
               isErr = first_line_error line
           in if has_prefix line ''HTTP/1.'' then (line, isErr)
              else let parts = Go_Strings.fields line in
                if 2 \<le> length parts \<and>
                   (parts ! 0 = ''GET'' \<or> parts ! 0 = ''POST'' \<or> parts ! 0 = ''PUT'' \<or> parts ! 0 = ''DELETE'')
                then (parts ! 0 @ '' '' @ parts ! 1, isErr)
                else if 60 < length line then (take 60 line @ ''...'', isErr)
                else (line, isErr))"

section \<open>The event list\<close>

record event_summary =
  es_index :: int
  es_service :: bytes
  es_direction :: bytes
  es_summary :: bytes
  es_preview :: bytes
  es_payload :: bytes
  es_is_error :: bool
  es_timestamp :: u64
  es_pid :: u32
  es_tid :: u32
  es_comm :: bytes

definition maxPayloadBytes :: nat where "maxPayloadBytes = 2048"

definition summarize :: "nat \<Rightarrow> ioevent \<Rightarrow> event_summary" where
  "summarize i e =
     (let payload = clamped_payload e;
          svc0 = comm_text e;
          svc = (if svc0 = [] then ''unknown'' else svc0);
          dir = (if IsWrite e = 0 then ''in'' else ''out'');
          (sum, isErr) = httpSummary payload;
          preview = (if 120 < length payload then take 120 payload @ ''...'' else payload);
          full = (if maxPayloadBytes < length payload then take maxPayloadBytes payload @ ''...'' else payload)
      in \<lparr>es_index = int i, es_service = svc, es_direction = dir, es_summary = sum,
          es_preview = replace_all preview crlf '' '', es_payload = full, es_is_error = isErr,
          es_timestamp = TimestampNs e, es_pid = ucast (drop_bit 32 (PidTgid e)),
          es_tid = ucast (PidTgid e), es_comm = svc\<rparr>)"

fun summarize_from :: "nat \<Rightarrow> ioevent list \<Rightarrow> event_summary list" where
  "summarize_from i [] = []"
| "summarize_from i (e # es) =
     (if IsWrite e = 2 then summarize_from (Suc i) es else summarize i e # summarize_from (Suc i) es)"

definition SummarizeEvents :: "ioevent list \<Rightarrow> event_summary list" where
  "SummarizeEvents events = summarize_from 0 events"

text \<open>The separator is an arrow in UTF-8.\<close>

definition arrow :: bytes where
  "arrow = [CHR '' '', CHR 0xE2, CHR 0x86, CHR 0x92, CHR '' '']"

fun flow_parts :: "ioevent list \<Rightarrow> bytes list" where
  "flow_parts [] = []"
| "flow_parts (e # es) =
     (let payload = clamped_payload e;
          (sum, isErr) = httpSummary payload
      in if IsWrite e = 2 \<or> payload = [] then flow_parts es
         else (let label = comm_text e @ '' '' @ sum in if isErr then label @ '' [ERROR]'' else label)
              # flow_parts es)"

definition FlowDescription :: "ioevent list \<Rightarrow> bytes" where
  "FlowDescription events = join arrow (flow_parts events)"

section \<open>Correlations\<close>

record correlation =
  co_index :: int
  co_pid :: u32
  co_tid :: u32
  co_comm :: bytes
  co_service :: bytes
  co_timestamp :: u64

definition correlation_of :: "event_summary \<Rightarrow> correlation" where
  "correlation_of e =
     \<lparr>co_index = es_index e, co_pid = es_pid e, co_tid = es_tid e, co_comm = es_comm e,
      co_service = es_service e, co_timestamp = es_timestamp e\<rparr>"

definition BuildCorrelations :: "event_summary list \<Rightarrow> int \<Rightarrow> correlation option" where
  "BuildCorrelations events = fold (\<lambda>e out. out(es_index e \<mapsto> correlation_of e)) events Map.empty"

definition middle_dot :: bytes where
  "middle_dot = [CHR '' '', CHR 0xC2, CHR 0xB7, CHR '' '']"

definition FormatHint :: "correlation \<Rightarrow> bytes" where
  "FormatHint c =
     (let comm = (if co_comm c = [] then co_service c else co_comm c)
      in ''Event '' @ itoa_int (co_index c + 1) @ middle_dot @ ''pid='' @ itoa (unat (co_pid c))
         @ middle_dot @ ''comm='' @ comm)"

text \<open>The line that \<^verbatim>\<open>LogSeek\<close> writes to the log, when it writes one.\<close>

definition LogSeek :: "int \<Rightarrow> (int \<Rightarrow> correlation option) \<Rightarrow> bytes option" where
  "LogSeek index cor =
     (case cor index of
        None \<Rightarrow> None
      | Some c \<Rightarrow> Some (''delve-sync: '' @ FormatHint c @ '' tid='' @ itoa (unat (co_tid c))
          @ '' ts='' @ itoa (unat (co_timestamp c))))"

section \<open>Lemmas\<close>

lemma summarize_index [simp]: "es_index (summarize i e) = int i"
  by (simp add: summarize_def Let_def split: prod.split)

lemma summarize_from_eq:
  "summarize_from i es =
     map (\<lambda>k. summarize (i + k) (es ! k)) (filter (\<lambda>k. IsWrite (es ! k) \<noteq> 2) [0..<length es])"
proof (induction i es rule: summarize_from.induct)
  case (2 i e es)
  have "[0..<length (e # es)] = 0 # map Suc [0..<length es]"
    by (simp add: upt_conv_Cons map_Suc_upt del: upt_Suc)
  with 2 show ?case by (simp add: filter_map comp_def del: upt_Suc)
qed simp

lemma BuildCorrelations_map_of:
  "BuildCorrelations es = map_of (rev (map (\<lambda>e. (es_index e, correlation_of e)) es))"
proof -
  have "fold (\<lambda>e out. out(es_index e \<mapsto> correlation_of e)) es m =
      m ++ map_of (rev (map (\<lambda>e. (es_index e, correlation_of e)) es))" for m
    by (induction es arbitrary: m) (auto simp: map_add_def fun_eq_iff split: option.splits)
  then show ?thesis by (simp add: BuildCorrelations_def)
qed

section \<open>Properties\<close>

text \<open>The timeline view of a snapshot is total (no length field panics), skips exactly the
  scheduler markers, keeps the order, and each entry carries the index of its event.\<close>

theorem summaries_index_events:
  "SummarizeEvents events =
     map (\<lambda>k. summarize k (events ! k)) (filter (\<lambda>k. IsWrite (events ! k) \<noteq> 2) [0..<length events]) \<and>
   sorted_wrt (<) (map es_index (SummarizeEvents events))"
  by (simp add: SummarizeEvents_def summarize_from_eq comp_def sorted_wrt_map sorted_wrt_filter)

text \<open>Seeking to an index correlates with the event at that index: the table built from a
  snapshot's summaries has an entry for exactly the events that are not markers, and it gives
  the process, thread and time of that very event.\<close>

theorem correlations_match_events:
  "BuildCorrelations (SummarizeEvents events) k =
     (if 0 \<le> k \<and> k < int (length events) \<and> IsWrite (events ! nat k) \<noteq> 2
      then Some (correlation_of (summarize (nat k) (events ! nat k))) else None)"
proof -
  let ?es = "SummarizeEvents events"
  have d: "distinct (map es_index ?es)"
    using strict_sorted_iff summarize_from_eq
    by (simp add: SummarizeEvents_def summarize_from_eq comp_def distinct_map inj_on_def)
  have "map_of (rev (map (\<lambda>e. (es_index e, correlation_of e)) ?es)) = map_of (map (\<lambda>e. (es_index e, correlation_of e)) ?es)"
    using d by (subst map_of_inject_set) (auto simp: rev_map [symmetric] comp_def)
  then have lookup: "BuildCorrelations ?es k = Some c \<longleftrightarrow> (\<exists>e \<in> set ?es. es_index e = k \<and> correlation_of e = c)" for c
    using d by (auto simp: BuildCorrelations_map_of comp_def)
  have mem: "e \<in> set ?es \<longleftrightarrow> (\<exists>j < length events. IsWrite (events ! j) \<noteq> 2 \<and> e = summarize j (events ! j))" for e
    by (auto simp: SummarizeEvents_def summarize_from_eq)
  show ?thesis
  proof (cases "0 \<le> k \<and> k < int (length events) \<and> IsWrite (events ! nat k) \<noteq> 2")
    case True
    then have "summarize (nat k) (events ! nat k) \<in> set ?es" unfolding mem by (intro exI [of _ "nat k"]) auto
    then have "BuildCorrelations ?es k = Some (correlation_of (summarize (nat k) (events ! nat k)))"
      unfolding lookup by (rule bexI [rotated]) (use True in simp)
    then show ?thesis using True by simp
  next
    case False
    have "BuildCorrelations ?es k \<noteq> Some c" for c
      using False unfolding lookup by (auto simp: mem)
    then show ?thesis using False by auto
  qed
qed

end
