(* ===== verification/Debugger.thy ===== *)
theory Debugger
  imports Time_Freeze Summary
begin

text \<open>
  The debugger API (dre-replay-cli/internal/debugger/debugger.go).  Go's \<^verbatim>\<open>Controller\<close> interface
  is a record of operations on an abstract state; its contract is the locale \<open>controller\<close>, in
  which the facts about the API are proved once, for every implementation.
\<close>

section \<open>The controller interface\<close>

record 's ctrl =
  ctl_cursor :: "'s \<Rightarrow> int"
  ctl_seek :: "int \<Rightarrow> 's \<Rightarrow> int \<times> 's"
  ctl_step :: "int \<Rightarrow> 's \<Rightarrow> int \<times> 's"
  ctl_events :: "'s \<Rightarrow> ioevent list"
  ctl_set_breakpoint :: "int \<Rightarrow> bool \<Rightarrow> 's \<Rightarrow> 's"
  ctl_clear_breakpoints :: "'s \<Rightarrow> 's"
  ctl_stopped_reason :: "int \<Rightarrow> 's \<Rightarrow> bytes"

definition clamp_index :: "nat \<Rightarrow> int \<Rightarrow> int" where
  "clamp_index n i = (let i' = (if i < 0 then 0 else i) in if int n < i' then int n else i')"

locale controller =
  fixes c :: "'s ctrl" and inv :: "'s \<Rightarrow> bool"
  assumes seek_result: "inv s \<Longrightarrow> fst (ctl_seek c i s) = clamp_index (length (ctl_events c s)) i"
    and seek_cursor: "inv s \<Longrightarrow> ctl_cursor c (snd (ctl_seek c i s)) = fst (ctl_seek c i s)"
    and step_seek: "ctl_step c d s = ctl_seek c (ctl_cursor c s + d) s"
    and seek_events: "ctl_events c (snd (ctl_seek c i s)) = ctl_events c s"
    and seek_inv: "inv s \<Longrightarrow> inv (snd (ctl_seek c i s))"
    and break_cursor: "ctl_cursor c (ctl_set_breakpoint c i b s) = ctl_cursor c s"
      "ctl_cursor c (ctl_clear_breakpoints c s) = ctl_cursor c s"
    and break_events: "ctl_events c (ctl_set_breakpoint c i b s) = ctl_events c s"
      "ctl_events c (ctl_clear_breakpoints c s) = ctl_events c s"
    and break_inv: "inv s \<Longrightarrow> inv (ctl_set_breakpoint c i b s)" "inv s \<Longrightarrow> inv (ctl_clear_breakpoints c s)"
    and cursor_range: "inv s \<Longrightarrow> 0 \<le> ctl_cursor c s \<and> ctl_cursor c s \<le> int (length (ctl_events c s))"

section \<open>Requests\<close>

record dbg_server =
  dbg_addr :: bytes
  dbg_time :: "tf_engine option"
  dbg_listener :: "bytes option"

definition debugger_New :: "bytes \<Rightarrow> dbg_server" where
  "debugger_New addr = \<lparr>dbg_addr = addr, dbg_time = None, dbg_listener = None\<rparr>"

definition SetTimeEngine :: "tf_engine option \<Rightarrow> dbg_server \<Rightarrow> dbg_server" where
  "SetTimeEngine eng d = d\<lparr>dbg_time := eng\<rparr>"

definition dbg_Addr :: "dbg_server \<Rightarrow> bytes" where
  "dbg_Addr d = (case dbg_listener d of Some a \<Rightarrow> a | None \<Rightarrow> dbg_addr d)"

text \<open>\<open>listen\<close> gives the bound address, which differs from the requested one for port 0.\<close>

definition dbg_Start :: "(bytes \<Rightarrow> bytes option) \<Rightarrow> dbg_server \<Rightarrow> dbg_server option" where
  "dbg_Start listen d = (case listen (dbg_addr d) of None \<Rightarrow> None | Some a \<Rightarrow> Some (d\<lparr>dbg_listener := Some a\<rparr>))"

definition dbg_Stop :: "dbg_server \<Rightarrow> dbg_server" where
  "dbg_Stop d = d\<lparr>dbg_listener := None\<rparr>"

text \<open>The loop of \<^verbatim>\<open>runToIOEvent\<close> over the remaining events, \<open>i\<close> being the index of the first.\<close>

fun run_to :: "'s ctrl \<Rightarrow> int \<Rightarrow> ioevent list \<Rightarrow> 's \<Rightarrow> int \<times> 's" where
  "run_to c i [] s = (ctl_cursor c s, s)"
| "run_to c i (evt # evts) s =
     (if ctl_stopped_reason c i s = ''breakpoint'' then ctl_seek c i s
      else if IsWrite evt \<le> 1 then ctl_seek c i s
      else run_to c (i + 1) evts s)"

definition runToIOEvent :: "'s ctrl \<Rightarrow> int \<Rightarrow> 's \<Rightarrow> int \<times> 's" where
  "runToIOEvent c start s = run_to c (start + 1) (drop (nat (start + 1)) (ctl_events c s)) s"

record dbg_request =
  rq_method :: bytes
  rq_index :: int
  rq_enabled :: bool

record dbg_response =
  rs_index :: int
  rs_total :: nat
  rs_event :: "ioevent option"
  rs_timestamp :: "u64 option"
  rs_pid :: "u32 option"
  rs_tid :: "u32 option"
  rs_comm :: "bytes option"
  rs_stopped_reason :: "bytes option"
  rs_clock_index :: "nat option"
  rs_frozen :: "u64 option"

definition move :: "'s ctrl \<Rightarrow> bytes \<Rightarrow> int \<Rightarrow> bool \<Rightarrow> 's \<Rightarrow> int \<times> 's" where
  "move c meth seekIndex enabled s =
     (if meth = ''StepForward'' then ctl_step c 1 s
      else if meth = ''StepBackward'' then ctl_step c (-1) s
      else if meth = ''Seek'' then ctl_seek c seekIndex s
      else if meth = ''GetState'' then (ctl_cursor c s, s)
      else if meth = ''RunToEvent'' then runToIOEvent c (ctl_cursor c s) s
      else if meth = ''SetBreakpoint'' then
        (let s' = ctl_set_breakpoint c seekIndex enabled s in (ctl_cursor c s', s'))
      else if meth = ''ClearBreakpoints'' then
        (let s' = ctl_clear_breakpoints c s in (ctl_cursor c s', s'))
      else (ctl_cursor c s, s))"

text \<open>\<open>world\<close> reads the process environment, where the frozen time is kept.\<close>

definition dispatch ::
  "'s ctrl \<Rightarrow> ('s \<Rightarrow> tf_world) \<Rightarrow> dbg_server \<Rightarrow> bytes \<Rightarrow> int \<Rightarrow> bool \<Rightarrow> 's \<Rightarrow> dbg_response \<times> 's" where
  "dispatch c world d meth seekIndex enabled s =
     (let events = ctl_events c s;
          (idx, s') = move c meth seekIndex enabled s;
          evt = (if 0 \<le> idx \<and> idx < int (length events) then Some (events ! nat idx) else None);
          reason = ctl_stopped_reason c idx s'
      in (\<lparr>rs_index = idx, rs_total = length events, rs_event = evt,
           rs_timestamp = map_option TimestampNs evt,
           rs_pid = map_option (\<lambda>e. ucast (drop_bit 32 (PidTgid e))) evt,
           rs_tid = map_option (\<lambda>e. ucast (PidTgid e)) evt,
           rs_comm = (case evt of None \<Rightarrow> None | Some e \<Rightarrow> if comm_text e \<noteq> [] then Some (comm_text e) else None),
           rs_stopped_reason = (if reason \<noteq> [] then Some reason else None),
           rs_clock_index = map_option (ClockIndex idx) (dbg_time d),
           rs_frozen = map_option (\<lambda>_. FrozenTimestampNs (world s')) (dbg_time d)\<rparr>, s'))"

text \<open>A connection: the requests decoded from it, one response each.\<close>

fun dbg_handle ::
  "'s ctrl \<Rightarrow> ('s \<Rightarrow> tf_world) \<Rightarrow> dbg_server \<Rightarrow> dbg_request list \<Rightarrow> 's \<Rightarrow> dbg_response list \<times> 's" where
  "dbg_handle c world d [] s = ([], s)"
| "dbg_handle c world d (rq # rqs) s =
     (let (resp, s') = dispatch c world d (rq_method rq) (rq_index rq) (rq_enabled rq) s;
          (resps, s'') = dbg_handle c world d rqs s'
      in (resp # resps, s''))"

section \<open>What every controller gives\<close>

text \<open>Whether a run stops at index \<open>i\<close>.\<close>

definition stops_at :: "'s ctrl \<Rightarrow> 's \<Rightarrow> nat \<Rightarrow> bool" where
  "stops_at c s i =
     (i < length (ctl_events c s) \<and>
      (ctl_stopped_reason c (int i) s = ''breakpoint'' \<or> IsWrite (ctl_events c s ! i) \<le> 1))"

lemma run_to_spec:
  assumes "0 \<le> i"
  shows "run_to c i (drop (nat i) (ctl_events c s)) s =
    (case find (stops_at c s) [nat i..<length (ctl_events c s)] of
       None \<Rightarrow> (ctl_cursor c s, s) | Some k \<Rightarrow> ctl_seek c (int k) s)"
  using assms
proof (induction "length (ctl_events c s) - nat i" arbitrary: i)
  case 0
  then show ?case by simp
next
  case (Suc n)
  let ?es = "ctl_events c s"
  have i: "nat i < length ?es" using Suc.hyps(2) by simp
  then have d: "drop (nat i) ?es = ?es ! nat i # drop (nat (i + 1)) ?es"
    using Suc.prems by (simp add: Cons_nth_drop_Suc nat_add_distrib)
  have u: "[nat i..<length ?es] = nat i # [nat (i + 1)..<length ?es]"
    using i Suc.prems by (simp add: upt_conv_Cons nat_add_distrib)
  have "n = length ?es - nat (i + 1)" using Suc.hyps(2) Suc.prems by (simp add: nat_add_distrib)
  from Suc.hyps(1) [OF this] show ?case
    using Suc.prems i by (simp add: d u stops_at_def)
qed

lemma clamp_index_range: "0 \<le> clamp_index n i \<and> clamp_index n i \<le> int n"
  by (simp add: clamp_index_def Let_def)

lemma clamp_index_id [simp]: "0 \<le> i \<Longrightarrow> i \<le> int n \<Longrightarrow> clamp_index n i = i"
  by (simp add: clamp_index_def Let_def)

context controller
begin

lemma run_to_result:
  "inv s \<Longrightarrow> inv (snd (runToIOEvent c (ctl_cursor c s) s)) \<and>
   ctl_events c (snd (runToIOEvent c (ctl_cursor c s) s)) = ctl_events c s \<and>
   ctl_cursor c (snd (runToIOEvent c (ctl_cursor c s) s)) = fst (runToIOEvent c (ctl_cursor c s) s)"
proof -
  assume i: "inv s"
  then have "0 \<le> ctl_cursor c s + 1" using cursor_range by (simp add: add_nonneg_nonneg)
  from run_to_spec [OF this, of c s] i show ?thesis
    by (simp add: runToIOEvent_def seek_inv seek_events seek_cursor split: option.split)
qed

lemma move_ok:
  assumes "inv s" "move c meth i b s = (idx, s')"
  shows "inv s' \<and> ctl_events c s' = ctl_events c s \<and> ctl_cursor c s' = idx"
  using assms run_to_result [OF assms(1)]
  by (auto simp: move_def step_seek seek_inv seek_events seek_cursor break_cursor break_events break_inv
      Let_def split: if_splits; metis fst_conv snd_conv seek_cursor seek_events seek_inv)

lemma run_to_first:
  assumes "inv s"
  shows "fst (runToIOEvent c (ctl_cursor c s) s) =
    (case find (stops_at c s) [nat (ctl_cursor c s + 1)..<length (ctl_events c s)] of
       None \<Rightarrow> ctl_cursor c s | Some k \<Rightarrow> int k)"
proof -
  have "0 \<le> ctl_cursor c s + 1" using cursor_range [OF assms] by (simp add: add_nonneg_nonneg)
  moreover have "k \<le> length (ctl_events c s)"
    if "find (stops_at c s) [nat (ctl_cursor c s + 1)..<length (ctl_events c s)] = Some k" for k
    using that by (auto simp: find_Some_iff stops_at_def intro: less_imp_le)
  ultimately show ?thesis
    using run_to_spec [of "ctl_cursor c s + 1" c s] seek_result [OF assms]
    by (simp add: runToIOEvent_def split: option.split)
qed

lemma dispatch_ok:
  assumes "inv s" "dispatch c world d meth i b s = (resp, s')"
  shows "inv s' \<and> ctl_events c s' = ctl_events c s \<and> rs_index resp = ctl_cursor c s' \<and>
    rs_total resp = length (ctl_events c s) \<and> 0 \<le> rs_index resp \<and> rs_index resp \<le> int (rs_total resp) \<and>
    rs_event resp = (if rs_index resp < int (rs_total resp) then Some (ctl_events c s ! nat (rs_index resp)) else None)"
proof -
  obtain idx where m: "move c meth i b s = (idx, s')"
    using assms(2) by (auto simp: dispatch_def Let_def split: prod.splits)
  note ok = move_ok [OF assms(1) m]
  then have "0 \<le> idx" "idx \<le> int (length (ctl_events c s))" using cursor_range by metis+
  with ok assms(2) show ?thesis by (auto simp: dispatch_def m Let_def)
qed

lemma handle_ok:
  "inv s \<Longrightarrow> dbg_handle c world d rqs s = (resps, s') \<Longrightarrow>
   inv s' \<and> ctl_events c s' = ctl_events c s \<and> length resps = length rqs \<and>
   (\<forall>r \<in> set resps. 0 \<le> rs_index r \<and> rs_index r \<le> int (rs_total r) \<and>
      rs_total r = length (ctl_events c s) \<and>
      rs_event r = (if rs_index r < int (rs_total r) then Some (ctl_events c s ! nat (rs_index r)) else None))"
proof (induction rqs arbitrary: s resps)
  case (Cons rq rqs)
  obtain resp s1 where d: "dispatch c world d (rq_method rq) (rq_index rq) (rq_enabled rq) s = (resp, s1)"
    by fastforce
  obtain resps1 where h: "dbg_handle c world d rqs s1 = (resps1, s')" and r: "resps = resp # resps1"
    using Cons.prems(2) by (auto simp: d Let_def split: prod.splits)
  from dispatch_ok [OF Cons.prems(1) d] have ok: "inv s1" "ctl_events c s1 = ctl_events c s"
    "rs_total resp = length (ctl_events c s)" "0 \<le> rs_index resp" "rs_index resp \<le> int (rs_total resp)"
    "rs_event resp = (if rs_index resp < int (rs_total resp) then Some (ctl_events c s ! nat (rs_index resp)) else None)"
    by blast+
  from Cons.IH [OF ok(1) h] ok r show ?case by auto
qed simp

lemma forward_backward:
  assumes "inv s" "ctl_cursor c s < int (length (ctl_events c s))"
  shows "fst (ctl_step c (-1) (snd (ctl_step c 1 s))) = ctl_cursor c s"
  using assms cursor_range [OF assms(1)]
  by (simp add: step_seek seek_result seek_cursor seek_inv seek_events)

end

end
