(* ===== verification/Go_Net.thy ===== *)
theory Go_Net
  imports Go_Strings
begin

text \<open>
  The parts of Go's \<^verbatim>\<open>net\<close> package that the programs compute with: addresses of a host and a port.
\<close>

text \<open>\<^verbatim>\<open>net.SplitHostPort\<close>.\<close>

definition SplitHostPort :: "bytes \<Rightarrow> (bytes \<times> bytes) option" where
  "SplitHostPort hostport =
     (case last_index hostport '':'' of
        None \<Rightarrow> None
      | Some i \<Rightarrow>
          (let bracket = (hostport \<noteq> [] \<and> hd hostport = CHR ''['');
               split = (if bracket
                 then (case index_of hostport '']'' of
                         None \<Rightarrow> None
                       | Some close \<Rightarrow>
                           if close + 1 = i then Some (take (close - 1) (drop 1 hostport), 1, close + 1) else None)
                 else (if contains (take i hostport) '':'' then None else Some (take i hostport, 0, 0)))
           in case split of
                None \<Rightarrow> None
              | Some (host, j, k) \<Rightarrow>
                  if contains (drop j hostport) ''['' \<or> contains (drop k hostport) '']'' then None
                  else Some (host, drop (i + 1) hostport)))"

definition JoinHostPort :: "bytes \<Rightarrow> bytes \<Rightarrow> bytes" where
  "JoinHostPort host port =
     (if contains host '':'' then ''['' @ host @ '']:'' @ port else host @ '':'' @ port)"

end
