(* ===== verification/Session.thy ===== *)
theory Session
  imports Debugger Replay_Proxy Archive Go_Net
begin

text \<open>
  The replay session (dre-replay-cli/internal/orchestrator/session.go): it owns the cursor and
  keeps the proxy and the frozen clock on it, starts and stops the helpers, and is the
  controller behind the debugger API.  The replay configuration is
  dre-replay-cli/internal/config.
\<close>

section \<open>Configuration\<close>

record replay_config =
  rc_proxy_addr :: bytes
  rc_debug_addr :: bytes
  rc_services :: "service_rule list"
  rc_freeze_enabled :: bool
  rc_shim_path :: bytes

definition default_config :: replay_config where
  "default_config =
     \<lparr>rc_proxy_addr = ''127.0.0.1:18080'', rc_debug_addr = ''127.0.0.1:19090'', rc_services = [],
      rc_freeze_enabled = False, rc_shim_path = ''bin/clock_shim.so''\<rparr>"

text \<open>The YAML decoder fills in a configuration; what it leaves after an error is in the
  second component.\<close>

definition config_Load ::
  "(bytes \<Rightarrow> 'err + bytes) \<Rightarrow> (bytes \<Rightarrow> replay_config \<Rightarrow> replay_config \<times> 'err option) \<Rightarrow> bytes \<Rightarrow>
   replay_config \<times> 'err option" where
  "config_Load readFile unmarshal path =
     (let cfg = default_config in
      if path = [] then (cfg, None)
      else case readFile path of
        Inl err \<Rightarrow> (cfg, Some err)
      | Inr b \<Rightarrow>
          (case unmarshal b cfg of (cfg', Some err) \<Rightarrow> (cfg', Some err) | (cfg', None) \<Rightarrow> (cfg', None)))"

section \<open>The session\<close>

record session =
  se_snap :: snapshot
  se_config :: replay_config
  se_proxy_override :: bytes
  se_binary :: bytes
  se_delve_addr :: bytes
  se_cursor :: int
  se_breakpoints :: "int set"
  se_proxy :: "multi option"
  se_dbg :: "dbg_server option"
  se_time :: "tf_engine option"
  se_delve :: "bool option"
  se_cor :: "int \<Rightarrow> correlation option"
  se_target :: "bytes list option"
  se_stopped :: bool
  se_world :: tf_world
  se_log :: "bytes list"

text \<open>\<open>se_delve\<close> is the Delve bridge and whether it has a process; \<open>se_target\<close> the
  environment the target was started with; \<open>se_world\<close> and \<open>se_log\<close> the process environment
  with its files, and the lines logged by seeks.\<close>

definition session_New ::
  "snapshot \<Rightarrow> replay_config \<Rightarrow> bytes \<Rightarrow> bytes \<Rightarrow> bytes \<Rightarrow> tf_world \<Rightarrow> session" where
  "session_New snap cfg proxyOverride binary delveAddr w =
     \<lparr>se_snap = snap, se_config = cfg, se_proxy_override = proxyOverride, se_binary = binary,
      se_delve_addr = (if delveAddr = [] then ''127.0.0.1:2345'' else delveAddr),
      se_cursor = 0, se_breakpoints = {}, se_proxy = None, se_dbg = None, se_time = None,
      se_delve = None, se_cor = BuildCorrelations (SummarizeEvents (snap_events snap)),
      se_target = None, se_stopped = False, se_world = w, se_log = []\<rparr>"

definition Cursor :: "session \<Rightarrow> int" where
  "Cursor s = se_cursor s"

definition session_Events :: "session \<Rightarrow> ioevent list" where
  "session_Events s = snap_events (se_snap s)"

definition onCursorChange :: "(bytes \<Rightarrow> bool) \<Rightarrow> session \<Rightarrow> session" where
  "onCursorChange can_write s =
     (let s1 = s\<lparr>se_proxy := map_option (SetCursor (se_cursor s)) (se_proxy s)\<rparr>
      in case se_time s1 of
           None \<Rightarrow> s1
         | Some eng \<Rightarrow>
             s1\<lparr>se_world := SyncToCursor can_write (se_cursor s1) (session_Events s1) eng (se_world s1)\<rparr>)"

definition Seek :: "(bytes \<Rightarrow> bool) \<Rightarrow> int \<Rightarrow> session \<Rightarrow> int \<times> session" where
  "Seek can_write index s =
     (let index1 = (if index < 0 then 0 else index);
          n = int (length (session_Events s));
          index2 = (if n < index1 then n else index1);
          s1 = onCursorChange can_write (s\<lparr>se_cursor := index2\<rparr>);
          s2 = s1\<lparr>se_log := se_log s1 @ (case LogSeek index2 (se_cor s1) of None \<Rightarrow> [] | Some line \<Rightarrow> [line])\<rparr>
      in (se_cursor s2, s2))"

definition Step :: "(bytes \<Rightarrow> bool) \<Rightarrow> int \<Rightarrow> session \<Rightarrow> int \<times> session" where
  "Step can_write delta s = Seek can_write (Cursor s + delta) s"

definition SetBreakpoint :: "int \<Rightarrow> bool \<Rightarrow> session \<Rightarrow> session" where
  "SetBreakpoint index enabled s =
     (if enabled then s\<lparr>se_breakpoints := insert index (se_breakpoints s)\<rparr>
      else s\<lparr>se_breakpoints := se_breakpoints s - {index}\<rparr>)"

definition ClearBreakpoints :: "session \<Rightarrow> session" where
  "ClearBreakpoints s = s\<lparr>se_breakpoints := {}\<rparr>"

definition StoppedReason :: "int \<Rightarrow> session \<Rightarrow> bytes" where
  "StoppedReason idx s = (if idx \<in> se_breakpoints s then ''breakpoint'' else [])"

definition session_ctrl :: "(bytes \<Rightarrow> bool) \<Rightarrow> session ctrl" where
  "session_ctrl can_write =
     \<lparr>ctl_cursor = Cursor, ctl_seek = Seek can_write, ctl_step = Step can_write,
      ctl_events = session_Events, ctl_set_breakpoint = SetBreakpoint,
      ctl_clear_breakpoints = ClearBreakpoints, ctl_stopped_reason = StoppedReason\<rparr>"

section \<open>Starting and stopping\<close>

datatype session_error = ProxyError start_error | DebuggerError | DelveStart | DelveNotListening

text \<open>What the environment answers: which addresses can be listened on (and the address that
  is then bound), which files can be written, whether the target and the command of Delve start, and the
  clock readings and outcomes of the attempts to connect to an address.\<close>

record start_env =
  st_listen :: "bytes \<Rightarrow> bytes option"
  st_can_write :: "bytes \<Rightarrow> bool"
  st_environ :: "bytes list"
  st_target_ok :: bool
  st_delve_ok :: "bytes list \<Rightarrow> bool"
  st_now :: instant
  st_polls :: "bytes \<Rightarrow> (instant \<times> bool) list"

fun poll_until :: "instant \<Rightarrow> (instant \<times> bool) list \<Rightarrow> bool" where
  "poll_until deadline [] = False"
| "poll_until deadline ((now, connected) # polls) =
     (if now < deadline then (if connected then True else poll_until deadline polls) else False)"

definition waitForTCP :: "instant \<Rightarrow> instant \<Rightarrow> (instant \<times> bool) list \<Rightarrow> bool" where
  "waitForTCP now timeout polls = poll_until (now + timeout) polls"

definition delve_command :: "bytes \<Rightarrow> bytes \<Rightarrow> bytes list" where
  "delve_command binary listenAddr =
     [''dlv'', ''exec'', binary, ''--headless'', ''--listen='' @ listenAddr, ''--api-version=2'', ''--accept-multiclient'']"

definition StartHeadless :: "start_env \<Rightarrow> bytes \<Rightarrow> bytes \<Rightarrow> session_error option \<times> bool" where
  "StartHeadless env binary addr =
     (let listenAddr = (if addr = [] then ''127.0.0.1:2345'' else addr) in
      if \<not> st_delve_ok env (delve_command binary listenAddr) then (Some DelveStart, False)
      else
        let (host, port) = (case SplitHostPort listenAddr of None \<Rightarrow> (''127.0.0.1'', ''2345'') | Some hp \<Rightarrow> hp)
        in if \<not> waitForTCP (st_now env) (2 * second) (st_polls env (JoinHostPort host port))
           then (Some DelveNotListening, False)
           else (None, True))"

definition startTarget :: "start_env \<Rightarrow> session \<Rightarrow> session" where
  "startTarget env s =
     (let base = st_environ env;
          ts = (case se_time s of None \<Rightarrow> 0 | Some _ \<Rightarrow> FrozenTimestampNs (se_world s));
          vars = (if rc_freeze_enabled (se_config s) \<and> rc_shim_path (se_config s) \<noteq> []
                  then base @ [''LD_PRELOAD='' @ rc_shim_path (se_config s)]
                    @ (if 0 < ts then [''DRE_FROZEN_TIME_NS='' @ itoa (unat ts)] else [])
                  else base)
      in if st_target_ok env then s\<lparr>se_target := Some vars\<rparr> else s)"

definition start_helpers :: "start_env \<Rightarrow> session \<Rightarrow> session_error option \<times> session" where
  "start_helpers env s =
     (if se_binary s = [] then (None, s)
      else let s1 = startTarget env s;
               s2 = (if se_delve s1 = None then s1\<lparr>se_delve := Some False\<rparr> else s1)
           in case StartHeadless env (se_binary s2) (se_delve_addr s2) of (err, running) \<Rightarrow> (err, s2\<lparr>se_delve := Some running\<rparr>))"

definition session_Start :: "start_env \<Rightarrow> session \<Rightarrow> session_error option \<times> session" where
  "session_Start env s =
     (let cfg = se_config s;
          defaultAddr = (if se_proxy_override s \<noteq> [] then se_proxy_override s else rc_proxy_addr cfg);
          (err, proxy) = multi_Start (st_listen env)
                           (NewMulti defaultAddr (rc_services cfg) (session_Events s));
          s1 = s\<lparr>se_proxy := Some proxy\<rparr>
      in case err of
        Some e \<Rightarrow> (Some (ProxyError e), s1)
      | None \<Rightarrow>
          (let eng = NewEngine (snap_clock (se_snap s1)) (rc_freeze_enabled cfg) (rc_shim_path cfg) (se_world s1);
               s2 = s1\<lparr>se_time := Some eng,
                       se_world := (if rc_freeze_enabled cfg
                                    then SyncToCursor (st_can_write env) 0 (session_Events s1) eng (se_world s1)
                                    else se_world s1)\<rparr>;
               d = SetTimeEngine (Some eng) (debugger_New (rc_debug_addr cfg))
           in case dbg_Start (st_listen env) d of
             None \<Rightarrow> (Some DebuggerError, s2\<lparr>se_dbg := Some d\<rparr>)
           | Some d' \<Rightarrow> start_helpers env (s2\<lparr>se_dbg := Some d'\<rparr>)))"

datatype stop_action = StopDebugger | StopDelve | KillTarget | CloseProxy "bytes list"

definition session_Stop :: "session \<Rightarrow> stop_action list \<times> session" where
  "session_Stop s =
     (if se_stopped s then ([], s)
      else ((case se_dbg s of None \<Rightarrow> [] | Some _ \<Rightarrow> [StopDebugger])
            @ (case se_delve s of None \<Rightarrow> [] | Some _ \<Rightarrow> [StopDelve])
            @ (case se_target s of None \<Rightarrow> [] | Some _ \<Rightarrow> [KillTarget])
            @ (case se_proxy s of None \<Rightarrow> [] | Some p \<Rightarrow> [CloseProxy (multi_Stop p)]),
            s\<lparr>se_stopped := True, se_dbg := map_option dbg_Stop (se_dbg s)\<rparr>))"

definition DebugAddr :: "session \<Rightarrow> bytes" where
  "DebugAddr s = (case se_dbg s of Some d \<Rightarrow> dbg_Addr d | None \<Rightarrow> rc_debug_addr (se_config s))"

definition ProxyAddrs :: "session \<Rightarrow> bytes list" where
  "ProxyAddrs s = (case se_proxy s of None \<Rightarrow> [] | Some p \<Rightarrow> multi_Addrs p)"

definition DelveAddr :: "session \<Rightarrow> bytes" where
  "DelveAddr s = se_delve_addr s"

definition session_FrozenTimestampNs :: "session \<Rightarrow> u64" where
  "session_FrozenTimestampNs s = (case se_time s of None \<Rightarrow> 0 | Some _ \<Rightarrow> FrozenTimestampNs (se_world s))"

section \<open>The invariant\<close>

text \<open>The cursor is inside the recording, and the proxy follows it over the same events.\<close>

definition session_inv :: "session \<Rightarrow> bool" where
  "session_inv s =
     (0 \<le> se_cursor s \<and> se_cursor s \<le> int (length (session_Events s)) \<and>
      (\<forall>p. se_proxy s = Some p \<longrightarrow> mu_cursor p = se_cursor s \<and> mu_events p = session_Events s))"

lemma Seek_eq:
  "Seek can_write i s = (r, s') \<Longrightarrow>
   r = clamp_index (length (session_Events s)) i \<and> se_cursor s' = r \<and> session_Events s' = session_Events s \<and>
   se_breakpoints s' = se_breakpoints s \<and> se_proxy s' = map_option (SetCursor r) (se_proxy s) \<and>
   se_time s' = se_time s \<and>
   se_world s' = (case se_time s of None \<Rightarrow> se_world s
     | Some eng \<Rightarrow> SyncToCursor can_write r (session_Events s) eng (se_world s))"
  by (auto simp: Seek_def Let_def onCursorChange_def session_Events_def clamp_index_def split: option.splits)

lemma session_inv_Seek [wf_intros]: "session_inv s \<Longrightarrow> session_inv (snd (Seek can_write i s))"
proof -
  assume inv: "session_inv s"
  obtain r s' where r: "Seek can_write i s = (r, s')" by fastforce
  from Seek_eq [OF r] inv clamp_index_range [of "length (session_Events s)" i] show ?thesis
    by (auto simp: session_inv_def r SetCursor_def)
qed

interpretation session_controller: controller "session_ctrl can_write" session_inv for can_write
proof
  fix s i
  obtain r s' where r: "Seek can_write i s = (r, s')" by fastforce
  note seek = Seek_eq [OF r]
  show "fst (ctl_seek (session_ctrl can_write) i s)
      = clamp_index (length (ctl_events (session_ctrl can_write) s)) i"
    using seek by (simp add: session_ctrl_def r)
  show "ctl_cursor (session_ctrl can_write) (snd (ctl_seek (session_ctrl can_write) i s))
      = fst (ctl_seek (session_ctrl can_write) i s)"
    using seek by (simp add: session_ctrl_def r Cursor_def)
  show "ctl_events (session_ctrl can_write) (snd (ctl_seek (session_ctrl can_write) i s))
      = ctl_events (session_ctrl can_write) s"
    using seek by (simp add: session_ctrl_def r)
  show "session_inv s \<Longrightarrow> session_inv (snd (ctl_seek (session_ctrl can_write) i s))"
    by (simp add: session_ctrl_def session_inv_Seek)
qed (auto simp: session_ctrl_def Cursor_def Step_def SetBreakpoint_def ClearBreakpoints_def
    session_inv_def session_Events_def)

lemma session_ctrl_simps [simp]:
  "ctl_cursor (session_ctrl can_write) s = se_cursor s"
  "ctl_events (session_ctrl can_write) = session_Events"
  "ctl_step (session_ctrl can_write) = Step can_write"
  "ctl_stopped_reason (session_ctrl can_write) = StoppedReason"
  by (auto simp: session_ctrl_def Cursor_def)

lemma listen_services_ok:
  "listen_services listen svcs m = (None, m') \<Longrightarrow>
   mu_events m' = mu_events m \<and> mu_cursor m' = mu_cursor m \<and>
   map snd (mu_listeners m') = map snd (mu_listeners m) @ map rule_remote_host svcs"
proof (induction svcs arbitrary: m)
  case (Cons svc svcs)
  then show ?case by (fastforce simp: Let_def multi_listen_def split: option.splits prod.splits)
qed simp

lemma multi_Start_ok:
  assumes "multi_Start listen (NewMulti addr svcs events) = (None, m)"
  shows "mu_events m = events \<and> mu_cursor m = 0 \<and> mu_listeners m \<noteq> [] \<and>
    map snd (mu_listeners m) = (if addr = [] then [] else [[]]) @ map rule_remote_host svcs"
proof -
  obtain m1 where m1: "(if addr \<noteq> [] then multi_listen listen addr [] (NewMulti addr svcs events)
      else (None, NewMulti addr svcs events)) = (None, m1)"
    and rest: "listen_services listen (mu_services m1) m1 = (None, m)" "mu_listeners m \<noteq> []"
    using assms by (auto simp: multi_Start_def NewMulti_def split: if_splits option.splits prod.splits)
  have "mu_events m1 = events \<and> mu_cursor m1 = 0 \<and> mu_services m1 = svcs \<and>
      map snd (mu_listeners m1) = (if addr = [] then [] else [[]])"
    using m1 by (auto simp: multi_listen_def NewMulti_def split: if_splits option.splits)
  with listen_services_ok [OF rest(1)] rest(2) show ?thesis by simp
qed

lemma start_helpers_frame [frame_simps]:
  "se_proxy (snd (start_helpers env s)) = se_proxy s" "se_dbg (snd (start_helpers env s)) = se_dbg s"
  "se_cursor (snd (start_helpers env s)) = se_cursor s" "se_snap (snd (start_helpers env s)) = se_snap s"
  by (auto simp: start_helpers_def startTarget_def Let_def split: prod.split)

definition two_markers :: session where
  "two_markers = session_New \<lparr>snap_manifest = \<lparr>man_id = [], man_cluster = [], man_nodes = [],
       man_trigger = \<lparr>trig_type = TriggerManual, trig_detail = []\<rparr>, man_captured_at = 0, man_event_count = 3,
       man_checksum = [], man_incident = None\<rparr>,
     snap_events = [zero_event, zero_event\<lparr>IsWrite := 2\<rparr>, zero_event\<lparr>IsWrite := 1\<rparr>],
     snap_graph = \<lparr>vg_nodes = [], vg_edges = []\<rparr>, snap_log = [], snap_clock = [], snap_source = []\<rparr>
     default_config [] [] [] \<lparr>w_env = Map.empty, w_files = Map.empty\<rparr>"

lemma two_markers_inv: "session_inv two_markers"
  by (simp add: two_markers_def session_New_def session_inv_def)

section \<open>Properties\<close>





text \<open>Stepping forward and then backward returns to where one was, except from the end.\<close>

theorem step_forward_backward:
  assumes "session_inv s" "se_cursor s < int (length (session_Events s))"
  shows "fst (Step can_write (-1) (snd (Step can_write 1 s))) = se_cursor s"
  using session_controller.forward_backward [OF assms(1), of can_write] assms(2) by simp

lemma step_forward_backward_witness:
  "fst (Step (\<lambda>_. True) (-1) (snd (Step (\<lambda>_. True) 1 two_markers))) = 0"
  using step_forward_backward [OF two_markers_inv, of "\<lambda>_. True"]
  by (simp add: two_markers_def session_New_def session_Events_def)

text \<open>A seek moves everything at once: the cursor is the requested index cut to the
  recording, the proxy's cursor is the same, and when the clock is frozen the published time is
  the recorded time of that cursor (or unchanged when none was recorded).\<close>

theorem seek_synchronises:
  assumes "Seek can_write i s = (r, s')"
  shows "r = clamp_index (length (session_Events s)) i \<and> Cursor s' = r \<and>
    (\<forall>p'. se_proxy s' = Some p' \<longrightarrow> mu_cursor p' = r) \<and>
    (\<forall>eng. se_time s = Some eng \<longrightarrow>
       session_FrozenTimestampNs s' =
         (if tf_enabled eng \<and> timestampForCursor r (session_Events s) eng \<noteq> 0
          then timestampForCursor r (session_Events s) eng else session_FrozenTimestampNs s))"
proof -
  note seek = Seek_eq [OF assms]
  then have "\<forall>p'. se_proxy s' = Some p' \<longrightarrow> mu_cursor p' = r" by (auto simp: SetCursor_def)
  with seek show ?thesis by (auto simp: Cursor_def session_FrozenTimestampNs_def frozen_sync)
qed

lemma seek_synchronises_witness:
  "Cursor (snd (Seek (\<lambda>_. True) 9 two_markers)) = 3"
proof -
  obtain r s' where r: "Seek (\<lambda>_. True) 9 two_markers = (r, s')" by fastforce
  from seek_synchronises [OF r] show ?thesis unfolding r
    by (simp add: two_markers_def session_New_def session_Events_def clamp_index_def)
qed

text \<open>When a session starts, its proxy listens once on the default address and once for each
  configured service, filtering for that service's host and in the configured order, and it
  serves the snapshot's events.\<close>

theorem start_listens_for_all_services:
  assumes "session_Start env s = (None, s')"
  shows "\<exists>p. se_proxy s' = Some p \<and> mu_events p = session_Events s \<and>
    map snd (mu_listeners p) =
      (if se_proxy_override s = [] \<and> rc_proxy_addr (se_config s) = [] then [] else [[]])
      @ map rule_remote_host (rc_services (se_config s))"
proof -
  let ?addr = "if se_proxy_override s \<noteq> [] then se_proxy_override s else rc_proxy_addr (se_config s)"
  let ?start = "multi_Start (st_listen env) (NewMulti ?addr (rc_services (se_config s)) (session_Events s))"
  obtain err p where p: "?start = (err, p)" by fastforce
  have err: "err = None"
    using assms by (cases err) (simp_all only: session_Start_def Let_def p prod.case option.case, simp)
  obtain s2 where "start_helpers env s2 = (None, s')" "se_proxy s2 = Some p"
    using assms unfolding session_Start_def Let_def p prod.case err option.case(1)
    by (cases "dbg_Start (st_listen env) (SetTimeEngine (Some (NewEngine (snap_clock (se_snap s))
          (rc_freeze_enabled (se_config s)) (rc_shim_path (se_config s)) (se_world s)))
          (debugger_New (rc_debug_addr (se_config s))))") auto
  then have "se_proxy s' = Some p" using frame_simps(1) [of env s2] by simp
  then show ?thesis using multi_Start_ok [OF p [unfolded err]] by auto
qed

definition local_env :: start_env where
  "local_env = \<lparr>st_listen = Some, st_can_write = (\<lambda>_. True), st_environ = [], st_target_ok = True,
     st_delve_ok = (\<lambda>_. True), st_now = 0, st_polls = (\<lambda>_. [])\<rparr>"

lemma start_listens_for_all_services_witness:
  "\<exists>p. se_proxy (snd (session_Start local_env two_markers)) = Some p \<and> map snd (mu_listeners p) = [[]]"
proof -
  have c: "se_config two_markers = default_config" "se_proxy_override two_markers = []" "se_binary two_markers = []"
    by (simp_all add: two_markers_def session_New_def)
  have "session_Start local_env two_markers = (None, snd (session_Start local_env two_markers))"
    by (simp add: session_Start_def c default_config_def Let_def multi_Start_def NewMulti_def multi_listen_def
        local_env_def dbg_Start_def start_helpers_def)
  from start_listens_for_all_services [OF this] show ?thesis
    by (auto simp: c default_config_def)
qed

text \<open>Stopping is idempotent: the helpers are released by the first call only, at most once
  each, and a second call does nothing.\<close>

theorem stop_once:
  "distinct (fst (session_Stop s)) \<and> session_Stop (snd (session_Stop s)) = ([], snd (session_Stop s))"
  by (auto simp: session_Stop_def split: option.splits)

section \<open>The program under debug\<close>

lemma StartHeadless_ok:
  "StartHeadless env binary addr = (None, r) \<Longrightarrow>
   r \<and> st_delve_ok env (delve_command binary (if addr = [] then ''127.0.0.1:2345'' else addr))"
  unfolding StartHeadless_def Let_def by (simp split: if_splits option.splits prod.splits)

lemma startTarget_frame:
  "se_binary (startTarget env s) = se_binary s" "se_delve_addr (startTarget env s) = se_delve_addr s"
  "st_target_ok env \<Longrightarrow> \<exists>vars. se_target (startTarget env s) = Some vars"
  by (simp_all add: startTarget_def Let_def)

lemma start_helpers_ok:
  assumes "start_helpers env s = (None, s')" "se_binary s \<noteq> []" "st_target_ok env"
  shows "(\<exists>vars. se_target s' = Some vars) \<and> se_delve s' = Some True \<and>
    st_delve_ok env (delve_command (se_binary s) (if se_delve_addr s = [] then ''127.0.0.1:2345'' else se_delve_addr s))"
proof -
  define s2 where "s2 = (if se_delve (startTarget env s) = None then (startTarget env s)\<lparr>se_delve := Some False\<rparr>
    else startTarget env s)"
  have fields: "se_binary s2 = se_binary s" "se_delve_addr s2 = se_delve_addr s" "se_target s2 = se_target (startTarget env s)"
    by (simp_all add: s2_def startTarget_frame)
  obtain err r where h: "StartHeadless env (se_binary s2) (se_delve_addr s2) = (err, r)" by fastforce
  have "(err, s2\<lparr>se_delve := Some r\<rparr>) = (None, s')"
    using assms(1,2) h by (simp add: start_helpers_def Let_def s2_def)
  then have err: "err = None" and s': "s' = s2\<lparr>se_delve := Some r\<rparr>" by auto
  from StartHeadless_ok [OF h [unfolded err fields]] startTarget_frame(3) [OF assms(3), of s] show ?thesis
    by (simp add: s' fields)
qed

text \<open>A session with a program starts it twice: once by itself, with the frozen clock in its environment, and once
  under Delve.  Both copies talk to the proxy, which serves every response once.\<close>

theorem debugged_program_runs_twice:
  assumes "session_Start env s = (None, s')" "se_binary s \<noteq> []" "st_target_ok env"
  shows "(\<exists>vars. se_target s' = Some vars) \<and> se_delve s' = Some True \<and>
    st_delve_ok env (delve_command (se_binary s) (if se_delve_addr s = [] then ''127.0.0.1:2345'' else se_delve_addr s))"
proof -
  obtain err proxy where p: "multi_Start (st_listen env) (NewMulti (if se_proxy_override s \<noteq> [] then se_proxy_override s
      else rc_proxy_addr (se_config s)) (rc_services (se_config s)) (session_Events s)) = (err, proxy)" by fastforce
  have err: "err = None"
    using assms(1) by (cases err) (simp_all only: session_Start_def Let_def p prod.case option.case, simp)
  obtain s2 where h: "start_helpers env s2 = (None, s')" "se_binary s2 = se_binary s" "se_delve_addr s2 = se_delve_addr s"
    using assms(1) unfolding session_Start_def Let_def p prod.case err option.case(1)
    by (cases "dbg_Start (st_listen env) (SetTimeEngine (Some (NewEngine (snap_clock (se_snap s))
      (rc_freeze_enabled (se_config s)) (rc_shim_path (se_config s)) (se_world s))) (debugger_New (rc_debug_addr (se_config s))))")
      auto
  from start_helpers_ok [OF h(1), unfolded h(2,3)] assms(2,3) show ?thesis by simp
qed

end
