(* ===== verification/Agent_Probe.thy ===== *)
theory Agent_Probe
  imports IO_Event "HOL-Library.Multiset"
begin

text \<open>
  The capturing half of the agent: its configuration (dre-agent/internal/config/config.go), the
  attachment of the kernel probes (dre-agent/bpf/load.go), the ring-buffer loop
  (dre-agent/internal/probe/probe_linux.go), the monitor that switches the probes off under
  pressure (bypass_monitor.go), the marker handler of dre-agent/cmd/dre-agent/main.go and the
  request it sends to the collector (dre-agent/internal/admin/client.go).  The kernel's answers,
  the file system, the metrics page and the HTTP client are inputs.
\<close>

section \<open>Configuration\<close>

record agent_config =
  ac_collector :: bytes
  ac_http :: bytes
  ac_node :: bytes
  ac_metrics :: bytes
  ac_ringbuf_mb :: int
  ac_mock :: bool

definition agent_envOr :: "(bytes \<Rightarrow> bytes) \<Rightarrow> bytes \<Rightarrow> bytes \<Rightarrow> bytes" where
  "agent_envOr genv key def = (if genv key \<noteq> [] then genv key else def)"

definition agent_Load :: "(bytes \<Rightarrow> bytes) \<Rightarrow> agent_config" where
  "agent_Load genv =
     \<lparr>ac_collector = agent_envOr genv ''DRE_COLLECTOR_ADDR'' ''dre-collector:9090'',
      ac_http = agent_envOr genv ''DRE_COLLECTOR_HTTP_ADDR'' ''http://dre-collector:8080'',
      ac_node = (if genv ''DRE_NODE_ID'' = [] then ''node-local'' else genv ''DRE_NODE_ID''),
      ac_metrics = agent_envOr genv ''DRE_METRICS_ADDR'' '':9100'',
      ac_ringbuf_mb = (let v = genv ''DRE_RINGBUF_SIZE_MB'' in
         if v \<noteq> [] then (case atoi v of Some n \<Rightarrow> n | None \<Rightarrow> 16) else 16),
      ac_mock = (genv ''DRE_MOCK_MODE'' = ''1'')\<rparr>"

section \<open>Attaching the probes\<close>

text \<open>The kernel keeps what is attached; the objects are generated code, of which the program
  reads only whether a program or map is there.\<close>

datatype probe_link = Tracepoint bytes bytes | Uprobe bytes bytes

record kernel =
  kn_links :: "probe_link multiset"
  kn_bypass :: bool

record bpf_objs =
  bo_prog :: "bytes \<Rightarrow> bool"
  bo_clock :: bool
  bo_bypass :: bool

record 'e bpf_env =
  be_objs :: "'e + bpf_objs"
  be_tracepoint :: "bytes \<Rightarrow> bytes \<Rightarrow> 'e option"
  be_open :: "bytes \<Rightarrow> bool"
  be_uprobe :: "bytes \<Rightarrow> bool"
  be_reader :: "'e option"

datatype 'e bpf_error =
    LoadObjects 'e | MissingProgram bytes bytes | AttachFailed bytes bytes 'e | LibcNotFound
  | ReaderFailed 'e

record collection =
  co_objs :: bpf_objs
  co_links :: "probe_link list"
  co_closed :: bool

definition tracepoints :: "(bytes \<times> bytes \<times> bytes) list" where
  "tracepoints =
     [(''syscalls'', ''sys_enter_read'', ''DreTraceRead''),
      (''syscalls'', ''sys_enter_write'', ''DreTraceWrite''),
      (''syscalls'', ''sys_enter_recvfrom'', ''DreTraceRecvfrom''),
      (''syscalls'', ''sys_enter_sendto'', ''DreTraceSendto''),
      (''sched'', ''sched_switch'', ''DreTraceSchedSwitch''),
      (''sched'', ''sched_process_exit'', ''DreTraceProcessExit''),
      (''signal'', ''signal_generate'', ''DreTraceSignalGenerate'')]"

definition libcPaths :: "bytes list" where
  "libcPaths =
     [''/lib/x86_64-linux-gnu/libc.so.6'', ''/usr/lib/x86_64-linux-gnu/libc.so.6'',
      ''/lib64/libc.so.6'', ''/usr/lib64/libc.so.6'']"

text \<open>Opening a link puts it into the kernel and appends it to the collection.\<close>

definition open_link :: "probe_link \<Rightarrow> collection \<times> kernel \<Rightarrow> collection \<times> kernel" where
  "open_link l = (\<lambda>(c, k). (c\<lparr>co_links := co_links c @ [l]\<rparr>, k\<lparr>kn_links := add_mset l (kn_links k)\<rparr>))"

fun attach_tracepoints ::
  "'e bpf_env \<Rightarrow> (bytes \<times> bytes \<times> bytes) list \<Rightarrow> collection \<times> kernel
    \<Rightarrow> (collection \<times> kernel) \<times> 'e bpf_error option" where
  "attach_tracepoints env [] s = (s, None)"
| "attach_tracepoints env ((grp, name, fld) # tps) s =
     (if \<not> bo_prog (co_objs (fst s)) fld then (s, Some (MissingProgram grp name))
      else case be_tracepoint env grp name of
             Some err \<Rightarrow> (s, Some (AttachFailed grp name err))
           | None \<Rightarrow> attach_tracepoints env tps (open_link (Tracepoint grp name) s))"

fun attach_uprobe :: "'e bpf_env \<Rightarrow> bytes list \<Rightarrow> collection \<times> kernel \<Rightarrow> (collection \<times> kernel) \<times> bool" where
  "attach_uprobe env [] s = (s, False)"
| "attach_uprobe env (path # paths) s =
     (if \<not> be_open env path then attach_uprobe env paths s
      else if \<not> be_uprobe env path then attach_uprobe env paths s
      else (open_link (Uprobe path ''clock_gettime'') s, True))"

definition attach ::
  "'e bpf_env \<Rightarrow> collection \<times> kernel \<Rightarrow> (collection \<times> kernel) \<times> 'e bpf_error option" where
  "attach env s =
     (case attach_tracepoints env tracepoints s of
        (s1, Some err) \<Rightarrow> (s1, Some err)
      | (s1, None) \<Rightarrow>
          if bo_clock (co_objs (fst s1)) then
            (case attach_uprobe env libcPaths s1 of
               (s2, attached) \<Rightarrow> if \<not> attached then (s2, Some LibcNotFound) else (s2, None))
          else (s1, None))"

definition coll_Close :: "collection \<times> kernel \<Rightarrow> collection \<times> kernel" where
  "coll_Close = (\<lambda>(c, k). (c\<lparr>co_links := [], co_closed := True\<rparr>,
     k\<lparr>kn_links := kn_links k - mset (co_links c)\<rparr>))"

definition LoadCollection ::
  "'e bpf_env \<Rightarrow> kernel \<Rightarrow> ('e bpf_error + collection) \<times> kernel" where
  "LoadCollection env k =
     (case be_objs env of
        Inl err \<Rightarrow> (Inl (LoadObjects err), k)
      | Inr objs \<Rightarrow>
          (case attach env (\<lparr>co_objs = objs, co_links = [], co_closed = False\<rparr>, k) of
             (s, Some err) \<Rightarrow> (Inl err, snd (coll_Close s))
           | (s, None) \<Rightarrow> (Inr (fst s), snd s)))"

text \<open>Writing the bypass map fails when the map is missing; the kernel's answer is an input.\<close>

definition coll_SetBypass :: "bool \<Rightarrow> bool \<Rightarrow> collection \<Rightarrow> kernel \<Rightarrow> kernel \<times> bool" where
  "coll_SetBypass put_ok enabled c k =
     (if \<not> bo_bypass (co_objs c) then (k, False)
      else if put_ok then (k\<lparr>kn_bypass := enabled\<rparr>, True) else (k, False))"

section \<open>The loader\<close>

record loader =
  ld_reader :: bool
  ld_coll :: "collection option"
  ld_bypass :: bool
  ld_marker :: bool

definition NewLoader :: loader where
  "NewLoader = \<lparr>ld_reader = False, ld_coll = None, ld_bypass = False, ld_marker = False\<rparr>"

definition SetMarkerHandler :: "loader \<Rightarrow> loader" where
  "SetMarkerHandler l = l\<lparr>ld_marker := True\<rparr>"

text \<open>When the reader cannot be made, the collection is closed but stays in the loader.\<close>

definition loader_Load ::
  "(bytes \<Rightarrow> bytes) \<Rightarrow> 'e bpf_env \<Rightarrow> loader \<Rightarrow> kernel \<Rightarrow> ('e bpf_error option \<times> loader) \<times> kernel" where
  "loader_Load genv env l k =
     (if genv ''DRE_SKIP_BPF'' = ''1'' then ((None, l), k)
      else case LoadCollection env k of
        (Inl err, k1) \<Rightarrow> ((Some err, l), k1)
      | (Inr coll, k1) \<Rightarrow>
          (case be_reader env of
             Some err \<Rightarrow>
               (let (coll', k2) = coll_Close (coll, k1)
                in ((Some (ReaderFailed err), l\<lparr>ld_coll := Some coll'\<rparr>), k2))
           | None \<Rightarrow> ((None, l\<lparr>ld_coll := Some coll, ld_reader := True\<rparr>), k1)))"

definition loader_Close :: "loader \<Rightarrow> kernel \<Rightarrow> loader \<times> kernel" where
  "loader_Close l k =
     (l\<lparr>ld_reader := False, ld_coll := None\<rparr>,
      (case ld_coll l of None \<Rightarrow> k | Some c \<Rightarrow> snd (coll_Close (c, k))))"

definition loader_SetBypass :: "bool \<Rightarrow> bool \<Rightarrow> loader \<Rightarrow> kernel \<Rightarrow> loader \<times> kernel" where
  "loader_SetBypass put_ok enabled l k =
     (l\<lparr>ld_bypass := enabled\<rparr>,
      (case ld_coll l of None \<Rightarrow> k | Some c \<Rightarrow> fst (coll_SetBypass put_ok enabled c k)))"

text \<open>The ring-buffer loop over what \<^verbatim>\<open>Read\<close> returns; a list that ends is a reader that is still
  waiting.  Markers go to the handler when there is one, everything else to the channel.\<close>

datatype ring_read = Sample bytes | ReadClosed | ReadError | CtxDone

record run_state =
  rs_out :: "ioevent list"
  rs_markers :: "ioevent list"
  rs_emitted :: nat
  rs_drops :: nat

fun loader_Run :: "bool \<Rightarrow> ring_read list \<Rightarrow> run_state \<Rightarrow> run_state \<times> bool" where
  "loader_Run hdl [] s = (s, False)"
| "loader_Run hdl (CtxDone # rs) s = (s, True)"
| "loader_Run hdl (ReadClosed # rs) s = (s, True)"
| "loader_Run hdl (ReadError # rs) s = loader_Run hdl rs (s\<lparr>rs_drops := rs_drops s + 1\<rparr>)"
| "loader_Run hdl (Sample raw # rs) s =
     (case decodeRecord raw of
        Inl err \<Rightarrow> loader_Run hdl rs s
      | Inr evt \<Rightarrow>
          if 4 \<le> IsWrite evt \<and> hdl
          then loader_Run hdl rs (s\<lparr>rs_markers := rs_markers s @ [evt]\<rparr>)
          else loader_Run hdl rs (s\<lparr>rs_out := rs_out s @ [evt], rs_emitted := rs_emitted s + 1\<rparr>))"

definition run_start :: run_state where
  "run_start = \<lparr>rs_out = [], rs_markers = [], rs_emitted = 0, rs_drops = 0\<rparr>"

section \<open>Markers\<close>

text \<open>The handler of \<^verbatim>\<open>main\<close>: the reason and the detail of the snapshot it asks for.  The
  command name keeps the zero bytes that pad its array.\<close>

definition marker_request :: "ioevent \<Rightarrow> (bytes \<times> bytes) option" where
  "marker_request evt =
     (let pid = itoa (unat (drop_bit 32 (PidTgid evt))) in
      if IsWrite evt = 4 then Some (''process-exit'', ''pid='' @ pid @ '' comm='' @ Comm evt)
      else if IsWrite evt = 5 then Some (''sigsegv'', ''pid='' @ pid @ '' sig='' @ itoa (unat (Fd evt)))
      else None)"

datatype 'e admin_error = NoBaseURL | AdminFailed 'e | AdminStatus nat

text \<open>\<open>send\<close> is the HTTP client: the URL and the JSON body give an error or the status.\<close>

definition admin_TriggerSnapshot ::
  "bytes \<Rightarrow> (bytes \<times> bytes \<Rightarrow> bytes) \<Rightarrow> (bytes \<Rightarrow> bytes \<Rightarrow> 'e + nat) \<Rightarrow> bytes \<Rightarrow> bytes \<Rightarrow> 'e admin_error option" where
  "admin_TriggerSnapshot base encode send reason detail =
     (if base = [] then Some NoBaseURL
      else case send (base @ ''/v1/trigger'') (encode (reason, detail)) of
             Inl err \<Rightarrow> Some (AdminFailed err)
           | Inr code \<Rightarrow> if 300 \<le> code then Some (AdminStatus code) else None)"

section \<open>Lemmas\<close>

text \<open>What a collection has opened is what the kernel has more than before.\<close>

definition opened :: "kernel \<Rightarrow> collection \<times> kernel \<Rightarrow> bool" where
  "opened k0 = (\<lambda>(c, k). kn_links k = kn_links k0 + mset (co_links c) \<and> kn_bypass k = kn_bypass k0)"

lemma opened_open_link: "opened k0 s \<Longrightarrow> opened k0 (open_link l s)"
  by (cases s) (simp add: opened_def open_link_def)

lemma objs_open_link [simp]: "co_objs (fst (open_link l s)) = co_objs (fst s)"
  "co_links (fst (open_link l s)) = co_links (fst s) @ [l]"
  by (cases s, simp add: open_link_def)+

lemma attach_tracepoints_opened: "opened k0 s \<Longrightarrow> opened k0 (fst (attach_tracepoints env tps s))"
  by (induction env tps s rule: attach_tracepoints.induct)
    (auto simp: opened_open_link split: option.split)

lemma attach_tracepoints_all:
  "attach_tracepoints env tps s = (s', None) \<Longrightarrow>
   co_links (fst s') = co_links (fst s) @ map (\<lambda>(g, n, f). Tracepoint g n) tps \<and> co_objs (fst s') = co_objs (fst s)"
  by (induction env tps s rule: attach_tracepoints.induct) (auto split: if_splits option.splits)

lemma attach_uprobe_opened: "opened k0 s \<Longrightarrow> opened k0 (fst (attach_uprobe env ps s))"
  by (induction env ps s rule: attach_uprobe.induct) (auto simp: opened_open_link)

lemma attach_uprobe_one:
  "attach_uprobe env ps s = (s', True) \<Longrightarrow>
   \<exists>p. p \<in> set ps \<and> co_links (fst s') = co_links (fst s) @ [Uprobe p ''clock_gettime'']"
  by (induction env ps s rule: attach_uprobe.induct) (auto split: if_splits)

lemma attach_opened: "opened k0 s \<Longrightarrow> opened k0 (fst (attach env s))"
  using attach_tracepoints_opened [of k0 s env tracepoints]
  by (auto simp: attach_def split: prod.splits option.splits)
    (metis attach_uprobe_opened fst_conv)+

lemma opened_Close: "opened k0 s \<Longrightarrow> snd (coll_Close s) = k0"
  by (cases s) (auto simp: opened_def coll_Close_def intro: kernel.equality)

lemma attach_complete:
  assumes "attach env s = (s', None)"
  shows "set (map (\<lambda>(g, n, f). Tracepoint g n) tracepoints) \<subseteq> set (co_links (fst s'))"
proof -
  obtain s1 where s1: "attach_tracepoints env tracepoints s = (s1, None)"
    and rest: "s' = s1 \<or> attach_uprobe env libcPaths s1 = (s', True)"
    using assms by (auto simp: attach_def split: prod.splits option.splits if_splits)
  from attach_tracepoints_all [OF s1] rest attach_uprobe_one show ?thesis by fastforce
qed

lemma LoadCollection_opened:
  "case LoadCollection env k of
     (Inr c, k') \<Rightarrow> opened k (c, k') \<and> set (map (\<lambda>(g, n, f). Tracepoint g n) tracepoints) \<subseteq> set (co_links c)
   | (Inl err, k') \<Rightarrow> k' = k"
proof (cases "be_objs env")
  case (Inr objs)
  have "opened k (\<lparr>co_objs = objs, co_links = [], co_closed = False\<rparr>, k)" by (simp add: opened_def)
  from attach_opened [OF this, of env] Inr show ?thesis
    by (auto simp: LoadCollection_def opened_Close split: prod.splits option.splits)
      (use attach_complete in fastforce)
qed (simp add: LoadCollection_def)

section \<open>Properties\<close>


text \<open>A kernel that refuses the tracepoint for writes, after the one for reads is attached.\<close>

definition refusing_kernel :: "bytes bpf_env" where
  "refusing_kernel =
     \<lparr>be_objs = Inr \<lparr>bo_prog = (\<lambda>_. True), bo_clock = True, bo_bypass = True\<rparr>,
      be_tracepoint = (\<lambda>g n. if n = ''sys_enter_write'' then Some ''permission denied'' else None),
      be_open = (\<lambda>_. True), be_uprobe = (\<lambda>_. True), be_reader = None\<rparr>"

lemma refused_load:
  "loader_Load (\<lambda>_. []) refusing_kernel NewLoader k =
     ((Some (AttachFailed ''syscalls'' ''sys_enter_write'' ''permission denied''), NewLoader), k)"
  by (simp add: loader_Load_def LoadCollection_def attach_def tracepoints_def refusing_kernel_def
      open_link_def coll_Close_def)


text \<open>The samples read before the loop ends, decoded.\<close>

definition reads_until_end :: "ring_read list \<Rightarrow> ring_read list" where
  "reads_until_end = takeWhile (\<lambda>r. r \<noteq> CtxDone \<and> r \<noteq> ReadClosed)"

definition ring_events :: "ring_read list \<Rightarrow> ioevent list" where
  "ring_events rs =
     [event_of_record raw. Sample raw \<leftarrow> reads_until_end rs, RecordSize \<le> length raw]"

lemma loader_Run_general:
  "loader_Run hdl rs s =
     (s\<lparr>rs_out := rs_out s @ [e \<leftarrow> ring_events rs. \<not> (4 \<le> IsWrite e \<and> hdl)],
        rs_markers := rs_markers s @ [e \<leftarrow> ring_events rs. 4 \<le> IsWrite e \<and> hdl],
        rs_emitted := rs_emitted s + length [e \<leftarrow> ring_events rs. \<not> (4 \<le> IsWrite e \<and> hdl)],
        rs_drops := rs_drops s + length [r \<leftarrow> reads_until_end rs. r = ReadError]\<rparr>,
      CtxDone \<in> set rs \<or> ReadClosed \<in> set rs)"
  by (induction hdl rs s rule: loader_Run.induct)
    (auto simp: ring_events_def reads_until_end_def decodeRecord_def)

text \<open>Up to its end the loop turns every sample that is long enough into exactly one of a
  marker for the handler and an event for the channel, in order; the emitted counter counts the
  events, and only failed reads are counted as drops: a short sample is not counted at all.\<close>

theorem run_sorts_samples:
  "loader_Run hdl rs run_start = (s, ended) \<Longrightarrow>
     rs_out s = [e \<leftarrow> ring_events rs. \<not> (4 \<le> IsWrite e \<and> hdl)] \<and>
     rs_markers s = [e \<leftarrow> ring_events rs. 4 \<le> IsWrite e \<and> hdl] \<and>
     rs_emitted s = length (rs_out s) \<and>
     rs_drops s = length [r \<leftarrow> reads_until_end rs. r = ReadError] \<and>
     (ended \<longleftrightarrow> CtxDone \<in> set rs \<or> ReadClosed \<in> set rs)"
  by (auto simp: loader_Run_general run_start_def)

lemma run_sorts_samples_witness:
  "rs_drops (fst (loader_Run True
      [Sample (Encode zero_event), Sample ''x'', ReadError, Sample (Encode (zero_event\<lparr>IsWrite := 5\<rparr>)), CtxDone, ReadError]
      run_start)) = 1 \<and>
   rs_emitted (fst (loader_Run True
      [Sample (Encode zero_event), Sample ''x'', ReadError, Sample (Encode (zero_event\<lparr>IsWrite := 5\<rparr>)), CtxDone, ReadError]
      run_start)) = 1"
proof -
  let ?rs = "[Sample (Encode zero_event), Sample ''x'', ReadError, Sample (Encode (zero_event\<lparr>IsWrite := 5\<rparr>)), CtxDone, ReadError]"
  obtain s ended where s: "loader_Run True ?rs run_start = (s, ended)" by (metis surj_pair)
  have ev: "ring_events ?rs = [zero_event, zero_event\<lparr>IsWrite := 5\<rparr>]"
    by (simp add: ring_events_def reads_until_end_def event_of_record_Encode)
      (simp add: size_defs event_of_record_Encode wf_event_def zero_event_def)
  from run_sorts_samples [OF s, unfolded ev] s show ?thesis
    by (simp add: reads_until_end_def zero_event_def)
qed

end
