(* ===== verification/Bypass_Monitor.thy ===== *)
theory Bypass_Monitor
  imports Agent_Probe
begin

text \<open>
  The monitor that switches the probes off under memory pressure or when the ring buffer drops
  too much (dre-agent/internal/probe/bypass_monitor.go).  The two comparisons are made in
  \<^verbatim>\<open>float64\<close>; they are written out with the rounding to 53 bits, to nearest and ties to even,
  and compared with the exact ones.
\<close>

section \<open>Floating point\<close>

text \<open>The counts are whole numbers that a \<^verbatim>\<open>float64\<close> holds exactly; 0.85 is
  7656119366529843 / 2^53 and 0.01 is 5764607523034235 / 2^59.\<close>

fun bit_len :: "nat \<Rightarrow> nat" where
  "bit_len n = (if n = 0 then 0 else Suc (bit_len (n div 2)))"

declare bit_len.simps [simp del]

definition half_even :: "nat \<Rightarrow> nat \<Rightarrow> nat" where
  "half_even p q =
     (let d = p div q; r = p mod q
      in if 2 * r < q \<or> 2 * r = q \<and> even d then d else d + 1)"

definition round53 :: "nat \<Rightarrow> nat" where
  "round53 n = (let k = bit_len n - 53 in half_even n (2 ^ k) * 2 ^ k)"

text \<open>\<^verbatim>\<open>uint64(float64(limit)*memoryBypassRatio)\<close>.\<close>

definition mem_threshold :: "u64 \<Rightarrow> u64" where
  "mem_threshold limit =
     of_nat (round53 (round53 (unat limit) * 7656119366529843) div 2 ^ 53)"

text \<open>\<open>deltaDrops / (deltaEmitted + deltaDrops) > dropBypassRatio\<close>, for a positive sum.  The
  quotient \<open>p / q\<close> is scaled by \<open>2^k\<close> into \<open>[2^52, 2^53)\<close> and rounded there.\<close>

definition quot_scale :: "nat \<Rightarrow> nat \<Rightarrow> nat" where
  "quot_scale p q =
     (let k = 53 + bit_len q - bit_len p in if 2 ^ 53 * q \<le> p * 2 ^ k then k - 1 else k)"

definition rate_exceeds :: "int \<Rightarrow> int \<Rightarrow> bool" where
  "rate_exceeds drops events =
     (if drops \<le> 0 then False
      else if events \<le> drops then True
      else (let p = nat drops; q = nat events; k = quot_scale p q
            in 5764607523034235 * 2 ^ k < half_even (p * 2 ^ k) q * 2 ^ 59))"

section \<open>What the monitor reads\<close>

definition parse_uint64 :: "bytes \<Rightarrow> nat option" where
  "parse_uint64 s =
     (if s \<noteq> [] \<and> list_all is_digit s \<and> dec_val s < 2 ^ 64 then Some (dec_val s) else None)"

definition defaultMemoryLimitBytes :: u64 where
  "defaultMemoryLimitBytes = 128 * 1024 * 1024"

definition cgroup_paths :: "bytes list" where
  "cgroup_paths = [''/sys/fs/cgroup/memory.max'', ''/sys/fs/cgroup/memory/memory.limit_in_bytes'']"

fun first_limit :: "(bytes \<Rightarrow> bytes option) \<Rightarrow> bytes list \<Rightarrow> u64" where
  "first_limit files [] = defaultMemoryLimitBytes"
| "first_limit files (p # ps) =
     (case files p of
        None \<Rightarrow> first_limit files ps
      | Some b \<Rightarrow>
          let s = trim_space b in
          if s = ''max'' \<or> s = [] then first_limit files ps
          else (case parse_uint64 s of
                  None \<Rightarrow> first_limit files ps
                | Some v \<Rightarrow> if v = 0 then first_limit files ps else of_nat v))"

definition cgroupMemoryLimit :: "(bytes \<Rightarrow> bytes) \<Rightarrow> (bytes \<Rightarrow> bytes option) \<Rightarrow> u64" where
  "cgroupMemoryLimit genv files =
     (let v = genv ''DRE_MEMORY_LIMIT_BYTES'';
          others = first_limit files cgroup_paths
      in if v \<noteq> [] then
           (case parse_uint64 v of Some n \<Rightarrow> if 0 < n then of_nat n else others | None \<Rightarrow> others)
         else others)"

fun rss_of_lines :: "bytes list \<Rightarrow> u64" where
  "rss_of_lines [] = 0"
| "rss_of_lines (line # ls) =
     (if has_prefix line ''VmRSS:'' then
        (let fs = Go_Strings.fields line in
         if length fs < 2 then 0
         else case parse_uint64 (fs ! 1) of None \<Rightarrow> 0 | Some kb \<Rightarrow> of_nat kb * 1024)
      else rss_of_lines ls)"

definition processRSS :: "(bytes \<Rightarrow> bytes option) \<Rightarrow> u64" where
  "processRSS files =
     (case files ''/proc/self/status'' of None \<Rightarrow> 0 | Some b \<Rightarrow> rss_of_lines (split b [LF]))"

text \<open>The metrics page as the third-party parser gives it: per family the counters of its
  metrics.  A page that cannot be fetched or parsed is \<open>None\<close> and reads as zero.\<close>

type_synonym families = "bytes \<Rightarrow> nat option list option"

definition counterValue :: "families \<Rightarrow> bytes \<Rightarrow> int" where
  "counterValue fams name =
     (case fams name of Some (Some v # _) \<Rightarrow> int v | _ \<Rightarrow> 0)"

definition metrics_url :: "(bytes \<Rightarrow> bytes) \<Rightarrow> bytes" where
  "metrics_url genv =
     (let addr = genv ''DRE_METRICS_ADDR'';
          addr = (if addr = [] then '':9100'' else addr)
      in (if has_prefix addr ''http'' then addr else ''http://127.0.0.1'' @ addr) @ ''/metrics'')"

definition readAgentMetrics :: "(bytes \<Rightarrow> bytes) \<Rightarrow> (bytes \<Rightarrow> families option) \<Rightarrow> int \<times> int" where
  "readAgentMetrics genv fetch =
     (case fetch (metrics_url genv) of
        None \<Rightarrow> (0, 0)
      | Some fams \<Rightarrow> (counterValue fams ''dre_events_emitted_total'',
                      counterValue fams ''dre_ringbuf_drops_total''))"

section \<open>The monitor\<close>

record monitor =
  mo_emitted :: int
  mo_drops :: int
  mo_start :: instant

text \<open>What one tick finds: the two clock readings (for \<^verbatim>\<open>time.Since\<close> and for the new window), the
  environment, the files, the metrics page and whether the kernel takes the map write.\<close>

record tick =
  ti_since :: instant
  ti_now :: instant
  ti_genv :: "bytes \<Rightarrow> bytes"
  ti_files :: "bytes \<Rightarrow> bytes option"
  ti_fetch :: "bytes \<Rightarrow> families option"
  ti_put :: bool

definition dropWindow :: int where
  "dropWindow = 30 * second"

definition monitor_tick :: "tick \<Rightarrow> monitor \<times> loader \<times> kernel \<Rightarrow> monitor \<times> loader \<times> kernel" where
  "monitor_tick t = (\<lambda>(m, l, k).
     if ld_bypass l then (m, l, k)
     else
       (let limit = cgroupMemoryLimit (ti_genv t) (ti_files t);
            rss = processRSS (ti_files t)
        in if 0 < limit \<and> mem_threshold limit < rss then (m, loader_SetBypass (ti_put t) True l k)
           else
             (let (emitted, drops) = readAgentMetrics (ti_genv t) (ti_fetch t);
                  deltaEmitted = emitted - mo_emitted m;
                  deltaDrops = drops - mo_drops m
              in if dropWindow \<le> ti_since t - mo_start m then
                   (\<lparr>mo_emitted = emitted, mo_drops = drops, mo_start = ti_now t\<rparr>,
                    (if 0 < deltaEmitted + deltaDrops \<and> rate_exceeds deltaDrops (deltaEmitted + deltaDrops)
                     then loader_SetBypass (ti_put t) True l k else (l, k)))
                 else (m, l, k))))"

definition MonitorBypass :: "(bytes \<Rightarrow> bytes) \<Rightarrow> instant \<Rightarrow> tick list \<Rightarrow> loader \<times> kernel \<Rightarrow> loader \<times> kernel" where
  "MonitorBypass genv start ticks s =
     (if genv ''DRE_SKIP_BPF'' = ''1'' then s
      else snd (fold monitor_tick ticks (\<lparr>mo_emitted = 0, mo_drops = 0, mo_start = start\<rparr>, s)))"

section \<open>The float comparison is the exact one\<close>

lemma half_even_bounds:
  assumes "0 < q"
  shows "2 * p \<le> (2 * half_even p q + 1) * q" "2 * half_even p q * q \<le> 2 * p + q"
proof -
  define d r where dr: "d = p div q" "r = p mod q"
  have p: "p = d * q + r" and r: "r < q" using assms by (simp_all add: dr)
  have "half_even p q = d \<and> 2 * r \<le> q \<or> half_even p q = d + 1 \<and> q \<le> 2 * r"
    by (auto simp: half_even_def Let_def dr)
  then show "2 * p \<le> (2 * half_even p q + 1) * q" "2 * half_even p q * q \<le> 2 * p + q"
    using r by (auto simp: p algebra_simps)
qed

lemma bit_len_bounds: "n < 2 ^ bit_len n" "0 < n \<Longrightarrow> 2 ^ bit_len n \<le> 2 * n"
proof (induction n rule: bit_len.induct)
  case (1 n)
  { case 1 show ?case using "1.IH" by (cases "n = 0") (auto simp: bit_len.simps [of n]) }
  { case 2 then show ?case using "1.IH" by (cases "n = 1") (auto simp: bit_len.simps [of n] bit_len.simps [of "Suc 0"] bit_len.simps [of 0]) }
qed

text \<open>The scaling puts the quotient where a \<^verbatim>\<open>float64\<close> has its 53 bits.\<close>

lemma quot_scale_range:
  assumes "0 < p" "p < q"
  shows "2 ^ 52 * q \<le> p * 2 ^ quot_scale p q" "p * 2 ^ quot_scale p q < 2 ^ 53 * q"
proof -
  let ?a = "bit_len p" and ?b = "bit_len q"
  have a: "p < 2 ^ ?a" "2 ^ ?a \<le> 2 * p" and b: "q < 2 ^ ?b" "2 ^ ?b \<le> 2 * q"
    using bit_len_bounds [of p] bit_len_bounds [of q] assms by auto
  have ab: "?a \<le> ?b"
  proof (rule ccontr)
    assume "\<not> ?a \<le> ?b"
    then have "(2::nat) ^ Suc ?b \<le> 2 ^ ?a" by (intro power_increasing) auto
    with a(2) b(1) assms(2) show False by simp
  qed
  define k where "k = 53 + ?b - ?a"
  have k: "k + ?a = 53 + ?b" "1 \<le> k" using ab by (auto simp: k_def)
  have e: "2 ^ k * 2 ^ ?a = (2 ^ 53 * 2 ^ ?b :: nat)" by (metis k(1) power_add)
  have lo: "2 ^ 52 * q \<le> p * 2 ^ k"
  proof -
    have "2 ^ 53 * q \<le> 2 ^ 53 * 2 ^ ?b" using b(1) by simp
    also have "\<dots> = 2 ^ k * 2 ^ ?a" by (simp add: e)
    also have "\<dots> \<le> 2 ^ k * (2 * p)" using a(2) by simp
    finally show ?thesis by simp
  qed
  have hi: "p * 2 ^ k < 2 ^ 54 * q"
  proof -
    have "p * 2 ^ k < 2 ^ ?a * 2 ^ k" using a(1) by simp
    also have "\<dots> = 2 ^ 53 * 2 ^ ?b" using e by (simp add: mult.commute)
    also have "\<dots> \<le> 2 ^ 53 * (2 * q)" using b(2) by simp
    finally show ?thesis by simp
  qed
  obtain j where j: "k = Suc j" using k(2) by (cases k) auto
  show "2 ^ 52 * q \<le> p * 2 ^ quot_scale p q" "p * 2 ^ quot_scale p q < 2 ^ 53 * q"
    using lo hi j by (auto simp: quot_scale_def Let_def k_def [symmetric])
qed

text \<open>A quotient scaled by \<open>2^k\<close> and rounded to \<open>h\<close> exceeds the constant exactly when it exceeds
  one hundredth, for denominators that are not too large.\<close>

lemma rounded_rate:
  fixes p q k h :: nat
  assumes lo: "2 ^ 52 * q \<le> p * 2 ^ k" and hi: "p * 2 ^ k < 2 ^ 53 * q"
    and h: "2 * (p * 2 ^ k) \<le> (2 * h + 1) * q" "2 * h * q \<le> 2 * (p * 2 ^ k) + q"
    and pos: "0 < p" "p < q" and small: "q \<le> 2 ^ 45"
  shows "5764607523034235 * 2 ^ k < h * 2 ^ 59 \<longleftrightarrow> q < 100 * p"
proof -
  have h52: "2 ^ 52 \<le> h"
  proof (rule ccontr)
    assume "\<not> 2 ^ 52 \<le> h"
    then have "h \<le> 4503599627370495" by simp
    then have "h * q \<le> 4503599627370495 * q" by (rule mult_le_mono1)
    moreover have "2 * (p * 2 ^ k) \<le> 2 * (h * q) + q" using h(1) by (simp add: algebra_simps)
    moreover have "4503599627370496 * q \<le> p * 2 ^ k" using lo by simp
    ultimately show False using pos by linarith
  qed
  show ?thesis
  proof (rule linorder_cases [of k 59])
    assume "k < 59"
    then have k: "(2::nat) ^ k \<le> 2 ^ 58" by (intro power_increasing) auto
    then have "p * 2 ^ k \<le> p * 288230376151711744" by (intro mult_le_mono2) simp
    moreover have "4503599627370496 * q \<le> p * 2 ^ k" using lo by simp
    ultimately have "q < 100 * p" using pos by linarith
    then show ?thesis using k h52 by simp
  next
    assume k: "k = 59"
    have up: "q < 100 * p" if "5764607523034236 \<le> h"
    proof -
      have "5764607523034236 * q \<le> h * q" using that by (rule mult_le_mono1)
      moreover have "2 * (h * q) \<le> 1152921504606846976 * p + q" using h(2) by (simp add: k)
      ultimately show ?thesis using pos by linarith
    qed
    have down: "\<not> q < 100 * p" if "h \<le> 5764607523034235"
    proof -
      have "h * q \<le> 5764607523034235 * q" using that by (rule mult_le_mono1)
      moreover have "1152921504606846976 * p \<le> 2 * (h * q) + q" using h(1) by (simp add: k algebra_simps)
      moreover have "q \<le> 35184372088832" using small by simp
      ultimately show ?thesis by linarith
    qed
    show ?thesis using up down by (simp add: k) linarith
  next
    assume "59 < k"
    then have k: "(2::nat) ^ 60 \<le> 2 ^ k" by (intro power_increasing) auto
    then have "p * 1152921504606846976 \<le> p * 2 ^ k" by (intro mult_le_mono2) simp
    moreover have "p * 2 ^ k < 9007199254740992 * q" using hi by simp
    ultimately have no: "\<not> q < 100 * p" by linarith
    have "h \<le> 2 ^ 53"
    proof (rule ccontr)
      assume "\<not> h \<le> 2 ^ 53"
      then have "9007199254740993 \<le> h" by simp
      then have "9007199254740993 * q \<le> h * q" by (rule mult_le_mono1)
      moreover have "2 * (h * q) \<le> 2 * (p * 2 ^ k) + q" using h(2) by simp
      moreover have "p * 2 ^ k < 9007199254740992 * q" using hi by simp
      ultimately show False by linarith
    qed
    then show ?thesis using k no by simp
  qed
qed

lemma rate_exceeds_exact:
  assumes "0 \<le> d" "d \<le> n" "n \<le> 2 ^ 45"
  shows "rate_exceeds d n \<longleftrightarrow> n < 100 * d"
proof -
  consider "d = 0" | "0 < d" "n = d" | "0 < d" "d < n" using assms by linarith
  then show ?thesis
  proof cases
    case 3
    then have pq: "0 < nat d" "nat d < nat n" "nat n \<le> 2 ^ 45" "0 < nat n"
      using assms(3) by (auto simp: nat_le_iff)
    have "n < 100 * d \<longleftrightarrow> nat n < 100 * nat d" using 3 by (simp add: nat_less_iff)
    then show ?thesis
      using 3 rounded_rate [OF quot_scale_range [OF pq(1,2)] half_even_bounds [OF pq(4)] pq(1-3)]
      by (simp add: rate_exceeds_def Let_def)
  qed (use assms in \<open>auto simp: rate_exceeds_def\<close>)
qed

section \<open>Properties\<close>

lemma loader_SetBypass_simps [simp]:
  "ld_bypass (fst (loader_SetBypass put b l k)) = b"
  "snd (loader_SetBypass False b l k) = k"
  by (simp_all add: loader_SetBypass_def coll_SetBypass_def split: option.split)

lemma bypassed_stays: "ld_bypass l \<Longrightarrow> fold monitor_tick ts (m, l, k) = (m, l, k)"
  by (induction ts) (simp_all add: monitor_tick_def)

definition memory_pressure :: "tick \<Rightarrow> bool" where
  "memory_pressure t =
     (let limit = cgroupMemoryLimit (ti_genv t) (ti_files t)
      in 0 < limit \<and> mem_threshold limit < processRSS (ti_files t))"


text \<open>A machine without cgroup files, a process whose size cannot be read, and counters of 970
  events and 30 drops.\<close>

definition demo_tick :: "instant \<Rightarrow> bool \<Rightarrow> tick" where
  "demo_tick at put =
     \<lparr>ti_since = at, ti_now = at, ti_genv = (\<lambda>_. []), ti_files = (\<lambda>_. None),
      ti_fetch = (\<lambda>url. if url = ''http://127.0.0.1:9100/metrics'' then
        Some (\<lambda>name. if name = ''dre_events_emitted_total'' then Some [Some 970]
                    else if name = ''dre_ringbuf_drops_total'' then Some [Some 30] else None)
        else None),
      ti_put = put\<rparr>"

definition demo_monitor :: monitor where
  "demo_monitor = \<lparr>mo_emitted = 0, mo_drops = 0, mo_start = 0\<rparr>"

definition demo_loader :: loader where
  "demo_loader = NewLoader\<lparr>ld_reader := True, ld_coll :=
     Some \<lparr>co_objs = \<lparr>bo_prog = (\<lambda>_. True), bo_clock = False, bo_bypass = True\<rparr>, co_links = [], co_closed = False\<rparr>\<rparr>"

definition demo_kernel :: kernel where
  "demo_kernel = \<lparr>kn_links = {#}, kn_bypass = False\<rparr>"

lemma demo_metrics: "readAgentMetrics (ti_genv (demo_tick at p)) (ti_fetch (demo_tick at p)) = (970, 30)"
  by (simp add: readAgentMetrics_def demo_tick_def metrics_url_def counterValue_def has_prefix_def Let_def)

lemma demo_no_pressure: "\<not> memory_pressure (demo_tick at p)"
  by (simp add: memory_pressure_def demo_tick_def processRSS_def Let_def)

lemma demo_tick_result:
  "monitor_tick (demo_tick 40000000000 p) (demo_monitor, demo_loader, demo_kernel) =
     (\<lparr>mo_emitted = 970, mo_drops = 30, mo_start = 40000000000\<rparr>,
      loader_SetBypass p True demo_loader demo_kernel)"
  using demo_no_pressure [of 40000000000 p] demo_metrics [of 40000000000 p] rate_exceeds_exact [of 30 1000]
  by (simp add: monitor_tick_def memory_pressure_def Let_def demo_monitor_def demo_loader_def NewLoader_def
      dropWindow_def) (simp add: demo_tick_def)


text \<open>When the kernel refuses the write that switches the probes off, the agent believes they
  are off and no later tick tries again: the probes stay as they were for good.\<close>

theorem failed_bypass_is_final:
  assumes "monitor_tick t (m, l, k) = (m', l', k')" "\<not> ld_bypass l" "ld_bypass l'" "\<not> ti_put t"
  shows "fold monitor_tick ts (m', l', k') = (m', l', k)"
proof -
  have "k' = k"
    using assms by (auto simp: monitor_tick_def Let_def split: prod.splits if_splits)
      (metis loader_SetBypass_simps(2) snd_conv)+
  with assms(3) show ?thesis by (simp add: bypassed_stays)
qed

lemma failed_bypass_is_final_witness:
  "kn_bypass (snd (snd (fold monitor_tick [demo_tick 40000000000 False, demo_tick 80000000000 True]
     (demo_monitor, demo_loader, demo_kernel)))) = False"
proof -
  have off: "\<not> ld_bypass demo_loader" "\<not> ti_put (demo_tick 40000000000 False)" "\<not> kn_bypass demo_kernel"
    by (simp_all add: demo_loader_def NewLoader_def demo_tick_def demo_kernel_def)
  obtain l0 where l0: "loader_SetBypass False True demo_loader demo_kernel = (l0, demo_kernel)"
    by (metis loader_SetBypass_simps(2) surj_pair snd_conv)
  then have "ld_bypass l0" by (metis fst_conv loader_SetBypass_simps(1))
  with l0 show ?thesis
    using failed_bypass_is_final [of "demo_tick 40000000000 False" demo_monitor demo_loader demo_kernel
        "\<lparr>mo_emitted = 970, mo_drops = 30, mo_start = 40000000000\<rparr>" l0 demo_kernel
        "[demo_tick 80000000000 True]"]
    by (simp add: demo_tick_result off)
qed

end
