(* ===== verification/Agent_Forward.thy ===== *)
theory Agent_Forward
  imports Agent_Probe Collector
begin

text \<open>
  The forwarding half of the agent (dre-agent/internal/forward/grpc_client.go) with the choice of
  credentials (pkg/grpctls/tls.go), and what becomes of the agent's events and crash markers in
  the collector.  The TLS library, the gRPC transport and the interleaving of the channel with
  the end of the context are inputs.
\<close>

section \<open>Credentials\<close>

definition ServerEnabled :: "(bytes \<Rightarrow> bytes) \<Rightarrow> bool" where
  "ServerEnabled genv = (genv ''DRE_GRPC_TLS_CERT_FILE'' \<noteq> [] \<and> genv ''DRE_GRPC_TLS_KEY_FILE'' \<noteq> [])"

definition ClientEnabled :: "(bytes \<Rightarrow> bytes) \<Rightarrow> bool" where
  "ClientEnabled genv = (genv ''DRE_GRPC_TLS_CA_FILE'' \<noteq> [])"

datatype 'e tls_error = PairRequired | CARequired | CAUnreadable | InvalidPEM bytes | PairFailed 'e

text \<open>\<open>load_pair\<close> reads a certificate and its key, \<open>parse_pool\<close> a list of authorities; both are
  the TLS library's.  A configuration is the pool, when there is one, with the own pair.\<close>

definition ServerCredentials ::
  "(bytes \<Rightarrow> bytes) \<Rightarrow> (bytes \<Rightarrow> bytes \<Rightarrow> 'e + 'cert) \<Rightarrow> 'e tls_error + 'cert" where
  "ServerCredentials genv load_pair =
     (let certFile = genv ''DRE_GRPC_TLS_CERT_FILE''; keyFile = genv ''DRE_GRPC_TLS_KEY_FILE''
      in if certFile = [] \<or> keyFile = [] then Inl PairRequired
         else case load_pair certFile keyFile of
                Inl err \<Rightarrow> Inl (PairFailed err)
              | Inr cert \<Rightarrow> Inr cert)"

definition ClientCredentials ::
  "(bytes \<Rightarrow> bytes) \<Rightarrow> (bytes \<Rightarrow> bytes option) \<Rightarrow> (bytes \<Rightarrow> 'pool option) \<Rightarrow> (bytes \<Rightarrow> bytes \<Rightarrow> 'e + 'cert)
    \<Rightarrow> 'e tls_error + 'pool \<times> 'cert option" where
  "ClientCredentials genv files parse_pool load_pair =
     (let caFile = genv ''DRE_GRPC_TLS_CA_FILE'';
          certFile = genv ''DRE_GRPC_TLS_CERT_FILE''; keyFile = genv ''DRE_GRPC_TLS_KEY_FILE''
      in if caFile = [] then Inl CARequired
         else case files caFile of
           None \<Rightarrow> Inl CAUnreadable
         | Some caPEM \<Rightarrow>
             (case parse_pool caPEM of
                None \<Rightarrow> Inl (InvalidPEM caFile)
              | Some pool \<Rightarrow>
                  if certFile \<noteq> [] \<and> keyFile \<noteq> [] then
                    (case load_pair certFile keyFile of
                       Inl err \<Rightarrow> Inl (PairFailed err)
                     | Inr cert \<Rightarrow> Inr (pool, Some cert))
                  else Inr (pool, None)))"

section \<open>The client\<close>

record client =
  fc_addr :: bytes
  fc_node :: bytes
  fc_conn :: bool
  fc_vec :: clock

definition client_New :: "bytes \<Rightarrow> bytes \<Rightarrow> client" where
  "client_New addr nodeID = \<lparr>fc_addr = addr, fc_node = nodeID, fc_conn = False, fc_vec = Map.empty\<rparr>"

text \<open>\<open>creds\<close> is what \<^verbatim>\<open>grpctls.ClientCredentials\<close> gives, \<open>dial\<close> what connecting to an address with
  or without it gives.\<close>

datatype 'e connect_error = BadCredentials "'e tls_error" | DialFailed 'e

definition Connect ::
  "(bytes \<Rightarrow> bytes) \<Rightarrow> ('e tls_error + 'creds) \<Rightarrow> (bytes \<Rightarrow> 'creds option \<Rightarrow> 'e option) \<Rightarrow> client
    \<Rightarrow> 'e connect_error option \<times> client" where
  "Connect genv creds dial c =
     (let finish = (\<lambda>cr. case dial (fc_addr c) cr of
                           Some err \<Rightarrow> (Some (DialFailed err), c)
                         | None \<Rightarrow> (None, c\<lparr>fc_conn := True\<rparr>))
      in if fc_conn c then (None, c)
         else if ClientEnabled genv then
           (case creds of Inl err \<Rightarrow> (Some (BadCredentials err), c) | Inr cr \<Rightarrow> finish (Some cr))
         else finish None)"

definition client_Close :: "client \<Rightarrow> client" where
  "client_Close c = (if \<not> fc_conn c then c else c\<lparr>fc_conn := False\<rparr>)"

definition injectVector :: "ioevent \<Rightarrow> client \<Rightarrow> (ioevent \<times> client) option" where
  "injectVector evt c =
     (if IsWrite evt \<noteq> 1 \<or> PayloadLen evt = 0 then Some (evt, c)
      else do {
        pl \<leftarrow> payload_slice evt;
        let (updated, vec) = MaybeInjectHTTP pl (fc_node c) (Some (fc_vec c));
        let c' = c\<lparr>fc_vec := the vec\<rparr>;
        Some (if length updated = length pl then (evt, c')
              else (evt\<lparr>PayloadLen := of_nat (length updated), Payload := go_copy (Payload evt) updated\<rparr>, c'))
      })"

text \<open>One event over a stream of its own: the answers of opening, sending, closing and receiving.\<close>

record 'e rpc_env =
  re_open :: "'e option"
  re_send :: "'e option"
  re_close :: "'e option"
  re_recv :: "'e option"

definition first_error :: "'e option list \<Rightarrow> 'e option" where
  "first_error rs = (case dropWhile (\<lambda>r. r = None) rs of [] \<Rightarrow> None | r # _ \<Rightarrow> r)"

definition SendEvent ::
  "(client \<Rightarrow> 'e option \<times> client) \<Rightarrow> 'e rpc_env \<Rightarrow> ioevent \<Rightarrow> client \<Rightarrow> ('e option \<times> client \<times> pb_event list) option" where
  "SendEvent connect env evt c =
     (let (cerr, c1) = (if \<not> fc_conn c then connect c else (None, c))
      in case cerr of
           Some err \<Rightarrow> Some (Some err, c1, [])
         | None \<Rightarrow>
             (case re_open env of
                Some err \<Rightarrow> Some (Some err, c1, [])
              | None \<Rightarrow> do {
                  (evt', c2) \<leftarrow> injectVector evt c1;
                  let msg = IOEventFromNative evt' (fc_node c2);
                  Some (if re_send env \<noteq> None then (re_send env, c2, [])
                        else (first_error [re_close env, re_recv env], c2, [msg]))
                }))"

text \<open>What the \<^verbatim>\<open>select\<close> of the stream loop meets: the end of the context, the closed channel, or
  an event with whether its \<^verbatim>\<open>Send\<close> succeeds.  A list that ends is a loop that waits.\<close>

datatype fwd_in = FwdDone | FwdClosed | FwdEvent ioevent bool
datatype fwd_end = Finished | Broken "fwd_in list" | Waiting

fun runStream :: "fwd_in list \<Rightarrow> client \<Rightarrow> (pb_event list \<times> client \<times> fwd_end) option" where
  "runStream [] c = Some ([], c, Waiting)"
| "runStream (FwdDone # ins) c = Some ([], c, Finished)"
| "runStream (FwdClosed # ins) c = Some ([], c, Finished)"
| "runStream (FwdEvent evt ok # ins) c = do {
     (evt', c') \<leftarrow> injectVector evt c;
     if \<not> ok then Some ([], c', Broken ins)
     else do {
       (sent, c'', e) \<leftarrow> runStream ins c';
       Some (IOEventFromNative evt' (fc_node c') # sent, c'', e)
     }
   }"

text \<open>The outer loop opens a stream again whenever one breaks; \<open>opens\<close> says which attempts
  succeed.  The result is the messages per stream and whether the loop has returned.\<close>

fun forward_loop :: "bool list \<Rightarrow> fwd_in list \<Rightarrow> client \<Rightarrow> (pb_event list list \<times> client \<times> bool) option" where
  "forward_loop [] ins c = Some ([], c, False)"
| "forward_loop (False # opens) ins c = forward_loop opens ins c"
| "forward_loop (True # opens) ins c = do {
     (sent, c', e) \<leftarrow> runStream ins c;
     case e of
       Finished \<Rightarrow> Some ([sent], c', True)
     | Waiting \<Rightarrow> Some ([sent], c', False)
     | Broken rest \<Rightarrow> do {
         (ss, c'', returned) \<leftarrow> forward_loop opens rest c';
         Some (sent # ss, c'', returned)
       }
   }"

definition RunForwarder ::
  "(client \<Rightarrow> 'e option \<times> client) \<Rightarrow> bool list \<Rightarrow> fwd_in list \<Rightarrow> client \<Rightarrow> (pb_event list list \<times> client \<times> bool) option" where
  "RunForwarder connect opens ins c =
     (case connect c of
        (Some err, c') \<Rightarrow> Some ([], c', True)
      | (None, c') \<Rightarrow> forward_loop opens ins c')"

text \<open>In mock mode the events are only counted off and logged.\<close>

fun MockForwarder :: "fwd_in list \<Rightarrow> (u64 \<times> u64 \<times> u32) list \<times> bool" where
  "MockForwarder [] = ([], False)"
| "MockForwarder (FwdDone # ins) = ([], True)"
| "MockForwarder (FwdClosed # ins) = ([], True)"
| "MockForwarder (FwdEvent evt ok # ins) =
     (let (logged, returned) = MockForwarder ins
      in ((PidTgid evt, TimestampNs evt, Fd evt) # logged, returned))"

section \<open>Lemmas\<close>

lemma injectVector_keeps:
  assumes "injectVector evt c = Some (evt', c')"
  shows "PidTgid evt' = PidTgid evt" "TimestampNs evt' = TimestampNs evt" "Fd evt' = Fd evt"
    "IsWrite evt' = IsWrite evt" "fc_node c' = fc_node c" "wf_event evt' = wf_event evt"
  using assms by (auto simp: injectVector_def Let_def wf_event_def split: if_splits Option.bind_splits prod.splits)

lemma injectVector_total:
  assumes "wf_event evt" "pl_ok evt"
  shows "\<exists>evt' c'. injectVector evt c = Some (evt', c')"
  using assms by (auto simp: injectVector_def Let_def payload_slice_Some split: prod.split)

lemma injectVector_panics_iff:
  "wf_event evt \<Longrightarrow> injectVector evt c = None \<longleftrightarrow> IsWrite evt = 1 \<and> PayloadLen evt \<noteq> 0 \<and> \<not> pl_ok evt"
  by (auto simp: injectVector_def Let_def payload_slice_panics_iff split: if_splits Option.bind_splits prod.splits)
    (metis option.distinct(1) payload_slice_panics_iff)

definition msg_fits :: "bytes \<Rightarrow> pb_event \<Rightarrow> bool" where
  "msg_fits node m =
     (unat (pb_payload_len m) \<le> MaxPayloadLen \<and> length (pb_payload m) = unat (pb_payload_len m) \<and>
      length (pb_comm m) = CommLen \<and> pb_node_id m = node)"

lemma IOEventFromNative_fits: "wf_event e \<Longrightarrow> msg_fits node (IOEventFromNative e node)"
  by (simp add: msg_fits_def IOEventFromNative_def Let_def unat_clamp_len wf_event_def)

text \<open>The events the loop takes in, in order, with whether their message went out; what identifies
  an event and its message.\<close>

fun taken :: "fwd_in list \<Rightarrow> (ioevent \<times> bool) list" where
  "taken [] = []"
| "taken (FwdEvent e ok # ins) = (e, ok) # taken ins"
| "taken (_ # ins) = []"

definition told_to_stop :: "fwd_in list \<Rightarrow> bool" where
  "told_to_stop ins = (FwdDone \<in> set ins \<or> FwdClosed \<in> set ins)"

definition forwardable :: "fwd_in list \<Rightarrow> bool" where
  "forwardable ins = list_all (\<lambda>i. case i of FwdEvent e ok \<Rightarrow> wf_event e \<and> pl_ok e | _ \<Rightarrow> True) ins"

definition event_id :: "ioevent \<Rightarrow> u64 \<times> u64 \<times> u32 \<times> u32" where
  "event_id e = (PidTgid e, TimestampNs e, Fd e, ucast (IsWrite e))"

definition msg_id :: "pb_event \<Rightarrow> u64 \<times> u64 \<times> u32 \<times> u32" where
  "msg_id m = (pb_pid_tgid m, pb_timestamp_ns m, pb_fd m, pb_is_write m)"

lemma msg_id_IOEventFromNative: "msg_id (IOEventFromNative e node) = event_id e"
  by (simp add: msg_id_def event_id_def IOEventFromNative_def Let_def)

lemma event_id_injectVector: "injectVector evt c = Some (evt', c') \<Longrightarrow> event_id evt' = event_id evt"
  by (simp add: event_id_def injectVector_keeps)

definition sent_ids :: "fwd_in list \<Rightarrow> (u64 \<times> u64 \<times> u32 \<times> u32) list" where
  "sent_ids ins = [event_id e. (e, ok) \<leftarrow> taken ins, ok]"

definition failures :: "fwd_in list \<Rightarrow> nat" where
  "failures ins = length [p \<leftarrow> taken ins. \<not> snd p]"

lemmas stream_defs = sent_ids_def failures_def told_to_stop_def forwardable_def

lemma runStream_spec:
  "forwardable ins \<Longrightarrow>
   \<exists>sent c' e. runStream ins c = Some (sent, c', e) \<and> fc_node c' = fc_node c \<and>
     list_all (msg_fits (fc_node c)) sent \<and>
     (case e of
        Broken rest \<Rightarrow> forwardable rest \<and> sent_ids ins = map msg_id sent @ sent_ids rest \<and>
          failures ins = failures rest + 1 \<and> told_to_stop rest = told_to_stop ins
      | Finished \<Rightarrow> told_to_stop ins \<and> sent_ids ins = map msg_id sent \<and> failures ins = 0
      | Waiting \<Rightarrow> \<not> told_to_stop ins \<and> sent_ids ins = map msg_id sent \<and> failures ins = 0)"
proof (induction ins arbitrary: c)
  case (Cons i ins)
  show ?case
  proof (cases i)
    case (FwdEvent evt ok)
    with Cons.prems have wf: "wf_event evt" "pl_ok evt" "forwardable ins" by (simp_all add: forwardable_def)
    then obtain evt' c1 where inj: "injectVector evt c = Some (evt', c1)" using injectVector_total by blast
    note keep = injectVector_keeps [OF inj] event_id_injectVector [OF inj]
    have fits: "msg_fits (fc_node c) (IOEventFromNative evt' (fc_node c))"
      using wf keep by (simp add: IOEventFromNative_fits)
    obtain sent c2 e where "runStream ins c1 = Some (sent, c2, e)" "fc_node c2 = fc_node c1"
        "list_all (msg_fits (fc_node c1)) sent"
        "case e of
          Broken rest \<Rightarrow> forwardable rest \<and> sent_ids ins = map msg_id sent @ sent_ids rest \<and>
            failures ins = failures rest + 1 \<and> told_to_stop rest = told_to_stop ins
        | Finished \<Rightarrow> told_to_stop ins \<and> sent_ids ins = map msg_id sent \<and> failures ins = 0
        | Waiting \<Rightarrow> \<not> told_to_stop ins \<and> sent_ids ins = map msg_id sent \<and> failures ins = 0"
      using Cons.IH [OF wf(3), of c1] by blast
    then show ?thesis using FwdEvent inj fits wf keep
      by (auto simp: stream_defs msg_id_IOEventFromNative split: fwd_end.splits)
  qed (simp_all add: stream_defs)
qed (simp add: stream_defs)

lemma forward_loop_spec:
  "forwardable ins \<Longrightarrow> failures ins < length (filter id opens) \<Longrightarrow>
   \<exists>streams c'. forward_loop opens ins c = Some (streams, c', told_to_stop ins) \<and>
     map msg_id (concat streams) = sent_ids ins \<and> list_all (msg_fits (fc_node c)) (concat streams)"
proof (induction opens arbitrary: ins c)
  case (Cons op opens)
  show ?case
  proof (cases op)
    case True
    obtain sent c1 e where r: "runStream ins c = Some (sent, c1, e)" "fc_node c1 = fc_node c"
        "list_all (msg_fits (fc_node c)) sent"
        "case e of
          Broken rest \<Rightarrow> forwardable rest \<and> sent_ids ins = map msg_id sent @ sent_ids rest \<and>
            failures ins = failures rest + 1 \<and> told_to_stop rest = told_to_stop ins
        | Finished \<Rightarrow> told_to_stop ins \<and> sent_ids ins = map msg_id sent \<and> failures ins = 0
        | Waiting \<Rightarrow> \<not> told_to_stop ins \<and> sent_ids ins = map msg_id sent \<and> failures ins = 0"
      using runStream_spec [OF Cons.prems(1), of c] by blast
    show ?thesis
    proof (cases e)
      case (Broken rest)
      with r Cons.prems True obtain ss c2 where "forward_loop opens rest c1 = Some (ss, c2, told_to_stop rest)"
        "map msg_id (concat ss) = sent_ids rest" "list_all (msg_fits (fc_node c1)) (concat ss)"
        using Cons.IH [of rest c1] by auto
      with r Broken True show ?thesis by (simp add: list_all_iff)
    qed (use r True in simp_all)
  qed (use Cons in simp)
qed simp

section \<open>Properties\<close>

text \<open>C14: Whatever the header injection does to an event, no message outgrows the wire format: the
  forwarder does not panic on events whose length field fits, every message carries exactly as
  many payload bytes as its length field says, at most 2048, and its full command name.  With
  enough streams the messages are those of the events whose \<^verbatim>\<open>Send\<close> succeeded, in order: an event
  on which a stream breaks is lost.\<close>

theorem forwarded_messages_fit:
  assumes "forwardable ins" "failures ins < length (filter id opens)"
  shows "\<exists>streams c'. forward_loop opens ins c = Some (streams, c', told_to_stop ins) \<and>
     (\<forall>m \<in> set (concat streams). unat (pb_payload_len m) \<le> 2048 \<and>
        length (pb_payload m) = unat (pb_payload_len m) \<and> length (pb_comm m) = 16) \<and>
     map msg_id (concat streams) = [event_id e. (e, ok) \<leftarrow> taken ins, ok]"
  using forward_loop_spec [OF assms, of c]
  by (auto simp: list_all_iff msg_fits_def size_defs sent_ids_def)

definition long_write :: ioevent where
  "long_write = zero_event\<lparr>PayloadLen := 2048, IsWrite := 1, Fd := 5\<rparr>"

lemma forwarded_messages_fit_witness:
  "\<exists>streams c'. forward_loop [True, False, True]
        [FwdEvent long_write True, FwdEvent (long_write\<lparr>Fd := 6\<rparr>) False, FwdEvent (long_write\<lparr>Fd := 7\<rparr>) True, FwdClosed]
        (client_New ''c:9090'' ''n'') = Some (streams, c', True) \<and>
     map msg_id (concat streams) = [(0, 0, 5, 1), (0, 0, 7, 1)]"
proof -
  let ?ins = "[FwdEvent long_write True, FwdEvent (long_write\<lparr>Fd := 6\<rparr>) False, FwdEvent (long_write\<lparr>Fd := 7\<rparr>) True, FwdClosed]"
  have "forwardable ?ins" "failures ?ins = 1" "told_to_stop ?ins"
    by (simp_all add: stream_defs wf_event_def pl_ok_def long_write_def zero_event_def size_defs)
  with forwarded_messages_fit [of ?ins "[True, False, True]" "client_New ''c:9090'' ''n''"]
  show ?thesis by (auto simp: event_id_def long_write_def zero_event_def)
qed

text \<open>The clock header that the agent puts into an event never makes an edge of the causality
  graph: it is put into writes only, and the collector looks for it in reads only.  A read goes
  through the forwarder unchanged, so an edge can only come from a header the application itself
  received.\<close>

theorem injected_headers_make_no_edges:
  assumes "injectVector evt c = Some (evt', c')"
  shows "evt' = evt \<or> parseVectorHeader (ToNative (Some (IOEventFromNative evt' (fc_node c')))) localNode v = Some v"
proof (cases "IsWrite evt = 1")
  case True
  with injectVector_keeps(4) [OF assms] show ?thesis
    by (simp add: parseVectorHeader_def ToNative_def IOEventFromNative_def Let_def zero_event_def)
next
  case False
  with assms show ?thesis by (simp add: injectVector_def)
qed

definition demo_line :: bytes where
  "demo_line = ''GET / HTTP/1.1'' @ crlf @ ''A:'' @ crlf"

definition demo_line_injected :: bytes where
  "demo_line_injected = ''GET / HTTP/1.1'' @ crlf @ ''X-DRE-Vector-Clock: n:1'' @ crlf @ ''A:'' @ crlf"

definition demo_write :: ioevent where
  "demo_write = zero_event\<lparr>IsWrite := 1, PayloadLen := of_nat (length demo_line),
     Payload := go_copy (replicate MaxPayloadLen NUL) demo_line\<rparr>"

lemma payload_slice_copied:
  "length u \<le> length d \<Longrightarrow> length u < 2 ^ 32 \<Longrightarrow>
   payload_slice (e\<lparr>PayloadLen := of_nat (length u), Payload := go_copy d u\<rparr>) = Some u"
  by (simp add: payload_slice_def unat_of_nat take_bit_eq_mod go_copy_def slice_to_def min_def)

lemma demo_line_facts: "length demo_line = 20" "length demo_line_injected = 45"
    "MaybeInjectHTTP demo_line ''n'' (Some Map.empty) = (demo_line_injected, Some [''n'' \<mapsto> 1])"
  by (simp_all add: demo_line_def demo_line_injected_def MaybeInjectHTTP_def InjectHeader_def clock_value_def
      HeaderName_def seq_of_def crlf_def itoa.simps digit_char_def Let_def)

lemma demo_write_slice: "payload_slice demo_write = Some demo_line"
  unfolding demo_write_def by (rule payload_slice_copied) (simp_all add: demo_line_facts size_defs)

lemma demo_write_injected:
  "injectVector demo_write (client_New ''c:9090'' ''n'') =
     Some (demo_write\<lparr>PayloadLen := of_nat (length demo_line_injected),
                      Payload := go_copy (Payload demo_write) demo_line_injected\<rparr>,
           (client_New ''c:9090'' ''n'')\<lparr>fc_vec := [''n'' \<mapsto> 1]\<rparr>)"
  by (simp add: injectVector_def demo_write_slice demo_line_facts client_New_def Let_def)
    (simp add: demo_write_def demo_line_facts)

lemma injected_headers_make_no_edges_witness:
  "\<exists>evt' c'. injectVector demo_write (client_New ''c:9090'' ''n'') = Some (evt', c') \<and> evt' \<noteq> demo_write \<and>
     (\<forall>v. parseVectorHeader (ToNative (Some (IOEventFromNative evt' (fc_node c')))) ''node-b'' v = Some v)"
proof -
  obtain evt' c' where inj: "injectVector demo_write (client_New ''c:9090'' ''n'') = Some (evt', c')"
    and len: "PayloadLen evt' = 45"
    using demo_write_injected by (simp add: demo_line_facts)
  have "evt' \<noteq> demo_write" using len by (auto simp: demo_write_def demo_line_facts)
  with inj injected_headers_make_no_edges [OF inj, where localNode = "''node-b''"] show ?thesis by blast
qed

section \<open>From the ring buffer to the collector\<close>

lemma received_msgs: "received (zip (map Msg ms) ts) = zip ms ts"
proof (induction ms arbitrary: ts)
  case (Cons m ms)
  then show ?case by (cases ts) auto
qed simp

lemma StreamEvents_stays_open:
  "StreamEvents (zip (map Msg ms) ts) s = Some (s', outs, res) \<Longrightarrow> res = Open"
proof (induction ms arbitrary: ts s s' outs res)
  case (Cons m ms)
  show ?case
  proof (cases ts)
    case (Cons t ts')
    with Cons.prems show ?thesis
      by (auto split: Option.bind_splits prod.splits dest: Cons.IH)
  qed (use Cons.prems in simp)
qed simp

lemma ring_events_encoded:
  "list_all wf_event es \<Longrightarrow> ring_events (map (Sample \<circ> Encode) es) = es"
  by (induction es) (auto simp: ring_events_def reads_until_end_def event_of_record_Encode)

lemma reads_forwarded:
  "list_all (\<lambda>e. IsWrite e \<noteq> 1) es \<Longrightarrow>
   runStream (map (\<lambda>e. FwdEvent e True) es) c =
     Some (map (\<lambda>e. IOEventFromNative e (fc_node c)) es, c, Waiting)"
  by (induction es) (auto simp: injectVector_def)

text \<open>What an agent does with the reads that the probes put into the ring buffer.\<close>

lemma reads_become_messages:
  assumes "list_all (\<lambda>e. wf_event e \<and> IsWrite e = 0) es"
  shows "\<exists>rs. loader_Run True (map (Sample \<circ> Encode) es) run_start = (rs, False) \<and> rs_out rs = es \<and>
    RunForwarder (\<lambda>c. (None :: unit option, c)) [True] (map (\<lambda>e. FwdEvent e True) es) c =
      Some ([map (\<lambda>e. IOEventFromNative e (fc_node c)) es], c, False)"
proof -
  have wf: "list_all wf_event es" and rd: "list_all (\<lambda>e. IsWrite e \<noteq> 1) es"
    and keep: "[e \<leftarrow> es. \<not> (4 \<le> IsWrite e \<and> True)] = es"
    using assms by (auto simp: list_all_iff filter_id_conv)
  obtain rs where "loader_Run True (map (Sample \<circ> Encode) es) run_start = (rs, False)" "rs_out rs = es"
    using keep by (auto simp: loader_Run_general ring_events_encoded [OF wf] run_start_def)
  then show ?thesis using reads_forwarded [OF rd, of c] by (simp add: RunForwarder_def)
qed

text \<open>What the kernel captures is what the collector keeps.  Reads that the probes put into the
  ring buffer pass through the agent's loop, its channel and the stream and arrive in the
  collector's buffer, unchanged and in order, attributed to the node; nothing panics on the way.\<close>

theorem captured_reads_reach_the_buffer:
  assumes "list_all (\<lambda>e. wf_event e \<and> pl_ok e \<and> zero_tail e \<and> IsWrite e = 0) es"
    and "length stamps = length es" and "graph_inv (sv_vector s)"
  shows "\<exists>rs msgs c' s' outs.
     loader_Run True (map (Sample \<circ> Encode) es) run_start = (rs, False) \<and>
     RunForwarder (\<lambda>c. (None :: unit option, c)) [True] (map (\<lambda>e. FwdEvent e True) (rs_out rs)) c = Some ([msgs], c', False) \<and>
     StreamEvents (zip (map Msg msgs) stamps) s = Some (s', outs, Open :: unit stream_result) \<and>
     sv_buf s' = Add_all (map (\<lambda>(e, ts). (e, fc_node c, fst ts)) (zip es stamps)) (sv_buf s) \<and>
     sv_ingested s' = sv_ingested s + length es"
proof -
  let ?msgs = "map (\<lambda>e. IOEventFromNative e (fc_node c)) es"
  obtain rs where rs: "loader_Run True (map (Sample \<circ> Encode) es) run_start = (rs, False)" "rs_out rs = es"
    and fw: "RunForwarder (\<lambda>c. (None :: unit option, c)) [True] (map (\<lambda>e. FwdEvent e True) es) c = Some ([?msgs], c, False)"
    using reads_become_messages [of es c] assms(1) by (auto simp: list_all_iff)
  obtain s' outs and res :: "unit stream_result"
    where st: "StreamEvents (zip (map Msg ?msgs) stamps) s = Some (s', outs, res)"
    "sv_buf s' = Add_all (map arrival_of (zip ?msgs stamps)) (sv_buf s)"
    "sv_ingested s' = sv_ingested s + length es"
    using StreamEvents_total [OF assms(3), of "zip (map Msg ?msgs) stamps"] assms(2)
    by (auto simp: received_msgs simp del: map_map)
  have "map arrival_of (zip ?msgs stamps) = map (\<lambda>(e, ts). (e, fc_node c, fst ts)) (zip es stamps)"
  proof (rule nth_equalityI)
    fix i assume "i < length (map arrival_of (zip ?msgs stamps))"
    then have i: "i < length es" "i < length stamps" by auto
    then have "wf_event (es ! i)" "pl_ok (es ! i)" "zero_tail (es ! i)"
      using assms(1) by (auto simp: list_all_length)
    then have "ToNative (Some (IOEventFromNative (es ! i) (fc_node c))) = es ! i"
      by (rule message_keeps_event)
    with i show "map arrival_of (zip ?msgs stamps) ! i = map (\<lambda>(e, ts). (e, fc_node c, fst ts)) (zip es stamps) ! i"
      by (simp add: arrival_of_def IOEventFromNative_def Let_def split: prod.split)
  qed simp
  with rs fw st StreamEvents_stays_open [OF st(1)]
  have "loader_Run True (map (Sample \<circ> Encode) es) run_start = (rs, False) \<and>
     RunForwarder (\<lambda>c. (None :: unit option, c)) [True] (map (\<lambda>e. FwdEvent e True) (rs_out rs)) c = Some ([?msgs], c, False) \<and>
     StreamEvents (zip (map Msg ?msgs) stamps) s = Some (s', outs, Open :: unit stream_result) \<and>
     sv_buf s' = Add_all (map (\<lambda>(e, ts). (e, fc_node c, fst ts)) (zip es stamps)) (sv_buf s) \<and>
     sv_ingested s' = sv_ingested s + length es"
    by (simp only: simp_thms)
  then show ?thesis by blast
qed

text \<open>Two reads of a fresh agent and a fresh service.\<close>

definition demo_reads :: "ioevent list" where
  "demo_reads =
     [zero_event\<lparr>Fd := 3, PayloadLen := 20, Payload := go_copy (replicate MaxPayloadLen NUL) demo_line\<rparr>,
      zero_event\<lparr>Fd := 4\<rparr>]"

lemma demo_reads_ok:
  "list_all (\<lambda>e. wf_event e \<and> pl_ok e \<and> zero_tail e \<and> IsWrite e = 0) demo_reads"
  by (simp add: demo_reads_def wf_event_def pl_ok_def zero_tail_def zero_event_def go_copy_def
      demo_line_facts size_defs)

lemma captured_reads_reach_the_buffer_witness:
  "\<exists>rs msgs c' s' outs.
     loader_Run True (map (Sample \<circ> Encode) demo_reads) run_start = (rs, False) \<and>
     RunForwarder (\<lambda>c. (None :: unit option, c)) [True] (map (\<lambda>e. FwdEvent e True) (rs_out rs))
       (client_New ''c:9090'' ''n'') = Some ([msgs], c', False) \<and>
     StreamEvents (zip (map Msg msgs) [(1, 1, 1), (2, 2, 2)]) (service_new False) =
       Some (s', outs, Open :: unit stream_result) \<and>
     map (Fd \<circ> be_event) (sv_buf s') = [3, 4]"
proof -
  have "map (Fd \<circ> be_event) (Add_all (map (\<lambda>(e, ts). (e, ''n'', fst ts)) (zip demo_reads [(1, 1, 1), (2, 2, 2)])) []) = [3, 4]"
    by (simp add: demo_reads_def Add_all_def Add_eq event_of_def WindowDuration_def)
  moreover have "graph_inv (sv_vector (service_new False))" "length [(1, 1, 1), (2, 2, 2) :: stamps] = length demo_reads"
    "sv_buf (service_new False) = []" "fc_node (client_New ''c:9090'' ''n'') = ''n''"
    by (simp_all add: service_new_def graph_inv_new demo_reads_def client_New_def)
  ultimately show ?thesis
    using captured_reads_reach_the_buffer [OF demo_reads_ok, of "[(1, 1, 1), (2, 2, 2)]" "service_new False" "client_New ''c:9090'' ''n''"]
    by metis
qed

section \<open>Crash markers\<close>

text \<open>A crash that the kernel reports is filed as a manual snapshot.  The agent names the reason
  in its request, a process exit or a segmentation fault, but the collector's endpoint reads only
  the detail: its answer to either marker is to take a snapshot whose trigger is the manual one.\<close>

theorem crash_markers_become_manual:
  assumes "marker_request evt = Some (reason, detail)"
    and "decode (encode (reason, detail)) = Some detail"
    and "te_on_snap (sv_triggers (cl_service c))"
  shows "(reason = ''process-exit'' \<or> reason = ''sigsegv'') \<and>
    map_option snd (serve_trigger env resp ''POST'' (decode (encode (reason, detail))) clk c) =
      captureSnapshot env \<lparr>trig_type = TriggerManual, trig_detail = detail\<rparr>
        (c\<lparr>cl_service := (cl_service c)\<lparr>sv_triggers := (sv_triggers (cl_service c))\<lparr>te_last_fire := Some (snd clk)\<rparr>\<rparr>\<rparr>)"
proof -
  have "reason = ''process-exit'' \<or> reason = ''sigsegv''"
    using assms(1) by (auto simp: marker_request_def Let_def split: if_splits)
  then show ?thesis
    using assms(2,3)
    by (auto simp: serve_trigger_def TriggerSnapshot_def Manual_def fire_def Let_def split: Option.bind_split)
qed

lemma crash_markers_become_manual_witness:
  "map_option snd (serve_trigger demo_env (\<lambda>_. []) ''POST'' (Some ''pid=0 sig=11'') (5, 6) demo_collector) =
      captureSnapshot demo_env \<lparr>trig_type = TriggerManual, trig_detail = ''pid=0 sig=11''\<rparr>
        (demo_collector\<lparr>cl_service := (cl_service demo_collector)
          \<lparr>sv_triggers := (sv_triggers (cl_service demo_collector))\<lparr>te_last_fire := Some 6\<rparr>\<rparr>\<rparr>)"
proof -
  have m: "marker_request (zero_event\<lparr>IsWrite := 5, Fd := 11\<rparr>) = Some (''sigsegv'', ''pid=0 sig=11'')"
    by (simp add: marker_request_def zero_event_def Let_def itoa.simps digit_char_def)
  have on: "te_on_snap (sv_triggers (cl_service demo_collector))"
    by (simp add: demo_collector_def collector_New_def trigger_New_def Let_def)
  show ?thesis
    using crash_markers_become_manual [OF m, of "\<lambda>d. Some d" snd, OF _ on, where env = demo_env
        and resp = "\<lambda>_. []" and clk = "(5, 6)"]
    by simp
qed

end
