(* ===== verification/Hooks.thy ===== *)
theory Hooks
  imports Project_Config
begin

text \<open>
  The hooks BugIT installs into a Node project (pkg/project/hooks.go): the files under
  \<^verbatim>\<open>.bugit/\<close>, the choice of the inspector port, and the rewriting of the \<^verbatim>\<open>dev\<close> script in
  \<^verbatim>\<open>package.json\<close>.  The file system is that of Project_Config; the JSON decoder, \<^verbatim>\<open>strconv.Quote\<close>
  and which ports answer on \<^verbatim>\<open>/json/list\<close> are inputs.  The JSON encoder is written out.
\<close>

section \<open>The files\<close>

abbreviation squote :: bytes where "squote \<equiv> [CHR 0x27]"
abbreviation dquote :: bytes where "dquote \<equiv> [CHR 0x22]"
abbreviation bslash :: bytes where "bslash \<equiv> [CHR 0x5C]"

definition unlines :: "bytes list \<Rightarrow> bytes" where
  "unlines ls = concat (map (\<lambda>l. l @ [LF]) ls)"

definition inspect_bootstrap :: "int \<Rightarrow> bytes" where
  "inspect_bootstrap port = unlines
    [squote @ ''use strict'' @ squote @ '';'',
     ''var port = parseInt(process.env.BUGIT_INSPECT_PORT || '' @ squote @ itoa_int port @ squote @ '', 10);'',
     ''try {'',
     ''  require('' @ squote @ ''inspector'' @ squote @ '').open(port, '' @ squote @ ''127.0.0.1'' @ squote @ '', false);'',
     ''} catch (e) {'',
     ''  if (e && e.code !== '' @ squote @ ''ERR_INSPECTOR_ALREADY_CONNECTED'' @ squote @ '') {'',
     ''    console.error('' @ squote @ ''[BugIT] inspect bootstrap failed:'' @ squote @ '', e.message);'',
     ''  }'',
     ''}'']"

definition run_with_hooks :: "int \<Rightarrow> bytes" where
  "run_with_hooks port = unlines
    [squote @ ''use strict'' @ squote @ '';'',
     ''var port = parseInt(process.env.BUGIT_INSPECT_PORT || '' @ squote @ itoa_int port @ squote @ '', 10);'',
     ''var inspectFlag = '' @ squote @ ''--inspect=127.0.0.1:'' @ squote @ '' + port;'',
     ''var hookFlags = ['' @ squote @ ''-r'' @ squote @ '', '' @ squote @ ''.bugit/inspect-bootstrap.cjs'' @ squote @ '', '' @ squote @ ''-r'' @ squote @ '', '' @ squote @ ''.bugit/preload.cjs'' @ squote @ '', inspectFlag];'',
     ''var existing = (process.env.NODE_OPTIONS || '' @ squote @ squote @ '').trim();'',
     ''var merged = existing ? existing + '' @ squote @ '' '' @ squote @ '' + hookFlags.join('' @ squote @ '' '' @ squote @ '') : hookFlags.join('' @ squote @ '' '' @ squote @ '');'',
     ''process.env.NODE_OPTIONS = merged;'',
     ''var args = process.argv.slice(2);'',
     ''if (args.length === 0) {'',
     ''  console.error('' @ squote @ ''[BugIT] run-with-hooks: no command provided'' @ squote @ '');'',
     ''  process.exit(1);'',
     ''}'',
     ''var child = require('' @ squote @ ''child_process'' @ squote @ '').spawn(args[0], args.slice(1), {'',
     ''  stdio: '' @ squote @ ''inherit'' @ squote @ '','',
     ''  env: process.env,'',
     ''  shell: process.platform === '' @ squote @ ''win32'' @ squote,
     ''});'',
     ''child.on('' @ squote @ ''exit'' @ squote @ '', function (code, signal) {'',
     ''  if (signal) process.kill(process.pid, signal);'',
     ''  process.exit(code == null ? 1 : code);'',
     ''});'']"

definition preload_hook :: "bytes \<Rightarrow> bytes" where
  "preload_hook url = unlines
    [''(function () {'',
     ''  if (global.__bugitPreloadDisabled) return;'',
     ''  if (global.__bugitPreloadTap) return;'',
     ''  global.__bugitPreloadTap = true;'',
     [],
     ''  var COLLECTOR = process.env.BUGIT_COLLECTOR_HTTP || '' @ url @ '';'',
     ''  var COMM = (process.env.BUGIT_COMM || '' @ squote @ ''node'' @ squote @ '').slice(0, 16);'',
     ''  var MAX = 2048;'',
     ''  var nextFD = 1;'',
     [],
     ''  function postEvent(isWrite, payload) {'',
     ''    var text = String(payload);'',
     ''    if (text.length > MAX) text = text.slice(0, MAX);'',
     ''    var body = JSON.stringify({'',
     ''      node_id: '' @ squote @ ''local-dev'' @ squote @ '','',
     ''      events: [{'',
     ''        timestamp_ns: Date.now() * 1000000,'',
     ''        fd: nextFD++,'',
     ''        is_write: isWrite ? 1 : 0,'',
     ''        comm: COMM,'',
     ''        payload: text'',
     ''      }]'',
     ''    });'',
     ''    try {'',
     ''      var http = require('' @ squote @ ''http'' @ squote @ '');'',
     ''      var url = new URL(COLLECTOR + '' @ squote @ ''/v1/events'' @ squote @ '');'',
     ''      var req = http.request({'',
     ''        hostname: url.hostname,'',
     ''        port: url.port || 80,'',
     ''        path: url.pathname,'',
     ''        method: '' @ squote @ ''POST'' @ squote @ '','',
     ''        headers: { '' @ squote @ ''Content-Type'' @ squote @ '': '' @ squote @ ''application/json'' @ squote @ '', '' @ squote @ ''Content-Length'' @ squote @ '': Buffer.byteLength(body) }'',
     ''      });'',
     ''      req.on('' @ squote @ ''error'' @ squote @ '', function () {});'',
     ''      req.write(body);'',
     ''      req.end();'',
     ''    } catch (e) {}'',
     ''  }'',
     [],
     ''  function headerLines(headers) {'',
     ''    var out = '' @ squote @ squote @ '';'',
     ''    if (!headers) return out;'',
     ''    for (var k in headers) {'',
     ''      if (!Object.prototype.hasOwnProperty.call(headers, k)) continue;'',
     ''      var v = headers[k];'',
     ''      if (Array.isArray(v)) {'',
     ''        for (var i = 0; i < v.length; i++) out += k + '' @ squote @ '': '' @ squote @ '' + v[i] + '' @ squote @ bslash @ ''r'' @ bslash @ ''n'' @ squote @ '';'',
     ''      } else {'',
     ''        out += k + '' @ squote @ '': '' @ squote @ '' + v + '' @ squote @ bslash @ ''r'' @ bslash @ ''n'' @ squote @ '';'',
     ''      }'',
     ''    }'',
     ''    return out;'',
     ''  }'',
     [],
     ''  function loadDiagnostics() {'',
     ''    try { return require('' @ squote @ ''diagnostics_channel'' @ squote @ ''); } catch (e1) {'',
     ''      try { return require('' @ squote @ ''node:diagnostics_channel'' @ squote @ ''); } catch (e2) { return null; }'',
     ''    }'',
     ''  }'',
     [],
     ''  function loadHTTP() {'',
     ''    try { return require('' @ squote @ ''http'' @ squote @ ''); } catch (e1) {'',
     ''      try { return require('' @ squote @ ''node:http'' @ squote @ ''); } catch (e2) { return null; }'',
     ''    }'',
     ''  }'',
     [],
     ''  var dc = loadDiagnostics();'',
     ''  var http = loadHTTP();'',
     ''  if (!dc || !http) return;'',
     [],
     ''  var sessions = new WeakMap();'',
     ''  var ServerResponse = http.ServerResponse;'',
     [],
     ''  if (!ServerResponse.prototype.__bugitPreloadPatched) {'',
     ''    ServerResponse.prototype.__bugitPreloadPatched = true;'',
     ''    var origWrite = ServerResponse.prototype.write;'',
     ''    var origEnd = ServerResponse.prototype.end;'',
     ''    ServerResponse.prototype.write = function (chunk, encoding, cb) {'',
     ''      var sess = sessions.get(this);'',
     ''      if (sess && chunk != null) {'',
     ''        var buf = Buffer.isBuffer(chunk) ? chunk : Buffer.from(String(chunk));'',
     ''        sess.resBody = Buffer.concat([sess.resBody || Buffer.alloc(0), buf]).slice(0, MAX);'',
     ''      }'',
     ''      return origWrite.apply(this, arguments);'',
     ''    };'',
     ''    ServerResponse.prototype.end = function (chunk, encoding, cb) {'',
     ''      var sess = sessions.get(this);'',
     ''      if (sess && chunk != null) {'',
     ''        var buf = Buffer.isBuffer(chunk) ? chunk : Buffer.from(String(chunk));'',
     ''        sess.resBody = Buffer.concat([sess.resBody || Buffer.alloc(0), buf]).slice(0, MAX);'',
     ''      }'',
     ''      return origEnd.apply(this, arguments);'',
     ''    };'',
     ''  }'',
     [],
     ''  function buildRequestWire(req, bodyBuf) {'',
     ''    var host = (req.headers && req.headers.host) || '' @ squote @ ''localhost'' @ squote @ '';'',
     ''    var wire = req.method + '' @ squote @ '' '' @ squote @ '' + req.url + '' @ squote @ '' HTTP/1.1'' @ bslash @ ''r'' @ bslash @ ''nHost: '' @ squote @ '' + host + '' @ squote @ bslash @ ''r'' @ bslash @ ''n'' @ squote @ '';'',
     ''    wire += headerLines(req.headers);'',
     ''    wire += '' @ squote @ bslash @ ''r'' @ bslash @ ''n'' @ squote @ '';'',
     ''    if (bodyBuf && bodyBuf.length) {'',
     ''      var room = MAX - wire.length;'',
     ''      if (room > 0) wire += bodyBuf.toString('' @ squote @ ''utf8'' @ squote @ '', 0, Math.min(bodyBuf.length, room));'',
     ''    }'',
     ''    return wire;'',
     ''  }'',
     [],
     ''  function buildResponseWire(res, bodyBuf) {'',
     ''    var status = res.statusCode || 0;'',
     ''    var statusText = res.statusMessage || '' @ squote @ squote @ '';'',
     ''    var wire = '' @ squote @ ''HTTP/1.1 '' @ squote @ '' + status + '' @ squote @ '' '' @ squote @ '' + statusText + '' @ squote @ bslash @ ''r'' @ bslash @ ''n'' @ squote @ '';'',
     ''    var headers = typeof res.getHeaders === '' @ squote @ ''function'' @ squote @ '' ? res.getHeaders() : {};'',
     ''    wire += headerLines(headers);'',
     ''    wire += '' @ squote @ bslash @ ''r'' @ bslash @ ''n'' @ squote @ '';'',
     ''    if (bodyBuf && bodyBuf.length) {'',
     ''      var room = MAX - wire.length;'',
     ''      if (room > 0) wire += bodyBuf.toString('' @ squote @ ''utf8'' @ squote @ '', 0, Math.min(bodyBuf.length, room));'',
     ''    }'',
     ''    return wire;'',
     ''  }'',
     [],
     ''  function emitRequest(req, sess) {'',
     ''    if (sess.emittedRequest) return;'',
     ''    sess.emittedRequest = true;'',
     ''    postEvent(1, buildRequestWire(req, sess.reqBody));'',
     ''  }'',
     [],
     ''  dc.channel('' @ squote @ ''http.server.request.start'' @ squote @ '').subscribe(function (msg) {'',
     ''    var req = msg && msg.request;'',
     ''    var res = msg && msg.response;'',
     ''    if (!req || !res) return;'',
     ''    var sess = { reqBody: Buffer.alloc(0), resBody: Buffer.alloc(0), emittedRequest: false };'',
     ''    sessions.set(res, sess);'',
     ''    if (req.readableEnded || req.complete) {'',
     ''      emitRequest(req, sess);'',
     ''    } else {'',
     ''      req.on('' @ squote @ ''data'' @ squote @ '', function (chunk) {'',
     ''        sess.reqBody = Buffer.concat([sess.reqBody, chunk]).slice(0, MAX);'',
     ''      });'',
     ''      req.on('' @ squote @ ''end'' @ squote @ '', function () { emitRequest(req, sess); });'',
     ''      req.on('' @ squote @ ''aborted'' @ squote @ '', function () { emitRequest(req, sess); });'',
     ''    }'',
     ''  });'',
     [],
     ''  dc.channel('' @ squote @ ''http.server.response.finish'' @ squote @ '').subscribe(function (msg) {'',
     ''    var res = msg && msg.response;'',
     ''    if (!res) return;'',
     ''    var sess = sessions.get(res);'',
     ''    var body = sess ? sess.resBody : Buffer.alloc(0);'',
     ''    postEvent(0, buildResponseWire(res, body));'',
     ''    sessions.delete(res);'',
     ''  });'',
     ''})();'']"

definition DefaultBackendInspectPort :: int where "DefaultBackendInspectPort = 9230"
definition inspectBootstrapName :: bytes where "inspectBootstrapName = ''inspect-bootstrap.cjs''"
definition preloadHookName :: bytes where "preloadHookName = ''preload.cjs''"
definition runWithHooksName :: bytes where "runWithHooksName = ''run-with-hooks.cjs''"

section \<open>JSON\<close>

text \<open>\<open>hk_unmarshal\<close> gives the scripts of a document, in the order of their keys, each key once;
  \<open>hk_quote\<close> is \<^verbatim>\<open>%q\<close>; \<open>hk_listening\<close> is whether an inspector answers on a port.\<close>

record 'e hook_env =
  hk_unmarshal :: "bytes \<Rightarrow> 'e + (bytes \<times> bytes) list"
  hk_quote :: "bytes \<Rightarrow> bytes"
  hk_listening :: "int \<Rightarrow> bool"

text \<open>The string encoder of \<^verbatim>\<open>encoding/json\<close> on valid UTF-8, which is what the decoder yields.\<close>

definition hex_digit :: "nat \<Rightarrow> char" where
  "hex_digit n = (if n < 10 then char_of (48 + n) else char_of (87 + n))"

definition json_char :: "char \<Rightarrow> bytes" where
  "json_char c =
     (if c = CHR 0x22 then bslash @ dquote
      else if c = CHR 0x5C then bslash @ bslash
      else if c = CHR 0x08 then bslash @ ''b''
      else if c = CHR 0x0C then bslash @ ''f''
      else if c = LF then bslash @ ''n''
      else if c = CR then bslash @ ''r''
      else if c = TAB then bslash @ ''t''
      else if (of_char c :: nat) < 32 \<or> c = CHR ''<'' \<or> c = CHR ''>'' \<or> c = CHR ''&''
      then bslash @ ''u00'' @ [hex_digit (of_char c div 16), hex_digit (of_char c mod 16)]
      else [c])"

fun json_escape :: "bytes \<Rightarrow> bytes" where
  "json_escape [] = []"
| "json_escape (c # cs) =
     (if has_prefix (c # cs) [CHR 0xE2, CHR 0x80, CHR 0xA8] then bslash @ ''u2028'' @ json_escape (drop 2 cs)
      else if has_prefix (c # cs) [CHR 0xE2, CHR 0x80, CHR 0xA9] then bslash @ ''u2029'' @ json_escape (drop 2 cs)
      else json_char c @ json_escape cs)"

definition json_string :: "bytes \<Rightarrow> bytes" where
  "json_string s = dquote @ json_escape s @ dquote"

text \<open>\<^verbatim>\<open>json.MarshalIndent(pkg, "", "  ")\<close> of the structure with the one field \<^verbatim>\<open>scripts\<close>, and the
  newline appended to it.\<close>

definition marshal_pkg :: "(bytes \<times> bytes) list \<Rightarrow> bytes" where
  "marshal_pkg scripts =
     ''{'' @ [LF] @ ''  '' @ json_string ''scripts'' @ '': {'' @ [LF]
     @ join ('','' @ [LF]) (map (\<lambda>(k, v). ''    '' @ json_string k @ '': '' @ json_string v) scripts)
     @ [LF] @ ''  }'' @ [LF] @ ''}'' @ [LF]"

definition script :: "(bytes \<times> bytes) list \<Rightarrow> bytes \<Rightarrow> bytes" where
  "script scripts key = (case map_of scripts key of None \<Rightarrow> [] | Some v \<Rightarrow> v)"

text \<open>Assigning a key that is there.\<close>

definition set_script :: "bytes \<Rightarrow> bytes \<Rightarrow> (bytes \<times> bytes) list \<Rightarrow> (bytes \<times> bytes) list" where
  "set_script key v scripts = map (\<lambda>(k, w). if k = key then (k, v) else (k, w)) scripts"

section \<open>Ports\<close>

fun find_free :: "(int \<Rightarrow> bool) \<Rightarrow> int list \<Rightarrow> int" where
  "find_free listening [] = DefaultBackendInspectPort"
| "find_free listening (p # ps) = (if \<not> listening p then p else find_free listening ps)"

definition findFreeInspectPort :: "(int \<Rightarrow> bool) \<Rightarrow> int" where
  "findFreeInspectPort listening = find_free listening [DefaultBackendInspectPort..9239]"

definition chooseInspectPort :: "'e hook_env \<Rightarrow> 'e proj_env \<Rightarrow> bytes \<Rightarrow> int" where
  "chooseInspectPort h env captureRoot =
     (let cfgPath = path_join [captureRoot, DirName, ConfigName];
          (cfg, err) = LoadConfig env cfgPath
      in if err = None \<and> 0 < cf_inspect_port cfg \<and> cf_inspect_port cfg \<noteq> 9229 then cf_inspect_port cfg
         else if hk_listening h 9229 then findFreeInspectPort (hk_listening h)
         else 9229)"

section \<open>Patching the script\<close>

definition mentions_hooks :: "bytes \<Rightarrow> bool" where
  "mentions_hooks s = (contains s ''.bugit/inspect-bootstrap'' \<or> contains s ''.bugit/run-with-hooks.cjs'')"

definition patchDevScript :: "bytes \<Rightarrow> int \<Rightarrow> bytes \<times> bool" where
  "patchDevScript dev inspectPort =
     (if mentions_hooks dev then (dev, False)
      else let parts = Go_Strings.fields dev in
        if length parts = 0 then (dev, False)
        else let inspectFlag = ''--inspect=127.0.0.1:'' @ itoa_int inspectPort;
                 preload = ''-r .bugit/preload.cjs'';
                 bootstrap = ''-r .bugit/inspect-bootstrap.cjs''
             in if parts ! 0 = ''npm'' then (''node .bugit/run-with-hooks.cjs '' @ dev, True)
                else if parts ! 0 = ''nodemon'' \<or> parts ! 0 = ''node'' then
                  (join '' '' ([parts ! 0, bootstrap, preload, inspectFlag] @ drop 1 parts), True)
                else (dev, False))"

definition writeInspectBootstrap :: "bytes \<Rightarrow> int \<Rightarrow> 'e proj_env \<Rightarrow> 'e option \<times> 'e proj_env" where
  "writeInspectBootstrap bugitDir inspectPort =
     write_file (path_join [bugitDir, inspectBootstrapName]) (inspect_bootstrap inspectPort)"

definition writeRunWithHooks :: "bytes \<Rightarrow> int \<Rightarrow> 'e proj_env \<Rightarrow> 'e option \<times> 'e proj_env" where
  "writeRunWithHooks bugitDir inspectPort =
     write_file (path_join [bugitDir, runWithHooksName]) (run_with_hooks inspectPort)"

definition renderPreloadHook :: "'e hook_env \<Rightarrow> bytes \<Rightarrow> bytes" where
  "renderPreloadHook h collectorHTTP = preload_hook (hk_quote h (trim_right collectorHTTP ''/''))"

definition SyncPreloadHook ::
  "'e hook_env \<Rightarrow> bytes \<Rightarrow> bytes \<Rightarrow> 'e proj_env \<Rightarrow> 'e option \<times> 'e proj_env" where
  "SyncPreloadHook h captureRoot collectorHTTP env =
     (case EnsureLayout (path_abs env captureRoot) env of
        (ly, Some err, env1) \<Rightarrow> (Some err, env1)
      | (ly, None, env1) \<Rightarrow>
          (let url1 = (if collectorHTTP = [] then cf_collector_http (fst (LoadConfig env1 (ly_config_path ly)))
                       else collectorHTTP);
               url2 = (if url1 = [] then cf_collector_http DefaultConfig else url1)
           in write_file (path_join [ly_bugit_dir ly, preloadHookName]) (renderPreloadHook h url2) env1))"

definition persistInspectPort :: "bytes \<Rightarrow> int \<Rightarrow> 'e proj_env \<Rightarrow> 'e option \<times> 'e proj_env" where
  "persistInspectPort configPath inspectPort env =
     (case LoadConfig env configPath of
        (cfg, Some err) \<Rightarrow> (Some err, env)
      | (cfg, None) \<Rightarrow> SaveConfig configPath (cfg\<lparr>cf_inspect_port := inspectPort\<rparr>) env)"

definition IsDevScriptPatched :: "'e proj_env \<Rightarrow> bytes \<Rightarrow> bool" where
  "IsDevScriptPatched env captureRoot =
     (case pe_read env (path_join [captureRoot, ''package.json'']) of
        Contents data \<Rightarrow> mentions_hooks data
      | _ \<Rightarrow> False)"

definition IsPreloadConfigured :: "'e proj_env \<Rightarrow> bytes \<Rightarrow> bool" where
  "IsPreloadConfigured env captureRoot = exists_file env (path_join [captureRoot, DirName, preloadHookName])"

definition RecommendedRestartCommand :: "'e proj_env \<Rightarrow> bytes \<Rightarrow> bytes" where
  "RecommendedRestartCommand env captureRoot =
     (let cmd = DetectDevCommand env captureRoot in if has_prefix cmd ''npm '' then cmd else ''npm run dev'')"

definition restart_message :: "int \<Rightarrow> bytes" where
  "restart_message inspectPort =
     ''BugIT configured backend inspector on :'' @ itoa_int inspectPort @ '' '' @ [CHR 0xE2, CHR 0x80, CHR 0x94]
     @ '' restart backend once (Ctrl+C then npm run dev, or nodemon rs)''"

text \<open>The result: the port, whether the script was patched, the message, the error and the files.\<close>

type_synonym 'e sync_result = "int \<times> bool \<times> bytes \<times> 'e option \<times> 'e proj_env"

definition unpatched :: "bytes \<Rightarrow> int \<Rightarrow> 'e proj_env \<Rightarrow> 'e sync_result" where
  "unpatched configPath port env = (let (err, env') = persistInspectPort configPath port env in (port, False, [], err, env'))"

definition sync_package :: "'e hook_env \<Rightarrow> bytes \<Rightarrow> layout \<Rightarrow> int \<Rightarrow> 'e proj_env \<Rightarrow> 'e sync_result" where
  "sync_package h captureRoot ly port env =
     (let pkgPath = path_join [captureRoot, ''package.json''] in
      case pe_read env pkgPath of
        Contents data \<Rightarrow>
          (case hk_unmarshal h data of
             Inl err \<Rightarrow> (port, False, [], Some err, env)
           | Inr scripts \<Rightarrow>
               (let dev = (if script scripts ''dev'' = [] then script scripts ''start'' else script scripts ''dev'') in
                if dev = [] then unpatched (ly_config_path ly) port env
                else if mentions_hooks dev then unpatched (ly_config_path ly) port env
                else (case patchDevScript dev port of
                    (newDev, False) \<Rightarrow> unpatched (ly_config_path ly) port env
                  | (newDev, True) \<Rightarrow>
                      (let scriptKey = (if script scripts ''dev'' = [] then ''start'' else ''dev'');
                           out = marshal_pkg (set_script scriptKey newDev scripts)
                       in case write_file pkgPath out env of
                            (Some err, env1) \<Rightarrow> (port, False, [], Some err, env1)
                          | (None, env1) \<Rightarrow>
                              (case persistInspectPort (ly_config_path ly) port env1 of
                                 (Some err, env2) \<Rightarrow> (port, False, [], Some err, env2)
                               | (None, env2) \<Rightarrow> (port, True, restart_message port, None, env2))))))
      | _ \<Rightarrow> unpatched (ly_config_path ly) port env)"

definition SyncDevScript :: "'e hook_env \<Rightarrow> bytes \<Rightarrow> 'e proj_env \<Rightarrow> 'e sync_result" where
  "SyncDevScript h root env =
     (let captureRoot = path_abs env root in
      case EnsureLayout captureRoot env of
        (ly, Some err, env1) \<Rightarrow> (0, False, [], Some err, env1)
      | (ly, None, env1) \<Rightarrow>
          (let port = chooseInspectPort h env1 captureRoot in
           case writeInspectBootstrap (ly_bugit_dir ly) port env1 of
             (Some err, env2) \<Rightarrow> (port, False, [], Some err, env2)
           | (None, env2) \<Rightarrow>
               (case writeRunWithHooks (ly_bugit_dir ly) port env2 of
                  (Some err, env3) \<Rightarrow> (port, False, [], Some err, env3)
                | (None, env3) \<Rightarrow>
                    (case SyncPreloadHook h captureRoot [] env3 of
                       (Some err, env4) \<Rightarrow> (port, False, [], Some err, env4)
                     | (None, env4) \<Rightarrow> sync_package h captureRoot ly port env4))))"

section \<open>Paths that differ in their last element\<close>

lemma index_of_char_append:
  "index_of (s @ r) [c] =
     (case index_of s [c] of Some i \<Rightarrow> Some i | None \<Rightarrow> map_option (\<lambda>i. length s + i) (index_of r [c]))"
proof (induction s)
  case Nil
  then show ?case by (cases "index_of r [c]") simp_all
next
  case (Cons x s)
  then show ?case by (cases "index_of r [c]") (auto split: option.split)
qed

lemma split_snoc:
  "c \<notin> set n \<Longrightarrow> split (d @ [c] @ n) [c] = split d [c] @ [n]"
proof (induction d "[c]" rule: split.induct)
  case (1 s)
  have tail: "split n [c] = [n]" using 1(2) by (subst split.simps) (simp add: index_of_char split: option.split)
  show ?case
  proof (cases "index_of s [c]")
    case None
    then have "index_of (s @ [c] @ n) [c] = Some (length s)" by (simp add: index_of_char_append)
    then show ?thesis using None tail by (subst (1 2) split.simps) simp
  next
    case (Some i)
    then have i: "i < length s" using index_of_bound [OF Some] by simp
    have "index_of (s @ [c] @ n) [c] = Some i" using Some by (simp add: index_of_char_append)
    then show ?thesis using 1 Some i by (subst (1 2) split.simps) simp
  qed
qed

definition file_name :: "bytes \<Rightarrow> bool" where
  "file_name n = (CHR ''/'' \<notin> set n \<and> n \<noteq> [] \<and> n \<noteq> dot \<and> n \<noteq> dotdot)"

lemma clean_elems_snoc:
  "file_name n \<Longrightarrow> clean_elems rooted acc (xs @ [n]) = clean_elems rooted acc xs @ [n]"
  by (induction rooted acc xs rule: clean_elems.induct) (auto simp: file_name_def split: list.split)

lemma join_snoc_suffix: "has_suffix (join sep (xs @ [n])) n"
proof (induction xs)
  case (Cons x xs)
  then show ?case by (auto simp: has_suffix_iff join_Cons)
qed (simp add: has_suffix_iff)

lemma path_clean_suffix:
  assumes "file_name n" "p = n \<or> (\<exists>d. p = d @ ''/'' @ n)"
  shows "has_suffix (path_clean p) n"
proof -
  obtain xs where xs: "split p ''/'' = xs @ [n]"
  proof (cases "p = n")
    case True
    with assms(1) have "split p ''/'' = [] @ [n]"
      by (subst split.simps) (simp add: file_name_def index_of_char split: option.split)
    then show ?thesis by (rule that)
  next
    case False
    then show ?thesis using that assms split_snoc [of "CHR ''/''" n] by (auto simp: file_name_def)
  qed
  have suf: "has_suffix (join ''/'' (clean_elems b [] (split p ''/''))) n" for b
    by (simp add: xs clean_elems_snoc [OF assms(1)] join_snoc_suffix)
  moreover have "p \<noteq> []" using assms by (auto simp: file_name_def)
  moreover have "join ''/'' (clean_elems b [] (split p ''/'')) \<noteq> []" for b
    using suf [of b] assms(1) by (auto simp: has_suffix_iff file_name_def)
  ultimately show ?thesis
    by (auto simp: path_clean_def Let_def has_suffix_iff) (metis append.assoc append_Cons)
qed

lemma path_join_suffix: "file_name n \<Longrightarrow> has_suffix (path_join [d, n]) n"
  using path_clean_suffix [of n n] path_clean_suffix [of n "d @ ''/'' @ n"]
  by (auto simp: path_join_def file_name_def)

lemma different_names:
  assumes "file_name m" "file_name n" "\<not> suffix m n" "\<not> suffix n m"
  shows "path_join [d, m] \<noteq> path_join [d', n]"
  using path_join_suffix [OF assms(1), of d] path_join_suffix [OF assms(2), of d'] assms(3,4)
  unfolding has_suffix_iff by (metis suffix_def suffix_same_cases)

section \<open>What is written is found again\<close>

definition json_plain :: "char \<Rightarrow> bool" where
  "json_plain c = ((of_char c :: nat) < 128 \<and> json_char c = [c])"

lemma json_escape_plain:
  "list_all json_plain p \<Longrightarrow> json_escape (p @ r) = p @ json_escape r"
  by (induction p) (auto simp: json_plain_def has_prefix_def)

lemma json_escape_keeps:
  assumes "list_all json_plain p" "p \<noteq> []"
  shows "\<exists>x. json_escape (u @ p @ r) = x @ p @ json_escape r"
proof (induction u rule: length_induct)
  case (1 u)
  show ?case
  proof (cases u)
    case Nil
    then show ?thesis using json_escape_plain [OF assms(1)] by (metis append_Nil)
  next
    case (Cons c cs)
    from assms obtain p0 ps where p: "p = p0 # ps" "json_plain p0" by (cases p) auto
    have long: "2 \<le> length cs" if "has_prefix (c # cs @ p @ r) [CHR 0xE2, CHR 0x80, x]" "128 \<le> (of_char x :: nat)" for x
      using that p by (cases cs; cases "tl cs") (auto simp: has_prefix_def json_plain_def)
    have here: "\<exists>x. json_escape (cs @ p @ r) = x @ p @ json_escape r" using 1 Cons by simp
    have later: "\<exists>x. json_escape (drop 2 cs @ p @ r) = x @ p @ json_escape r" using 1 Cons by simp
    show ?thesis
      using here later long [of "CHR 0xA8"] long [of "CHR 0xA9"]
      by (auto simp: Cons)
  qed
qed

lemma json_string_contains:
  assumes "list_all json_plain p" "p \<noteq> []" "contains s p"
  shows "contains (json_string s) p"
  using assms(3) json_escape_keeps [OF assms(1,2)]
  by (auto simp: contains_iff json_string_def sublist_def) (metis append.assoc append_Cons)

lemma sublist_join: "x \<in> set xs \<Longrightarrow> sublist x (join sep xs)"
proof (induction xs)
  case (Cons y xs)
  then show ?case by (cases "xs = []") (auto simp: join_Cons sublist_append)
qed simp

lemma marshal_pkg_contains:
  assumes "(k, v) \<in> set scripts" "list_all json_plain p" "p \<noteq> []" "contains v p"
  shows "contains (marshal_pkg scripts) p"
proof -
  let ?row = "''    '' @ json_string k @ '': '' @ json_string v"
  have "contains (json_string v) p" using assms(2-4) by (rule json_string_contains)
  then obtain u w where "json_string v = u @ p @ w" by (auto simp: contains_iff sublist_def)
  then have "?row = (''    '' @ json_string k @ '': '' @ u) @ p @ w" by simp
  then have "sublist p ?row" unfolding sublist_def by blast
  moreover have "sublist ?row (join ('','' @ [LF]) (map (\<lambda>(k, v). ''    '' @ json_string k @ '': '' @ json_string v) scripts))"
    by (rule sublist_join) (use assms(1) in force)
  ultimately have "sublist p (join ('','' @ [LF]) (map (\<lambda>(k, v). ''    '' @ json_string k @ '': '' @ json_string v) scripts))"
    by (rule sublist_order.order_trans)
  then obtain u w where "join ('','' @ [LF]) (map (\<lambda>(k, v). ''    '' @ json_string k @ '': '' @ json_string v) scripts)
      = u @ p @ w" by (auto simp: sublist_def)
  then have "marshal_pkg scripts =
      (''{'' @ [LF] @ ''  '' @ json_string ''scripts'' @ '': {'' @ [LF] @ u) @ p @
      (w @ [LF] @ ''  }'' @ [LF] @ ''}'' @ [LF])" by (simp add: marshal_pkg_def)
  then show ?thesis unfolding contains_iff sublist_def by blast
qed

lemma hook_names_plain:
  "list_all json_plain ''.bugit/inspect-bootstrap''" "list_all json_plain ''.bugit/run-with-hooks.cjs''"
  by (simp_all add: json_plain_def json_char_def)

lemma patched_mentions_hooks:
  assumes "patchDevScript dev port = (newDev, True)"
  shows "mentions_hooks newDev"
proof -
  have boot: "sublist ''.bugit/inspect-bootstrap'' ''-r .bugit/inspect-bootstrap.cjs''"
    unfolding sublist_def by (rule exI [of _ "''-r ''"], rule exI [of _ "''.cjs''"]) simp
  have run: "sublist ''.bugit/run-with-hooks.cjs'' (''node .bugit/run-with-hooks.cjs '' @ dev)"
    unfolding sublist_def by (rule exI [of _ "''node ''"], rule exI [of _ "'' '' @ dev"]) simp
  let ?flag = "''--inspect=127.0.0.1:'' @ itoa_int port"
  have "newDev = ''node .bugit/run-with-hooks.cjs '' @ dev \<or>
      newDev = join '' '' ([Go_Strings.fields dev ! 0, ''-r .bugit/inspect-bootstrap.cjs'', ''-r .bugit/preload.cjs'', ?flag]
        @ drop 1 (Go_Strings.fields dev))"
    using assms unfolding patchDevScript_def Let_def by (simp only: split: if_splits) simp_all
  then consider "newDev = ''node .bugit/run-with-hooks.cjs '' @ dev"
    | x y zs where "newDev = join '' '' ([x, ''-r .bugit/inspect-bootstrap.cjs'', y] @ zs)"
    by (metis append_Cons append_Nil)
  then show ?thesis
  proof cases
    case 1
    with run show ?thesis by (simp add: mentions_hooks_def contains_iff del: append_Cons)
  next
    case 2
    have "sublist ''-r .bugit/inspect-bootstrap.cjs'' newDev" unfolding 2 by (rule sublist_join) simp
    with boot have "sublist ''.bugit/inspect-bootstrap'' newDev" by (rule sublist_order.order_trans)
    then show ?thesis by (simp add: mentions_hooks_def contains_iff)
  qed
qed

lemma marshal_mentions_hooks:
  assumes "(k, v) \<in> set scripts" "mentions_hooks v"
  shows "mentions_hooks (marshal_pkg scripts)"
  using marshal_pkg_contains [OF assms(1) hook_names_plain(1)] marshal_pkg_contains [OF assms(1) hook_names_plain(2)]
    assms(2) by (auto simp: mentions_hooks_def)

section \<open>What a synchronisation leaves alone\<close>

text \<open>A step that writes other files keeps a file and the working directory.\<close>

definition keeps :: "bytes \<Rightarrow> 'e proj_env \<Rightarrow> 'e proj_env \<Rightarrow> bool" where
  "keeps path env env' = (pe_read env' path = pe_read env path \<and> pe_cwd env' = pe_cwd env)"

lemma keeps_refl [simp]: "keeps path env env"
  by (simp add: keeps_def)

lemma keeps_trans: "keeps path a b \<Longrightarrow> keeps path b c \<Longrightarrow> keeps path a c"
  by (simp add: keeps_def)

lemma keeps_write_file: "path \<noteq> p \<Longrightarrow> keeps path env (snd (write_file p data env))"
  by (simp add: keeps_def write_file_def split: option.split)

lemma pkg_name: "file_name ''package.json''"
  by (simp add: file_name_def dot_def dotdot_def)

lemma keeps_named:
  assumes "file_name n" "\<not> suffix n ''package.json''" "\<not> suffix ''package.json'' n"
  shows "keeps (path_join [root, ''package.json'']) env (snd (write_file (path_join [d, n]) data env))"
  by (rule keeps_write_file) (use different_names [OF pkg_name assms(1)] assms(2,3) in metis)

lemma keeps_EnsureLayout:
  "keeps (path_join [r, ''package.json'']) env (snd (snd (EnsureLayout root env)))"
  using keeps_named [of "''.gitignore''" r env root]
  by (auto simp: EnsureLayout_def ensureGitignore_def Let_def file_name_def dot_def dotdot_def suffix_def
      split: option.split file_read.split)

lemma keeps_persist:
  "keeps (path_join [r, ''package.json'']) env (snd (persistInspectPort (ly_config_path (LayoutFor root)) port env))"
  using keeps_named [of ConfigName r env]
  by (auto simp: persistInspectPort_def SaveConfig_def LayoutFor_def Let_def ConfigName_def file_name_def dot_def
      dotdot_def suffix_def split: option.split sum.split prod.split)

text \<open>All writes before the package file is read go elsewhere.\<close>

lemma keeps_SyncPreloadHook:
  "keeps (path_join [r, ''package.json'']) env (snd (SyncPreloadHook h root url env))"
proof -
  obtain ly e env1 where l: "EnsureLayout (path_abs env root) env = (ly, e, env1)" by (metis surj_pair)
  have k: "keeps (path_join [r, ''package.json'']) env env1"
    using keeps_EnsureLayout [of r env "path_abs env root"] l by simp
  have "keeps (path_join [r, ''package.json'']) env1
      (snd (write_file (path_join [ly_bugit_dir ly, preloadHookName]) data env1))" for data
    by (rule keeps_named) (simp_all add: preloadHookName_def file_name_def dot_def dotdot_def suffix_def)
  with k show ?thesis
    by (auto simp: SyncPreloadHook_def l Let_def intro: keeps_trans split: option.split)
qed

lemma keeps_hook_files:
  "keeps (path_join [r, ''package.json'']) env (snd (writeInspectBootstrap d port env))"
  "keeps (path_join [r, ''package.json'']) env (snd (writeRunWithHooks d port env))"
  unfolding writeInspectBootstrap_def writeRunWithHooks_def
  by (rule keeps_named; simp add: inspectBootstrapName_def runWithHooksName_def file_name_def dot_def dotdot_def
        suffix_def)+

definition sync_port :: "'e hook_env \<Rightarrow> bytes \<Rightarrow> 'e proj_env \<Rightarrow> int" where
  "sync_port h root env =
     chooseInspectPort h (snd (snd (EnsureLayout (path_abs env root) env))) (path_abs env root)"

text \<open>Either an earlier step fails, or the package file is reached unchanged.\<close>

lemma SyncDevScript_reaches_package:
  "(\<exists>port err env'. SyncDevScript h root env = (port, False, [], Some err, env') \<and>
      keeps (path_join [r, ''package.json'']) env env') \<or>
   (\<exists>env'. keeps (path_join [r, ''package.json'']) env env' \<and>
     SyncDevScript h root env = sync_package h (path_abs env root) (LayoutFor (path_abs env root)) (sync_port h root env) env')"
proof -
  let ?root = "path_abs env root"
  let ?k = "keeps (path_join [r, ''package.json''])"
  obtain e1 env1 where l: "EnsureLayout ?root env = (LayoutFor ?root, e1, env1)"
    by (cases "EnsureLayout ?root env") (auto simp: EnsureLayout_def Let_def split: option.splits)
  obtain e2 env2 where b: "writeInspectBootstrap (ly_bugit_dir (LayoutFor ?root)) (sync_port h root env) env1 = (e2, env2)"
    by (metis surj_pair)
  obtain e3 env3 where w: "writeRunWithHooks (ly_bugit_dir (LayoutFor ?root)) (sync_port h root env) env2 = (e3, env3)"
    by (metis surj_pair)
  obtain e4 env4 where p: "SyncPreloadHook h ?root [] env3 = (e4, env4)" by (metis surj_pair)
  have k: "?k env env1" "?k env1 env2" "?k env2 env3" "?k env3 env4"
    using keeps_EnsureLayout [of r env ?root] keeps_SyncPreloadHook [of r env3 h ?root "[]"]
      keeps_hook_files(1) [of r env1 "ly_bugit_dir (LayoutFor ?root)" "sync_port h root env"]
      keeps_hook_files(2) [of r env2 "ly_bugit_dir (LayoutFor ?root)" "sync_port h root env"]
    by (simp_all only: l b w p snd_conv)
  then have "?k env env2" "?k env env3" "?k env env4" by (auto intro: keeps_trans)
  with k(1) show ?thesis
    using b w p by (auto simp: SyncDevScript_def l Let_def sync_port_def split: option.split)
qed

section \<open>Properties\<close>

text \<open>The inspector port is the one the project's settings name, unless that is the default
  9229; then it is a port from 9229 to 9239 on which nothing answers, or 9230 when every port
  of that range is taken.\<close>

theorem chosen_port_bounds:
  "let p = chooseInspectPort h env root;
       cfg = fst (LoadConfig env (path_join [root, DirName, ConfigName]))
   in (0 < p \<and> p \<noteq> 9229 \<and> p = cf_inspect_port cfg) \<or>
      (9229 \<le> p \<and> p \<le> 9239 \<and>
       (\<not> hk_listening h p \<or> p = 9230 \<and> (\<forall>q. 9229 \<le> q \<and> q \<le> 9239 \<longrightarrow> hk_listening h q)))"
proof -
  have free: "let p = find_free ls ps in (p \<in> set ps \<and> \<not> ls p) \<or> (p = 9230 \<and> (\<forall>q \<in> set ps. ls q))" for ls ps
    by (induction ls ps rule: find_free.induct) (auto simp: DefaultBackendInspectPort_def Let_def)
  define f where "f = findFreeInspectPort (hk_listening h)"
  have f: "9230 \<le> f \<and> f \<le> 9239 \<and> \<not> hk_listening h f \<or>
      f = 9230 \<and> (\<forall>q. 9230 \<le> q \<and> q \<le> 9239 \<longrightarrow> hk_listening h q)"
    using free [of "hk_listening h" "[9230..9239]", unfolded set_upto Let_def]
    unfolding f_def findFreeInspectPort_def DefaultBackendInspectPort_def by auto
  have all: "hk_listening h 9229 \<Longrightarrow> (\<forall>q. 9230 \<le> q \<and> q \<le> 9239 \<longrightarrow> hk_listening h q) \<Longrightarrow>
      9229 \<le> q \<Longrightarrow> q \<le> 9239 \<Longrightarrow> hk_listening h q" for q
    by (cases "q = 9229") auto
  obtain cfg err where c: "LoadConfig env (path_join [root, DirName, ConfigName]) = (cfg, err)" by (metis surj_pair)
  show ?thesis
  proof (cases "err = None \<and> 0 < cf_inspect_port cfg \<and> cf_inspect_port cfg \<noteq> 9229")
    case False
    then show ?thesis
    proof (cases "hk_listening h 9229")
      case True
      with False have "chooseInspectPort h env root = f" by (auto simp: chooseInspectPort_def c f_def)
      then show ?thesis using f all True by (auto simp: Let_def)
    qed (use False in \<open>auto simp: chooseInspectPort_def c Let_def\<close>)
  qed (simp add: chooseInspectPort_def c Let_def)
qed

text \<open>The script the synchronisation looks at, and its key.\<close>

definition dev_key :: "(bytes \<times> bytes) list \<Rightarrow> bytes" where
  "dev_key scripts = (if script scripts ''dev'' = [] then ''start'' else ''dev'')"

lemma unpatched_flag [simp]: "unpatched c p env = (p', True, m, e, env') \<longleftrightarrow> False"
  by (simp add: unpatched_def split: prod.split)

lemma sync_package_patched:
  assumes "sync_package h root (LayoutFor root') port env = (port', True, msg, err, env')"
  shows "\<exists>data scripts newDev.
     pe_read env (path_join [root, ''package.json'']) = Contents data \<and> hk_unmarshal h data = Inr scripts \<and>
     patchDevScript (script scripts (dev_key scripts)) port = (newDev, True) \<and> port' = port \<and>
     pe_read env' (path_join [root, ''package.json'']) = Contents (marshal_pkg (set_script (dev_key scripts) newDev scripts)) \<and>
     pe_cwd env' = pe_cwd env"
proof -
  let ?pkg = "path_join [root, ''package.json'']"
  let ?cfg = "ly_config_path (LayoutFor root')"
  obtain data scripts where d: "pe_read env ?pkg = Contents data" "hk_unmarshal h data = Inr scripts"
    using assms by (auto simp: sync_package_def Let_def split: file_read.splits sum.splits)
  obtain newDev ch where n: "patchDevScript (script scripts (dev_key scripts)) port = (newDev, ch)" by (metis surj_pair)
  let ?out = "marshal_pkg (set_script (dev_key scripts) newDev scripts)"
  obtain e1 env1 where w: "write_file ?pkg ?out env = (e1, env1)" by (metis surj_pair)
  obtain e2 env2 where c: "persistInspectPort ?cfg port env1 = (e2, env2)" by (metis surj_pair)
  have "ch \<and> e1 = None \<and> port' = port \<and> env' = env2"
  proof (cases "script scripts ''dev'' = []")
    case True
    then show ?thesis using assms n w c
      by (auto simp: sync_package_def d dev_key_def Let_def split: if_splits option.splits bool.splits)
  next
    case False
    then show ?thesis using assms n w c
      by (auto simp: sync_package_def d dev_key_def Let_def split: if_splits option.splits bool.splits)
  qed
  then have r: "ch" "e1 = None" "port' = port" "env' = env2" by simp_all
  have "keeps ?pkg env1 env2" using keeps_persist [of root env1 root' port] c by simp
  moreover have "pe_read env1 ?pkg = Contents ?out" "pe_cwd env1 = pe_cwd env"
    using w r by (auto simp: write_file_def split: option.splits)
  ultimately show ?thesis using d n r by (auto simp: keeps_def)
qed

lemma SyncDevScript_patched:
  assumes "SyncDevScript h root env = (port, True, msg, err, env')"
  shows "\<exists>data scripts newDev.
     pe_read env (path_join [path_abs env root, ''package.json'']) = Contents data \<and> hk_unmarshal h data = Inr scripts \<and>
     patchDevScript (script scripts (dev_key scripts)) (sync_port h root env) = (newDev, True) \<and>
     pe_read env' (path_join [path_abs env root, ''package.json'']) =
       Contents (marshal_pkg (set_script (dev_key scripts) newDev scripts)) \<and>
     pe_cwd env' = pe_cwd env"
proof -
  obtain env4 where k: "keeps (path_join [path_abs env root, ''package.json'']) env env4"
    and s: "sync_package h (path_abs env root) (LayoutFor (path_abs env root)) (sync_port h root env) env4
      = (port, True, msg, err, env')"
    using SyncDevScript_reaches_package [of h root env "path_abs env root"] assms by fastforce
  from sync_package_patched [OF s] k show ?thesis by (auto simp: keeps_def)
qed

lemma script_set_script:
  "script (set_script k v s) k' = (if k' = k \<and> map_of s k \<noteq> None then v else script s k')"
  by (induction s) (auto simp: script_def set_script_def)

text \<open>Where nothing fails, a script that can be patched is patched.\<close>

definition no_failures :: "'e proj_env \<Rightarrow> bool" where
  "no_failures env =
     ((\<forall>p. \<nexists>err. pe_read env p = ReadFailed err) \<and> (\<forall>d c. snd (pe_yaml env d c) = None) \<and>
      (\<forall>p. pe_mkdir env p = None) \<and> (\<forall>p. pe_write env p = None) \<and> (\<forall>c. \<exists>d. pe_yaml_out env c = Inr d))"

lemma no_failures_write:
  "no_failures env \<Longrightarrow> \<exists>env'. write_file p d env = (None, env') \<and> no_failures env'"
  by (auto simp: no_failures_def write_file_def)

lemma no_failures_Load:
  assumes "no_failures env"
  shows "\<exists>cfg. LoadConfig env p = (cfg, None)"
proof (cases "pe_read env p")
  case (Contents data)
  obtain cfg err where y: "pe_yaml env data DefaultConfig = (cfg, err)" by (metis surj_pair)
  have "snd (pe_yaml env data DefaultConfig) = None" using assms unfolding no_failures_def by blast
  then have "err = None" using y by simp
  with Contents y show ?thesis by (auto simp: LoadConfig_def)
qed (use assms in \<open>auto simp: LoadConfig_def no_failures_def\<close>)

lemma no_failures_Ensure:
  assumes "no_failures env"
  shows "\<exists>env'. EnsureLayout root env = (LayoutFor root, None, env') \<and> no_failures env'"
proof -
  have "\<exists>env'. ensureGitignore root env = (None, env') \<and> no_failures env'"
    using assms no_failures_write [OF assms]
    by (cases "pe_read env (path_join [root, ''.gitignore''])") (auto simp: ensureGitignore_def Let_def no_failures_def [of env])
  then show ?thesis using assms by (auto simp: EnsureLayout_def Let_def no_failures_def [of env])
qed

lemma no_failures_Preload:
  assumes "no_failures env"
  shows "\<exists>env'. SyncPreloadHook h root url env = (None, env') \<and> no_failures env'"
proof -
  obtain env1 where "EnsureLayout (path_abs env root) env = (LayoutFor (path_abs env root), None, env1)" "no_failures env1"
    using no_failures_Ensure [OF assms] by blast
  then show ?thesis using no_failures_write [of env1] by (simp add: SyncPreloadHook_def Let_def)
qed

lemma no_failures_persist:
  assumes "no_failures env"
  shows "\<exists>env'. persistInspectPort p port env = (None, env')"
proof -
  obtain cfg where "LoadConfig env p = (cfg, None)" using no_failures_Load [OF assms] by blast
  moreover have "\<exists>d. pe_yaml_out env (cfg\<lparr>cf_inspect_port := port\<rparr>) = Inr d" "pe_mkdir env (path_dir p) = None"
    using assms unfolding no_failures_def by blast+
  moreover obtain d where "pe_yaml_out env (cfg\<lparr>cf_inspect_port := port\<rparr>) = Inr d" using calculation(2) by blast
  moreover obtain env' where "write_file p d env = (None, env')" using no_failures_write [OF assms] by blast
  ultimately show ?thesis by (simp add: persistInspectPort_def SaveConfig_def)
qed

lemma SyncDevScript_patches:
  assumes "no_failures env" "pe_read env (path_join [path_abs env root, ''package.json'']) = Contents data"
    and "hk_unmarshal h data = Inr scripts"
    and "patchDevScript (script scripts (dev_key scripts)) (sync_port h root env) = (newDev, True)"
  shows "\<exists>env'. SyncDevScript h root env = (sync_port h root env, True, restart_message (sync_port h root env), None, env')"
proof -
  let ?root = "path_abs env root" and ?port = "sync_port h root env"
  let ?ly = "LayoutFor ?root" and ?pkg = "path_join [path_abs env root, ''package.json'']"
  obtain env1 where l: "EnsureLayout ?root env = (?ly, None, env1)" "no_failures env1"
    using no_failures_Ensure [OF assms(1)] by blast
  obtain env2 where b: "writeInspectBootstrap (ly_bugit_dir ?ly) ?port env1 = (None, env2)" "no_failures env2"
    using no_failures_write [OF l(2)] unfolding writeInspectBootstrap_def by blast
  obtain env3 where w: "writeRunWithHooks (ly_bugit_dir ?ly) ?port env2 = (None, env3)" "no_failures env3"
    using no_failures_write [OF b(2)] unfolding writeRunWithHooks_def by blast
  obtain env4 where p: "SyncPreloadHook h ?root [] env3 = (None, env4)" "no_failures env4"
    using no_failures_Preload [OF w(2)] by blast
  have run: "SyncDevScript h root env = sync_package h ?root ?ly ?port env4"
    using l b w p by (simp add: SyncDevScript_def sync_port_def Let_def)
  have "keeps ?pkg env env4"
    using keeps_EnsureLayout [of ?root env ?root] keeps_SyncPreloadHook [of ?root env3 h ?root "[]"]
      keeps_hook_files(1) [of ?root env1 "ly_bugit_dir ?ly" ?port] keeps_hook_files(2) [of ?root env2 "ly_bugit_dir ?ly" ?port]
    by (simp add: l b w p keeps_def)
  then have r: "pe_read env4 ?pkg = Contents data" using assms(2) by (simp add: keeps_def)
  obtain env5 where o: "write_file ?pkg (marshal_pkg (set_script (dev_key scripts) newDev scripts)) env4 = (None, env5)"
      "no_failures env5" using no_failures_write [OF p(2)] by blast
  obtain env6 where "persistInspectPort (ly_config_path ?ly) ?port env5 = (None, env6)"
    using no_failures_persist [OF o(2)] by blast
  moreover have "\<not> mentions_hooks (script scripts (dev_key scripts))" using assms(4) by (auto simp: patchDevScript_def)
  moreover have "script scripts (dev_key scripts) \<noteq> []" using assms(4)
    by (auto simp: patchDevScript_def Go_Strings.fields_def fields_aux.simps split: if_splits)
  ultimately show ?thesis
    using assms(3,4) o(1) r unfolding run
    by (cases "script scripts ''dev'' = []") (simp_all add: sync_package_def dev_key_def Let_def)
qed

text \<open>Two projects with the same script and different package files.\<close>

definition demo_project :: "bytes \<Rightarrow> unit proj_env" where
  "demo_project data = empty_env\<lparr>pe_read := (\<lambda>p. if p = path_join [path_abs empty_env ''r'', ''package.json'']
     then Contents data else NotExist)\<rparr>"

definition demo_hooks :: "unit hook_env" where
  "demo_hooks = \<lparr>hk_unmarshal = (\<lambda>d. if d = ''left'' \<or> d = ''right'' then Inr [(''dev'', ''node a.js'')]
     else Inr [(''dev'', ''node -r .bugit/inspect-bootstrap.cjs -r .bugit/preload.cjs --inspect=127.0.0.1:9229 a.js'')]),
     hk_quote = id, hk_listening = (\<lambda>_. False)\<rparr>"

lemma demo_project_facts:
  "no_failures (demo_project d)" "path_abs (demo_project d) ''r'' = path_abs empty_env ''r''"
  "pe_read (demo_project d) (path_join [path_abs empty_env ''r'', ''package.json'']) = Contents d"
  "pe_cwd (demo_project d) = ''/w''"
  by (auto simp: no_failures_def demo_project_def empty_env_def path_abs_def)

lemma demo_patch:
  "patchDevScript ''node a.js'' 9229 =
     (''node -r .bugit/inspect-bootstrap.cjs -r .bugit/preload.cjs --inspect=127.0.0.1:9229 a.js'', True)"
proof -
  have f: "Go_Strings.fields ''node a.js'' = [''node'', ''a.js'']"
    using fields_join_plain [of "[''node'', ''a.js'']"] by (simp add: plain_char_def)
  show ?thesis
    unfolding patchDevScript_def f
    by (simp add: mentions_hooks_def contains_def itoa_int_def itoa.simps digit_char_def Let_def)
qed

lemma demo_port: "sync_port demo_hooks ''r'' (demo_project d) = 9229"
proof -
  define env1 where "env1 = snd (snd (EnsureLayout (path_abs empty_env ''r'') (demo_project d)))"
  have y: "pe_yaml env1 = (\<lambda>_ c. (c, None))"
    unfolding env1_def EnsureLayout_def ensureGitignore_def
    by (auto simp: write_file_def demo_project_def empty_env_def Let_def split: option.split file_read.split)
  have "cf_inspect_port (fst (LoadConfig env1 p)) = 9229" for p
    by (auto simp: LoadConfig_def y DefaultConfig_def Let_def split: file_read.split)
  then show ?thesis
    unfolding sync_port_def demo_project_facts env1_def [symmetric]
    by (simp add: chooseInspectPort_def demo_hooks_def split_beta)
qed

lemma demo_sync:
  assumes "d = ''left'' \<or> d = ''right''"
  shows "\<exists>env'. SyncDevScript demo_hooks ''r'' (demo_project d) = (9229, True, restart_message 9229, None, env')"
proof -
  have "hk_unmarshal demo_hooks d = Inr [(''dev'', ''node a.js'')]" using assms by (auto simp: demo_hooks_def)
  moreover have "script [(''dev'', ''node a.js'')] (dev_key [(''dev'', ''node a.js'')]) = ''node a.js''"
    by (simp add: script_def dev_key_def)
  ultimately show ?thesis
    using SyncDevScript_patches [of "demo_project d" "''r''" d demo_hooks] demo_project_facts
    by (simp add: demo_port demo_patch)
qed

text \<open>Patching the dev script throws away everything else in \<^verbatim>\<open>package.json\<close>.  The file is
  read into a structure that has only the scripts and written back from it: two projects whose
  files have the same scripts have the same file afterwards, whatever their names, versions and
  dependencies were.\<close>

theorem patching_drops_the_rest:
  assumes "SyncDevScript h root env1 = (port1, True, msg1, err1, env1')"
    and "SyncDevScript h root env2 = (port2, True, msg2, err2, env2')"
    and "pe_cwd env1 = pe_cwd env2" "sync_port h root env1 = sync_port h root env2"
    and "pe_read env1 (path_join [path_abs env1 root, ''package.json'']) = Contents old_left"
      "pe_read env2 (path_join [path_abs env2 root, ''package.json'']) = Contents old_right"
    and "hk_unmarshal h old_left = hk_unmarshal h old_right"
  shows "pe_read env1' (path_join [path_abs env1 root, ''package.json'']) =
         pe_read env2' (path_join [path_abs env2 root, ''package.json''])"
  using SyncDevScript_patched [OF assms(1)] SyncDevScript_patched [OF assms(2)] assms(3-7)
  by (auto simp: path_abs_def)

lemma patching_drops_the_rest_witness:
  "\<exists>env1 env2. snd (SyncDevScript demo_hooks ''r'' (demo_project ''left'')) = (True, restart_message 9229, None, env1) \<and>
     snd (SyncDevScript demo_hooks ''r'' (demo_project ''right'')) = (True, restart_message 9229, None, env2) \<and>
     pe_read env1 (path_join [path_abs empty_env ''r'', ''package.json'']) =
     pe_read env2 (path_join [path_abs empty_env ''r'', ''package.json''])"
proof -
  obtain env1 env2 where e: "SyncDevScript demo_hooks ''r'' (demo_project ''left'') = (9229, True, restart_message 9229, None, env1)"
    "SyncDevScript demo_hooks ''r'' (demo_project ''right'') = (9229, True, restart_message 9229, None, env2)"
    using demo_sync [of "''left''"] demo_sync [of "''right''"] by blast
  have same: "hk_unmarshal demo_hooks ''left'' = hk_unmarshal demo_hooks ''right''" by (simp add: demo_hooks_def)
  have "pe_read env1 (path_join [path_abs (demo_project ''left'') ''r'', ''package.json'']) =
      pe_read env2 (path_join [path_abs (demo_project ''right'') ''r'', ''package.json''])"
    by (rule patching_drops_the_rest [OF e, where old_left = "''left''" and old_right = "''right''"])
      (simp_all only: demo_project_facts demo_port same)
  with e show ?thesis by (simp only: demo_project_facts) auto
qed

text \<open>The scripts after a patch: the new script is the one that the next run looks at.\<close>

lemma patched_scripts:
  assumes "patchDevScript (script scripts (dev_key scripts)) port = (newDev, True)"
  shows "mentions_hooks newDev" "newDev \<noteq> []"
    and "(dev_key scripts, newDev) \<in> set (set_script (dev_key scripts) newDev scripts)"
    and "script (set_script (dev_key scripts) newDev scripts) (dev_key (set_script (dev_key scripts) newDev scripts)) = newDev"
proof -
  let ?s = "set_script (dev_key scripts) newDev scripts"
  show hooks: "mentions_hooks newDev" using assms by (rule patched_mentions_hooks)
  then show nonempty: "newDev \<noteq> []" by (auto simp: mentions_hooks_def contains_def)
  have "script scripts (dev_key scripts) \<noteq> []"
    using assms by (auto simp: patchDevScript_def mentions_hooks_def contains_def Go_Strings.fields_def fields_aux.simps)
  then have m: "map_of scripts (dev_key scripts) \<noteq> None" by (auto simp: script_def split: option.splits)
  then show "(dev_key scripts, newDev) \<in> set ?s"
    by (auto simp: set_script_def dest!: map_of_SomeD intro!: image_eqI)
  from m have new: "script ?s (dev_key scripts) = newDev" by (simp add: script_set_script)
  moreover have "script ?s ''dev'' = script scripts ''dev''" if "script scripts ''dev'' = []"
    using that by (simp add: script_set_script dev_key_def)
  ultimately have "dev_key ?s = dev_key scripts" using nonempty
    by (cases "script scripts ''dev'' = []") (simp_all add: dev_key_def)
  with new show "script ?s (dev_key ?s) = newDev" by simp
qed

text \<open>C40: Synchronising twice patches once.  After a run that patched, the package file is recognised
  as patched, and another run leaves it as it is, provided the decoder gives back the scripts
  that were written.\<close>

theorem second_sync_patches_nothing:
  assumes "SyncDevScript h root env = (port, True, msg, err, env')"
    and "\<And>data scripts newDev.
      pe_read env (path_join [path_abs env root, ''package.json'']) = Contents data \<Longrightarrow>
      hk_unmarshal h data = Inr scripts \<Longrightarrow>
      patchDevScript (script scripts (dev_key scripts)) (sync_port h root env) = (newDev, True) \<Longrightarrow>
      hk_unmarshal h (marshal_pkg (set_script (dev_key scripts) newDev scripts)) = Inr (set_script (dev_key scripts) newDev scripts)"
  shows "IsDevScriptPatched env' (path_abs env root) \<and>
    (\<exists>port2 err2 env2. SyncDevScript h root env' = (port2, False, [], err2, env2) \<and>
       pe_read env2 (path_join [path_abs env root, ''package.json'']) =
       pe_read env' (path_join [path_abs env root, ''package.json'']))"
proof -
  let ?pkg = "path_join [path_abs env root, ''package.json'']"
  obtain data scripts newDev where p: "pe_read env ?pkg = Contents data" "hk_unmarshal h data = Inr scripts"
      "patchDevScript (script scripts (dev_key scripts)) (sync_port h root env) = (newDev, True)"
      "pe_read env' ?pkg = Contents (marshal_pkg (set_script (dev_key scripts) newDev scripts))" "pe_cwd env' = pe_cwd env"
    using SyncDevScript_patched [OF assms(1)] by blast
  let ?s = "set_script (dev_key scripts) newDev scripts"
  note new = patched_scripts [OF p(3)]
  from marshal_mentions_hooks [OF new(3,1)] have patched: "IsDevScriptPatched env' (path_abs env root)"
    by (simp add: IsDevScriptPatched_def p(4))
  have abs: "path_abs env' root = path_abs env root" using p(5) by (simp add: path_abs_def)
  have again: "sync_package h (path_abs env root) ly port2 e = unpatched (ly_config_path ly) port2 e"
    if "keeps ?pkg env' e" for ly port2 and e :: "'a proj_env"
  proof -
    have "pe_read e ?pkg = Contents (marshal_pkg ?s)" using that p(4) by (simp add: keeps_def)
    moreover have "(if script ?s ''dev'' = [] then script ?s ''start'' else script ?s ''dev'') = newDev"
      using new(4) by (auto simp: dev_key_def split: if_splits)
    ultimately show ?thesis
      using assms(2) [OF p(1-3)] new(1,2) by (simp add: sync_package_def Let_def)
  qed
  from SyncDevScript_reaches_package [of h root env' "path_abs env root", unfolded abs] show ?thesis
  proof (elim disjE exE conjE)
    fix port2 err2 env2
    assume "SyncDevScript h root env' = (port2, False, [], Some err2, env2)" "keeps ?pkg env' env2"
    with patched show ?thesis by (auto simp: keeps_def)
  next
    fix e assume k: "keeps ?pkg env' e"
      and run: "SyncDevScript h root env' = sync_package h (path_abs env root) (LayoutFor (path_abs env root)) (sync_port h root env') e"
    obtain err2 env2 where p2: "persistInspectPort (ly_config_path (LayoutFor (path_abs env root))) (sync_port h root env') e = (err2, env2)"
      by (metis surj_pair)
    have "keeps ?pkg e env2"
      using keeps_persist [of "path_abs env root" e "path_abs env root" "sync_port h root env'"] p2 by simp
    with patched k show ?thesis
      unfolding run again [OF k] unpatched_def by (auto simp: p2 keeps_def)
  qed
qed

lemma second_sync_patches_nothing_witness:
  "\<exists>env' port2 err2 env2. snd (SyncDevScript demo_hooks ''r'' (demo_project ''left'')) = (True, restart_message 9229, None, env') \<and>
     SyncDevScript demo_hooks ''r'' env' = (port2, False, [], err2, env2)"
proof -
  obtain env' where e: "SyncDevScript demo_hooks ''r'' (demo_project ''left'') = (9229, True, restart_message 9229, None, env')"
    using demo_sync [of "''left''"] by blast
  let ?new = "''node -r .bugit/inspect-bootstrap.cjs -r .bugit/preload.cjs --inspect=127.0.0.1:9229 a.js''"
  have undo: "hk_unmarshal demo_hooks (marshal_pkg s) = Inr [(''dev'', ?new)]" for s
    by (simp add: demo_hooks_def marshal_pkg_def)
  have first: "hk_unmarshal demo_hooks ''left'' = Inr [(''dev'', ''node a.js'')]"
    "script [(''dev'', ''node a.js'')] (dev_key [(''dev'', ''node a.js'')]) = ''node a.js''"
    "set_script (dev_key [(''dev'', ''node a.js'')]) v [(''dev'', ''node a.js'')] = [(''dev'', v)]" for v
    by (simp_all add: demo_hooks_def script_def dev_key_def set_script_def)
  have hyp: "hk_unmarshal demo_hooks (marshal_pkg (set_script (dev_key scripts) newDev scripts)) = Inr (set_script (dev_key scripts) newDev scripts)"
    if "pe_read (demo_project ''left'') (path_join [path_abs (demo_project ''left'') ''r'', ''package.json'']) = Contents data"
      "hk_unmarshal demo_hooks data = Inr scripts"
      "patchDevScript (script scripts (dev_key scripts)) (sync_port demo_hooks ''r'' (demo_project ''left'')) = (newDev, True)"
    for data scripts newDev
  proof -
    have "scripts = [(''dev'', ''node a.js'')]" using that(1,2) first(1) by (simp add: demo_project_facts)
    moreover from this have "newDev = ?new" using that(3) by (simp add: demo_port demo_patch first(2))
    ultimately show ?thesis by (simp add: undo first(3))
  qed
  from second_sync_patches_nothing [OF e] hyp e show ?thesis by (metis snd_conv)
qed

end
