(* ===== verification/Inspector.thy ===== *)
theory Inspector
  imports Hooks
begin

text \<open>
  Finding the backend among the inspector targets of the machine (pkg/captureattach/cdp_session.go
  up to ConnectCDP, and inspect.go).  What answers on a port, the JSON decoder, starting a
  program and the turns of the polling loops are inputs.
\<close>

section \<open>Targets\<close>

definition MinBackendTargetScore :: int where "MinBackendTargetScore = 25"
definition MinNewTargetScore :: int where "MinNewTargetScore = 15"
definition InspectorPortMin :: int where "InspectorPortMin = 9229"
definition InspectorPortMax :: int where "InspectorPortMax = 9239"

record inspect_target =
  it_id :: bytes
  it_type :: bytes
  it_title :: bytes
  it_url :: bytes
  it_desc :: bytes
  it_ws :: bytes

record pick_options =
  po_port :: int
  po_pid :: int
  po_root :: bytes

record backend_inspector =
  bi_port :: int
  bi_ws :: bytes
  bi_title :: bytes
  bi_url :: bytes
  bi_score :: int

definition no_inspector :: backend_inspector where
  "no_inspector = \<lparr>bi_port = 0, bi_ws = [], bi_title = [], bi_url = [], bi_score = 0\<rparr>"

type_synonym port_target = "int \<times> inspect_target"

text \<open>\<open>ie_get\<close> is the answer to \<^verbatim>\<open>GET /json/list\<close> on a port: the status and the body, unless it
  cannot be read.\<close>

record inspect_env =
  ie_get :: "int \<Rightarrow> (nat \<times> bytes option) option"
  ie_json :: "bytes \<Rightarrow> inspect_target list option"

datatype inspect_error = InvalidPort int | Unreachable | HTTPStatus nat int | Unreadable | BadJSON

definition ListInspectTargets :: "inspect_env \<Rightarrow> int \<Rightarrow> inspect_error + inspect_target list" where
  "ListInspectTargets env port =
     (if port \<le> 0 then Inl (InvalidPort port)
      else case ie_get env port of
        None \<Rightarrow> Inl Unreachable
      | Some (status, body) \<Rightarrow>
          if status \<noteq> 200 then Inl (HTTPStatus status port)
          else (case body of
             None \<Rightarrow> Inl Unreadable
           | Some b \<Rightarrow> (case ie_json env b of None \<Rightarrow> Inl BadJSON | Some targets \<Rightarrow> Inr targets)))"

section \<open>Scoring\<close>



definition normalizePathForMatch :: "unicode \<Rightarrow> bytes \<Rightarrow> bytes" where
  "normalizePathForMatch u path =
     (let p1 = to_lower u (trim_space path);
          p2 = trim_prefix p1 ''file://'';
          p3 = replace_all p2 bslash ''/''
      in if 2 \<le> length p3 \<and> p3 ! 1 = CHR '':'' then replace_all p3 '':'' [] else p3)"

definition isDisqualifiedTarget :: "bytes \<Rightarrow> bytes \<Rightarrow> bytes \<Rightarrow> int \<Rightarrow> bool" where
  "isDisqualifiedTarget title url desc frontendPort =
     (let joined = title @ '' '' @ url @ '' '' @ desc in
      contains joined ''next.js'' \<or> contains joined ''next dev''
      \<or> (contains joined ''next/'' \<and> contains joined ''node_modules'')
      \<or> (0 < frontendPort \<and> contains joined ('':'' @ itoa_int frontendPort) \<and> \<not> contains joined ''server.js'')
      \<or> (contains title ''next'' \<and> contains url ''.next''))"

definition points :: "bool \<Rightarrow> int \<Rightarrow> int" where
  "points b n = (if b then n else 0)"

definition ScoreTarget :: "unicode \<Rightarrow> inspect_target \<Rightarrow> pick_options \<Rightarrow> int" where
  "ScoreTarget u t opts =
     (if it_ws t = [] then -1
      else
        let title = to_lower u (it_title t);
            url = to_lower u (it_url t);
            desc = to_lower u (it_desc t);
            frontendPort = (if po_port opts = 3000 then 0 else 3000)
        in if isDisqualifiedTarget title url desc frontendPort then -1
           else
             let rootNorm = normalizePathForMatch u (po_root opts);
                 urlNorm = normalizePathForMatch u (it_url t);
                 portStr = itoa_int (po_port opts);
                 pidStr = itoa_int (po_pid opts);
                 rootBase = to_lower u (path_base (po_root opts))
             in points (it_type t = ''node'' \<or> it_type t = []) 10
                + points (rootNorm \<noteq> [] \<and> urlNorm \<noteq> [] \<and> contains urlNorm rootNorm) 40
                + points (has_suffix urlNorm ''server.js'' \<or> contains urlNorm ''/server.js'') 15
                + points (contains title ''server.js'') 10
                + points (0 < po_pid opts \<and> (contains title pidStr \<or> contains desc pidStr)) 25
                + points (0 < po_port opts \<and> (contains title portStr \<or> contains url portStr \<or> contains desc portStr)) 8
                + points (rootBase \<noteq> [] \<and> rootBase \<noteq> ''.'' \<and> (contains title rootBase \<or> contains urlNorm rootBase)) 5)"

definition inspector_of :: "int \<Rightarrow> inspect_target \<Rightarrow> int \<Rightarrow> backend_inspector" where
  "inspector_of port t score =
     \<lparr>bi_port = port, bi_ws = it_ws t, bi_title = it_title t, bi_url = it_url t, bi_score = score\<rparr>"

definition PickInspectTarget :: "unicode \<Rightarrow> inspect_target list \<Rightarrow> pick_options \<Rightarrow> bytes" where
  "PickInspectTarget u targets opts =
     (let (bestScore, bestURL) =
        fold (\<lambda>t (bestScore, bestURL).
          let score = ScoreTarget u t opts
          in if bestScore < score then (score, it_ws t) else (bestScore, bestURL)) targets (-1, [])
      in if bestURL \<noteq> [] \<and> MinBackendTargetScore \<le> bestScore then bestURL else [])"

text \<open>One turn of the loops that keep the best target so far.\<close>

definition better :: "unicode \<Rightarrow> pick_options \<Rightarrow> port_target \<Rightarrow> backend_inspector \<Rightarrow> backend_inspector" where
  "better u opts = (\<lambda>(port, t) best.
     let score = ScoreTarget u t opts
     in if bi_score best < score then inspector_of port t score else best)"

definition PickInspectTargetInfo :: "unicode \<Rightarrow> inspect_target list \<Rightarrow> pick_options \<Rightarrow> backend_inspector" where
  "PickInspectTargetInfo u targets opts =
     fold (better u opts) (map (\<lambda>t. (0, t)) targets) (no_inspector\<lparr>bi_score := -1\<rparr>)"

definition targetIdentity :: "port_target \<Rightarrow> bytes" where
  "targetIdentity = (\<lambda>(port, t).
     if it_id t \<noteq> [] then itoa_int port @ '':'' @ it_id t
     else if it_ws t \<noteq> [] then itoa_int port @ '':'' @ it_ws t
     else itoa_int port @ '':'' @ it_title t @ '':'' @ it_url t)"

definition isNewBackendTarget :: "unicode \<Rightarrow> pick_options \<Rightarrow> port_target \<Rightarrow> bool" where
  "isNewBackendTarget u opts = (\<lambda>(port, t).
     if port = InspectorPortMin then False
     else
       let rootNorm = normalizePathForMatch u (po_root opts);
           urlNorm = normalizePathForMatch u (it_url t)
       in if rootNorm \<noteq> [] \<and> \<not> contains urlNorm rootNorm \<and> \<not> contains urlNorm (path_base rootNorm) then False
          else MinNewTargetScore \<le> ScoreTarget u t opts)"

section \<open>Scanning the ports\<close>

definition scan_range :: "int list" where
  "scan_range = [InspectorPortMin..InspectorPortMax]"

definition targets_on :: "inspect_env \<Rightarrow> int \<Rightarrow> port_target list" where
  "targets_on env port =
     (case ListInspectTargets env port of Inl err \<Rightarrow> [] | Inr targets \<Rightarrow> map (\<lambda>t. (port, t)) targets)"

definition SnapshotPortTargets :: "inspect_env \<Rightarrow> port_target list" where
  "SnapshotPortTargets env = concat (map (targets_on env) scan_range)"

definition DiffNewTargets :: "port_target list \<Rightarrow> port_target list \<Rightarrow> port_target list" where
  "DiffNewTargets before after =
     (let seen = fold (\<lambda>pt s. insert (targetIdentity pt) s) before {}
      in fold (\<lambda>pt out. if targetIdentity pt \<in> seen then out else out @ [pt]) after [])"

text \<open>\<open>Inl score\<close> is the error that names the best score found.\<close>

definition ResolveBackendInspector :: "unicode \<Rightarrow> inspect_env \<Rightarrow> pick_options \<Rightarrow> int + backend_inspector" where
  "ResolveBackendInspector u env opts =
     (let best = fold (\<lambda>port. fold (better u opts) (targets_on env port)) scan_range (no_inspector\<lparr>bi_score := -1\<rparr>)
      in if bi_ws best = [] \<or> bi_score best < MinBackendTargetScore then Inl (bi_score best) else Inr best)"

definition ResolveBackendInspectorWithDiff ::
  "unicode \<Rightarrow> inspect_env \<Rightarrow> port_target list \<Rightarrow> pick_options \<Rightarrow> int + backend_inspector" where
  "ResolveBackendInspectorWithDiff u env before opts =
     (let newTargets = DiffNewTargets before (SnapshotPortTargets env);
          bestNew = fold (\<lambda>pt best. if \<not> isNewBackendTarget u opts pt then best else better u opts pt best)
                      newTargets (no_inspector\<lparr>bi_score := -1\<rparr>)
      in if bi_ws bestNew \<noteq> [] \<and> MinNewTargetScore \<le> bi_score bestNew then Inr bestNew
         else ResolveBackendInspector u env opts)"

definition ScoreInspectPort :: "unicode \<Rightarrow> inspect_env \<Rightarrow> int \<Rightarrow> pick_options \<Rightarrow> int" where
  "ScoreInspectPort u env port opts =
     (case ListInspectTargets env port of
        Inl err \<Rightarrow> -1
      | Inr targets \<Rightarrow> if length targets = 0 then -1 else bi_score (PickInspectTargetInfo u targets opts))"

definition ListAllInspectTargets :: "inspect_env \<Rightarrow> (int \<times> inspect_target list) list" where
  "ListAllInspectTargets env =
     concat (map (\<lambda>port. case ListInspectTargets env port of
        Inl err \<Rightarrow> []
      | Inr targets \<Rightarrow> if length targets = 0 then [] else [(port, targets)]) scan_range)"

definition InspectAvailable :: "inspect_env \<Rightarrow> int \<Rightarrow> bool" where
  "InspectAvailable env port =
     (if port \<le> 0 then False
      else case ie_get env port of None \<Rightarrow> False | Some (status, body) \<Rightarrow> status = 200)"

definition FindFreeInspectorPort :: "inspect_env \<Rightarrow> int" where
  "FindFreeInspectorPort env =
     (if \<not> InspectAvailable env InspectorPortMin then InspectorPortMin
      else find_free (InspectAvailable env) [DefaultBackendInspectPort..InspectorPortMax])"

section \<open>Enabling the inspector\<close>

datatype enable_error = InvalidPid int | CommandFailed | PortInUse int

text \<open>\<open>run\<close>: whether \<^verbatim>\<open>node -e process._debugProcess(pid)\<close> succeeds.\<close>

definition EnableNodeInspect :: "(int \<Rightarrow> bool) \<Rightarrow> int \<Rightarrow> enable_error option" where
  "EnableNodeInspect run pid =
     (if pid \<le> 0 then Some (InvalidPid pid) else if run pid then None else Some CommandFailed)"

definition EnableNodeInspectOnFreePort :: "(int \<Rightarrow> bool) \<Rightarrow> inspect_env \<Rightarrow> int \<Rightarrow> int \<times> enable_error option" where
  "EnableNodeInspectOnFreePort run env pid =
     (if pid \<le> 0 then (0, Some (InvalidPid pid))
      else let port = FindFreeInspectorPort env in
        if port = InspectorPortMin then (port, EnableNodeInspect run pid)
        else (port, Some (PortInUse port)))"

text \<open>Each turn of a polling loop finds the ports in some state; the list ends at the deadline.\<close>

fun poll_backend :: "unicode \<Rightarrow> port_target list \<Rightarrow> pick_options \<Rightarrow> inspect_env list \<Rightarrow> backend_inspector option" where
  "poll_backend u before opts [] = None"
| "poll_backend u before opts (env # envs) =
     (case ResolveBackendInspectorWithDiff u env before opts of
        Inr insp \<Rightarrow> Some insp
      | Inl _ \<Rightarrow>
          (case ResolveBackendInspector u env opts of
             Inr insp \<Rightarrow> Some insp
           | Inl _ \<Rightarrow> poll_backend u before opts envs))"

datatype 'e prepare_error = SyncFailed 'e | RestartNeeded int | NotFound
datatype enable_warning = Blocked int | EnableFailed enable_error

text \<open>What the ports answer in the course of the preparation: to the first scan, to the scan before
  the inspector is enabled, while a free port is looked for, in each turn of the loop, and at
  the end.  Within one scan they do not change.\<close>

record prepare_view =
  pv_first :: inspect_env
  pv_before :: inspect_env
  pv_enable :: inspect_env
  pv_turns :: "inspect_env list"
  pv_end :: inspect_env

definition enable_warning_of :: "(int \<Rightarrow> bool) \<Rightarrow> inspect_env \<Rightarrow> int \<Rightarrow> int \<Rightarrow> enable_warning option" where
  "enable_warning_of run env backendPID inspectPort =
     (if 0 < backendPID then
        (case EnableNodeInspectOnFreePort run env backendPID of
           (runtimePort, Some err) \<Rightarrow> Some (if InspectorPortMin < inspectPort then Blocked inspectPort else EnableFailed err)
         | (runtimePort, None) \<Rightarrow> None)
      else None)"

definition PrepareBackendInspector ::
  "unicode \<Rightarrow> 'e hook_env \<Rightarrow> (int \<Rightarrow> bool) \<Rightarrow> prepare_view \<Rightarrow> bytes \<Rightarrow> int \<Rightarrow> pick_options \<Rightarrow> 'e proj_env
    \<Rightarrow> ('e prepare_error + backend_inspector) \<times> enable_warning option \<times> 'e proj_env" where
  "PrepareBackendInspector u h run v captureRoot0 backendPID opts env =
     (let captureRoot = (if captureRoot0 = [] then po_root opts else captureRoot0);
          (inspectPort, patched, syncMsg, err, env') = SyncDevScript h captureRoot env
      in case err of
           Some e \<Rightarrow> (Inl (SyncFailed e), None, env')
         | None \<Rightarrow>
             (case ResolveBackendInspector u (pv_first v) opts of
                Inr insp \<Rightarrow> (Inr insp, None, env')
              | Inl _ \<Rightarrow>
                  (let before = SnapshotPortTargets (pv_before v);
                       warning = enable_warning_of run (pv_enable v) backendPID inspectPort
                   in case poll_backend u before opts (pv_turns v) of
                        Some insp \<Rightarrow> (Inr insp, warning, env')
                      | None \<Rightarrow>
                          (let freePort = (if inspectPort \<le> 0 then FindFreeInspectorPort (pv_end v) else inspectPort)
                           in (Inl (if InspectorPortMin < freePort then RestartNeeded freePort else NotFound),
                               warning, env')))))"

text \<open>\<^verbatim>\<open>ConnectCDP\<close> waits for a target on one port; a turn also finds whether the context is done.\<close>

datatype connect_result = Cancelled | NoInspector int | DialTarget bytes

fun poll_target :: "unicode \<Rightarrow> pick_options \<Rightarrow> int \<Rightarrow> (bool \<times> inspect_env) list \<Rightarrow> connect_result" where
  "poll_target u opts port [] = NoInspector port"
| "poll_target u opts port ((done, env) # turns) =
     (if done then Cancelled
      else let wsURL = (case ListInspectTargets env port of
                          Inl err \<Rightarrow> [] | Inr targets \<Rightarrow> PickInspectTarget u targets opts)
           in if wsURL \<noteq> [] then DialTarget wsURL else poll_target u opts port turns)"

definition ConnectCDP :: "unicode \<Rightarrow> int \<Rightarrow> pick_options \<Rightarrow> (bool \<times> inspect_env) list \<Rightarrow> connect_result" where
  "ConnectCDP u inspectPort opts turns =
     poll_target u opts (if inspectPort \<le> 0 then 9229 else inspectPort) turns"

section \<open>Lemmas\<close>

definition score_of :: "unicode \<Rightarrow> pick_options \<Rightarrow> port_target \<Rightarrow> int" where
  "score_of u opts pt = ScoreTarget u (snd pt) opts"

lemma points_bounds: "0 \<le> n \<Longrightarrow> 0 \<le> points b n \<and> points b n \<le> n"
  by (simp add: points_def)

lemma ScoreTarget_range:
  "ScoreTarget u t opts = -1 \<or> (0 \<le> ScoreTarget u t opts \<and> ScoreTarget u t opts \<le> 113 \<and> it_ws t \<noteq> [])"
proof -
  have "ScoreTarget u t opts = -1 \<or> (\<exists>b1 b2 b3 b4 b5 b6 b7. ScoreTarget u t opts =
      points b1 10 + points b2 40 + points b3 15 + points b4 10 + points b5 25 + points b6 8 + points b7 5 \<and> it_ws t \<noteq> [])"
    unfolding ScoreTarget_def Let_def by (simp split: if_split) blast
  moreover have "0 \<le> points b1 10 + points b2 40 + points b3 15 + points b4 10 + points b5 25 + points b6 8 + points b7 5 \<and>
      points b1 10 + points b2 40 + points b3 15 + points b4 10 + points b5 25 + points b6 8 + points b7 5 \<le> 113"
    for b1 b2 b3 b4 b5 b6 b7 by (simp add: points_def)
  ultimately show ?thesis by auto
qed

text \<open>The loop keeps the first of the best.\<close>

lemma fold_better:
  "fold (better u opts) pts b = b \<and> (\<forall>pt \<in> set pts. score_of u opts pt \<le> bi_score b) \<or>
   (\<exists>ys pt zs. pts = ys @ pt # zs \<and>
      fold (better u opts) pts b = inspector_of (fst pt) (snd pt) (score_of u opts pt) \<and>
      bi_score b < score_of u opts pt \<and> (\<forall>y \<in> set ys. score_of u opts y < score_of u opts pt) \<and>
      (\<forall>z \<in> set zs. score_of u opts z \<le> score_of u opts pt))"
proof (induction pts rule: rev_induct)
  case (snoc x xs)
  let ?r = "fold (better u opts) xs b" and ?s = "score_of u opts"
  have step: "fold (better u opts) (xs @ [x]) b =
      (if bi_score ?r < ?s x then inspector_of (fst x) (snd x) (?s x) else ?r)"
    by (cases x) (simp add: better_def score_of_def Let_def)
  from snoc show ?case
  proof (elim disjE exE conjE)
    assume r: "?r = b" "\<forall>pt \<in> set xs. ?s pt \<le> bi_score b"
    show ?thesis
    proof (cases "bi_score b < ?s x")
      case True
      then show ?thesis using r unfolding step by (intro disjI2 exI [of _ xs] exI [of _ x] exI [of _ "[]"]) auto
    qed (use r step in auto)
  next
    fix ys pt zs
    assume d: "xs = ys @ pt # zs" and r: "?r = inspector_of (fst pt) (snd pt) (?s pt)"
      and o: "bi_score b < ?s pt" "\<forall>y \<in> set ys. ?s y < ?s pt" "\<forall>z \<in> set zs. ?s z \<le> ?s pt"
    have sc: "bi_score ?r = ?s pt" by (simp add: r inspector_of_def)
    show ?thesis
    proof (cases "?s pt < ?s x")
      case True
      have "\<forall>y \<in> set xs. ?s y < ?s x" using True o d by auto
      with True o sc show ?thesis unfolding step
        by (intro disjI2 exI [of _ xs] exI [of _ x] exI [of _ "[]"]) auto
    next
      case False
      with d r o sc show ?thesis unfolding step
        by (intro disjI2 exI [of _ ys] exI [of _ pt] exI [of _ "zs @ [x]"]) auto
    qed
  qed
qed simp

lemma fold_ports: "fold (\<lambda>port. fold f (g port)) ports b = fold f (concat (map g ports)) b"
  by (induction ports arbitrary: b) simp_all

lemma ResolveBackendInspector_fold:
  "ResolveBackendInspector u env opts =
     (let best = fold (better u opts) (SnapshotPortTargets env) (no_inspector\<lparr>bi_score := -1\<rparr>)
      in if bi_ws best = [] \<or> bi_score best < MinBackendTargetScore then Inl (bi_score best) else Inr best)"
  by (simp add: ResolveBackendInspector_def SnapshotPortTargets_def fold_ports)

section \<open>Properties\<close>

text \<open>C35: The backend that is attached to is the best candidate on all ports: it is one of the
  listed targets with its own score, at least 25, no target scores more and none before it in
  the scan scores as much.  When none is chosen, no target scores 25.\<close>

theorem resolved_backend_is_best:
  "case ResolveBackendInspector u env opts of
     Inr b \<Rightarrow> (\<exists>ys p t zs. SnapshotPortTargets env = ys @ (p, t) # zs \<and>
        b = inspector_of p t (ScoreTarget u t opts) \<and> 25 \<le> ScoreTarget u t opts \<and>
        (\<forall>(q, s) \<in> set ys. ScoreTarget u s opts < ScoreTarget u t opts) \<and>
        (\<forall>(q, s) \<in> set zs. ScoreTarget u s opts \<le> ScoreTarget u t opts))
   | Inl best \<Rightarrow> best < 25 \<and> (\<forall>(q, s) \<in> set (SnapshotPortTargets env). ScoreTarget u s opts \<le> best)"
proof -
  let ?b0 = "no_inspector\<lparr>bi_score := -1\<rparr>" and ?pts = "SnapshotPortTargets env"
  have b0: "bi_score ?b0 = -1" "bi_ws ?b0 = []" by (simp_all add: no_inspector_def)
  from fold_better [of u opts ?pts ?b0] show ?thesis
  proof (elim disjE exE conjE)
    assume "fold (better u opts) ?pts ?b0 = ?b0" "\<forall>pt \<in> set ?pts. score_of u opts pt \<le> bi_score ?b0"
    then show ?thesis
      by (auto simp: ResolveBackendInspector_fold Let_def b0 score_of_def MinBackendTargetScore_def)
  next
    fix ys pt zs
    assume d: "?pts = ys @ pt # zs"
      and r: "fold (better u opts) ?pts ?b0 = inspector_of (fst pt) (snd pt) (score_of u opts pt)"
      and o: "bi_score ?b0 < score_of u opts pt" "\<forall>y \<in> set ys. score_of u opts y < score_of u opts pt"
        "\<forall>z \<in> set zs. score_of u opts z \<le> score_of u opts pt"
    have ws: "it_ws (snd pt) \<noteq> []" using ScoreTarget_range [of u "snd pt" opts] o(1) b0 by (auto simp: score_of_def)
    show ?thesis
    proof (cases "score_of u opts pt < 25")
      case True
      then have "ResolveBackendInspector u env opts = Inl (score_of u opts pt)"
        by (simp add: ResolveBackendInspector_fold r MinBackendTargetScore_def inspector_of_def)
      then show ?thesis using True o(2,3) d by (auto simp: score_of_def)
    next
      case False
      then have "ResolveBackendInspector u env opts = Inr (inspector_of (fst pt) (snd pt) (score_of u opts pt))"
        using ws by (simp add: ResolveBackendInspector_fold r MinBackendTargetScore_def) (simp add: inspector_of_def)
      moreover have "?pts = ys @ (fst pt, snd pt) # zs" using d by simp
      moreover have "\<forall>(q, s) \<in> set ys. ScoreTarget u s opts < ScoreTarget u (snd pt) opts"
        "\<forall>(q, s) \<in> set zs. ScoreTarget u s opts \<le> ScoreTarget u (snd pt) opts"
        using o(2,3) by (auto simp: score_of_def)
      ultimately show ?thesis using False unfolding score_of_def
        by (simp only: sum.case not_less) (rule exI [of _ ys], rule exI [of _ "fst pt"], rule exI [of _ "snd pt"],
          rule exI [of _ zs], simp)
    qed
  qed
qed


text \<open>Every score is -1, for a target that is ruled out, or lies between 0 and 113; a target
  without a debugger address never scores.\<close>

theorem score_bounds:
  "-1 \<le> ScoreTarget u t opts \<and> ScoreTarget u t opts \<le> 113 \<and>
   (0 \<le> ScoreTarget u t opts \<longrightarrow> it_ws t \<noteq> [])"
  using ScoreTarget_range [of u t opts] by auto

text \<open>A machine with two targets on port 9230.\<close>

definition demo_target :: "bytes \<Rightarrow> bytes \<Rightarrow> inspect_target" where
  "demo_target ttl ws = \<lparr>it_id = ws, it_type = ''node'', it_title = ttl, it_url = [], it_desc = [], it_ws = ws\<rparr>"

definition demo_opts :: pick_options where
  "demo_opts = \<lparr>po_port = 0, po_pid = 42, po_root = []\<rparr>"

definition demo_inspect :: inspect_env where
  "demo_inspect = \<lparr>ie_get = (\<lambda>p. if p = 9230 then Some (200, Some []) else None),
     ie_json = (\<lambda>_. Some [demo_target [] ''a'', demo_target ''42'' ''b''])\<rparr>"

lemma demo_scores:
  "ScoreTarget plain_unicode (demo_target [] w) demo_opts = (if w = [] then -1 else 10)"
  "ScoreTarget plain_unicode (demo_target ''42'' w) demo_opts = (if w = [] then -1 else 35)"
  by (simp_all add: ScoreTarget_def demo_target_def demo_opts_def isDisqualifiedTarget_def normalizePathForMatch_def
      to_lower_def map_runes_def plain_unicode_def contains_def itoa_int_def itoa.simps digit_char_def points_def
      path_base_def dot_def has_suffix_def replace_all_def split.simps trim_prefix_def has_prefix_def
      byte_of_def encode_rune_def ascii_lower_def Let_def)

lemma score_bounds_witness:
  "it_ws (demo_target [] ''a'') \<noteq> [] \<and> ScoreTarget plain_unicode (demo_target [] ''a'') demo_opts \<le> 113"
  using score_bounds [of plain_unicode "demo_target [] ''a''" demo_opts] by (simp add: demo_scores)

lemma demo_snapshot:
  "SnapshotPortTargets demo_inspect = [(9230, demo_target [] ''a''), (9230, demo_target ''42'' ''b'')]"
  by (simp add: SnapshotPortTargets_def scan_range_def InspectorPortMin_def InspectorPortMax_def targets_on_def
      ListInspectTargets_def demo_inspect_def upto.simps)

lemma resolved_backend_is_best_witness:
  "ResolveBackendInspector plain_unicode demo_inspect demo_opts =
     Inr (inspector_of 9230 (demo_target ''42'' ''b'') 35)"
proof (cases "ResolveBackendInspector plain_unicode demo_inspect demo_opts")
  case (Inl best)
  with resolved_backend_is_best [where u = plain_unicode and env = demo_inspect and opts = demo_opts] show ?thesis
    by (simp add: demo_snapshot demo_scores) linarith
next
  case (Inr b)
  with resolved_backend_is_best [where u = plain_unicode and env = demo_inspect and opts = demo_opts] show ?thesis
    by (auto simp: demo_snapshot demo_scores Cons_eq_append_conv)
qed

text \<open>A backend whose port number begins with 3000 rules itself out.  A mention of the default
  frontend port 3000 disqualifies a target, but the port is searched as a substring: a target
  that names the port of its own backend, 30001 say, is never attached to.\<close>

theorem port_prefix_disqualifies:
  assumes "po_port opts \<noteq> 3000" "prefix (itoa_int 3000) (itoa_int (po_port opts))"
    and "contains (to_lower u (it_title t) @ '' '' @ to_lower u (it_url t) @ '' '' @ to_lower u (it_desc t))
           ('':'' @ itoa_int (po_port opts))"
    and "\<not> contains (to_lower u (it_title t) @ '' '' @ to_lower u (it_url t) @ '' '' @ to_lower u (it_desc t)) ''server.js''"
  shows "ScoreTarget u t opts = -1"
proof -
  have "sublist ('':'' @ itoa_int 3000) ('':'' @ itoa_int (po_port opts))"
    using assms(2) by (auto intro: prefix_imp_sublist)
  with assms(3) have "contains (to_lower u (it_title t) @ '' '' @ to_lower u (it_url t) @ '' '' @ to_lower u (it_desc t))
      ('':'' @ itoa_int 3000)" unfolding contains_iff by (rule sublist_order.order_trans [rotated])
  with assms(1,4) show ?thesis by (simp add: ScoreTarget_def isDisqualifiedTarget_def Let_def)
qed

lemma port_prefix_disqualifies_witness:
  "ScoreTarget plain_unicode (demo_target '':30001'' ''w'') \<lparr>po_port = 30001, po_pid = 0, po_root = []\<rparr> = -1"
  by (rule port_prefix_disqualifies)
    (simp_all add: demo_target_def to_lower_def map_runes_def plain_unicode_def contains_def itoa_int_def itoa.simps
      digit_char_def byte_of_def encode_rune_def ascii_lower_def)

end
