(* ===== verification/CDP_Session.thy ===== *)
theory CDP_Session
  imports Complex_Main Inspector Manifest
begin

text \<open>
  The two clients of the inspector's protocol: the shared session (\<^verbatim>\<open>CDPSession\<close> of
  pkg/captureattach/cdp_session.go), whose calls, event pump and \<^verbatim>\<open>Close\<close> run concurrently, and the
  sequential one that asks for a stack (pkg/debugbridge/node.go).  The session is a state
  machine whose actions are the pieces of its methods that other goroutines can see between.
\<close>

section \<open>Messages\<close>

datatype json =
    JNull | JBool bool | JNum rat | JStr bytes | JArr "json list" | JObj "(bytes \<times> json) list"

definition jget :: "(bytes \<times> json) list \<Rightarrow> bytes \<Rightarrow> json option" where
  "jget fs k = map_of fs k"

text \<open>\<^verbatim>\<open>int64(x)\<close> truncates towards zero.\<close>

definition trunc :: "rat \<Rightarrow> int" where
  "trunc x = (if 0 \<le> x then \<lfloor>x\<rfloor> else \<lceil>x\<rceil>)"

definition msg_id_of :: "(bytes \<times> json) list \<Rightarrow> int option" where
  "msg_id_of m = (case jget m ''id'' of Some (JNum x) \<Rightarrow> Some (trunc x) | _ \<Rightarrow> None)"

definition jobj :: "json option \<Rightarrow> (bytes \<times> json) list option" where
  "jobj v = (case v of Some (JObj fs) \<Rightarrow> Some fs | _ \<Rightarrow> None)"

definition jstr :: "json option \<Rightarrow> bytes" where
  "jstr v = (case v of Some (JStr s) \<Rightarrow> s | _ \<Rightarrow> [])"

type_synonym message = "(bytes \<times> json) list"

text \<open>What a call makes of its response.\<close>

datatype reply = CDPError message | Result message

definition reply_of :: "message \<Rightarrow> reply" where
  "reply_of m =
     (case jobj (jget m ''error'') of
        Some err \<Rightarrow> CDPError err
      | None \<Rightarrow> (case jobj (jget m ''result'') of Some r \<Rightarrow> Result r | None \<Rightarrow> Result []))"

section \<open>The shared session\<close>

text \<open>A call has checked that the session is open and registered its channel, or has sent its
  message and waits, or has returned.  The pump is at the top of its loop, about to load the
  connection, receiving from it, holds a message, is stuck in a send to a full channel, or has returned.\<close>

datatype outcome = Replied message | SendFailed | Cancelled
datatype phase = Registered | Waiting | Returned outcome
datatype pump = AtTop | Loading | Receiving | Holding message | Stuck int message | Stopped

record cdp =
  cd_conn :: bool
  cd_closed :: bool
  cd_next :: int
  cd_pending :: "int \<Rightarrow> message option option"
  cd_calls :: "int \<Rightarrow> phase option"
  cd_handlers :: "bytes set"
  cd_pump :: pump
  cd_handled :: "(bytes \<times> message) list"
  cd_panicked :: bool

definition connected :: cdp where
  "connected =
     \<lparr>cd_conn = True, cd_closed = False, cd_next = 0, cd_pending = Map.empty, cd_calls = Map.empty,
      cd_handlers = {}, cd_pump = AtTop, cd_handled = [], cd_panicked = False\<rparr>"

text \<open>\<^verbatim>\<open>pending.Delete\<close> when a call returns.\<close>

definition return_call :: "int \<Rightarrow> outcome \<Rightarrow> cdp \<Rightarrow> cdp" where
  "return_call i out s =
     s\<lparr>cd_calls := (cd_calls s)(i \<mapsto> Returned out), cd_pending := (cd_pending s)(i := None)\<rparr>"

definition cdp_Close :: "cdp \<Rightarrow> cdp" where
  "cdp_Close s = (if cd_closed s then s else s\<lparr>cd_closed := True, cd_conn := False\<rparr>)"

definition cdp_On :: "bytes \<Rightarrow> cdp \<Rightarrow> cdp" where
  "cdp_On meth s = s\<lparr>cd_handlers := insert meth (cd_handlers s)\<rparr>"

text \<open>The calls.  A closed session refuses them.  \<^verbatim>\<open>JSON.Send\<close> on the connection that \<^verbatim>\<open>Close\<close> has
  set to nil panics.\<close>

definition call_begin :: "cdp \<Rightarrow> cdp" where
  "call_begin s =
     (if cd_closed s then s
      else let i = cd_next s + 1
           in s\<lparr>cd_next := i, cd_pending := (cd_pending s)(i \<mapsto> None), cd_calls := (cd_calls s)(i \<mapsto> Registered)\<rparr>)"

definition call_send :: "int \<Rightarrow> bool \<Rightarrow> cdp \<Rightarrow> cdp option" where
  "call_send i ok s =
     (if cd_calls s i \<noteq> Some Registered then None
      else if \<not> cd_conn s then Some (s\<lparr>cd_panicked := True\<rparr>)
      else if ok then Some (s\<lparr>cd_calls := (cd_calls s)(i \<mapsto> Waiting)\<rparr>)
      else Some (return_call i SendFailed s))"

text \<open>Taking the response out of the channel lets a pump that is stuck there put its message in and
  go on; the call has returned by then.\<close>

definition unstick :: "int \<Rightarrow> cdp \<Rightarrow> cdp" where
  "unstick i s =
     (case cd_pump s of
        Stuck j m \<Rightarrow> if i = j then s\<lparr>cd_pump := AtTop\<rparr> else s
      | _ \<Rightarrow> s)"

definition call_receive :: "int \<Rightarrow> cdp \<Rightarrow> cdp option" where
  "call_receive i s =
     (if cd_calls s i \<noteq> Some Waiting then None
      else case cd_pending s i of
             Some (Some m) \<Rightarrow> Some (return_call i (Replied m) (unstick i s))
           | _ \<Rightarrow> None)"

definition call_cancel :: "int \<Rightarrow> cdp \<Rightarrow> cdp option" where
  "call_cancel i s = (if cd_calls s i \<noteq> Some Waiting then None else Some (return_call i Cancelled s))"

text \<open>The pump.\<close>

definition pump_check :: "cdp \<Rightarrow> cdp option" where
  "pump_check s =
     (if cd_pump s \<noteq> AtTop then None
      else if cd_closed s then Some (s\<lparr>cd_pump := Stopped\<rparr>) else Some (s\<lparr>cd_pump := Loading\<rparr>))"

text \<open>\<^verbatim>\<open>JSON.Receive\<close> panics on a nil connection, too; on one that is closed under it, it fails.\<close>

definition pump_load :: "cdp \<Rightarrow> cdp option" where
  "pump_load s =
     (if cd_pump s \<noteq> Loading then None
      else if \<not> cd_conn s then Some (s\<lparr>cd_panicked := True\<rparr>)
      else Some (s\<lparr>cd_pump := Receiving\<rparr>))"

definition pump_receive :: "message option \<Rightarrow> cdp \<Rightarrow> cdp option" where
  "pump_receive r s =
     (if cd_pump s \<noteq> Receiving then None
      else case r of
             None \<Rightarrow> Some ((cdp_Close s)\<lparr>cd_pump := Stopped\<rparr>)
           | Some m \<Rightarrow> Some (s\<lparr>cd_pump := Holding m\<rparr>))"

definition pump_handle :: "cdp \<Rightarrow> cdp option" where
  "pump_handle s =
     (case cd_pump s of
        Holding m \<Rightarrow>
          (case msg_id_of m of
             Some i \<Rightarrow>
               (case cd_pending s i of
                  None \<Rightarrow> Some (s\<lparr>cd_pump := AtTop\<rparr>)
                | Some None \<Rightarrow> Some (s\<lparr>cd_pending := (cd_pending s)(i \<mapsto> Some m), cd_pump := AtTop\<rparr>)
                | Some (Some m') \<Rightarrow> Some (s\<lparr>cd_pump := Stuck i m\<rparr>))
           | None \<Rightarrow>
               (let meth = jstr (jget m ''method'');
                    params = (case jobj (jget m ''params'') of Some p \<Rightarrow> p | None \<Rightarrow> [])
                in if meth = [] then Some (s\<lparr>cd_pump := AtTop\<rparr>)
                   else if meth \<in> cd_handlers s
                   then Some (s\<lparr>cd_handled := cd_handled s @ [(meth, params)], cd_pump := AtTop\<rparr>)
                   else Some (s\<lparr>cd_pump := AtTop\<rparr>)))
      | _ \<Rightarrow> None)"

datatype action =
    Begin | Send int bool | Receive int | Cancel int | CloseSession | On bytes
  | PumpCheck | PumpLoad | PumpReceive "message option" | PumpHandle

fun perform :: "action \<Rightarrow> cdp \<Rightarrow> cdp option" where
  "perform Begin s = Some (call_begin s)"
| "perform (Send i ok) s = call_send i ok s"
| "perform (Receive i) s = call_receive i s"
| "perform (Cancel i) s = call_cancel i s"
| "perform CloseSession s = Some (cdp_Close s)"
| "perform (On meth) s = Some (cdp_On meth s)"
| "perform PumpCheck s = pump_check s"
| "perform PumpLoad s = pump_load s"
| "perform (PumpReceive r) s = pump_receive r s"
| "perform PumpHandle s = pump_handle s"

inductive cdp_step :: "cdp \<Rightarrow> action \<Rightarrow> cdp \<Rightarrow> bool" where
  step: "\<not> cd_panicked s \<Longrightarrow> perform a s = Some s' \<Longrightarrow> cdp_step s a s'"

inductive cdp_run :: "cdp \<Rightarrow> action list \<Rightarrow> cdp \<Rightarrow> bool" where
  stop: "cdp_run s [] s"
| more: "cdp_step s a s1 \<Longrightarrow> cdp_run s1 as s' \<Longrightarrow> cdp_run s (a # as) s'"

inductive_simps cdp_step_iff: "cdp_step s a s'"
inductive_cases cdp_run_NilE: "cdp_run s [] s'"
inductive_cases cdp_run_ConsE: "cdp_run s (a # as) s'"

section \<open>The sequential client\<close>

record node_bridge =
  nb_port :: int
  nb_ws :: bytes
  nb_pick :: pick_options
  nb_conn :: bool
  nb_next :: int

definition NewNodeBridge :: "int \<Rightarrow> pick_options \<Rightarrow> node_bridge" where
  "NewNodeBridge port pick =
     \<lparr>nb_port = (if port = 0 then 9229 else port), nb_ws = [], nb_pick = pick, nb_conn = False, nb_next = 0\<rparr>"

definition NewNodeBridgeWS :: "bytes \<Rightarrow> node_bridge" where
  "NewNodeBridgeWS wsURL =
     \<lparr>nb_port = 0, nb_ws = wsURL, nb_pick = \<lparr>po_port = 0, po_pid = 0, po_root = []\<rparr>, nb_conn = False, nb_next = 0\<rparr>"

text \<open>Each turn of the receive loop finds whether the context is done and the deadline is past, and
  what \<^verbatim>\<open>Receive\<close> then gives; a list that ends is a call that still waits.\<close>

datatype call_end =
    NotConnected | DialError | SendError | ContextDone | TimedOut | ReceiveError | ErrorReply message | Answer message | StillWaiting

type_synonym turn = "bool \<times> bool \<times> message option"

fun recv_loop :: "int \<Rightarrow> turn list \<Rightarrow> call_end" where
  "recv_loop i [] = StillWaiting"
| "recv_loop i ((done, late, r) # turns) =
     (if done then ContextDone
      else if late then TimedOut
      else case r of
             None \<Rightarrow> ReceiveError
           | Some m \<Rightarrow>
               if msg_id_of m = Some i
               then (case reply_of m of CDPError err \<Rightarrow> ErrorReply err | Result fs \<Rightarrow> Answer fs)
               else recv_loop i turns)"

definition callLocked :: "bool \<Rightarrow> turn list \<Rightarrow> node_bridge \<Rightarrow> call_end \<times> node_bridge" where
  "callLocked send_ok turns n =
     (if \<not> nb_conn n then (NotConnected, n)
      else let i = nb_next n + 1; n' = n\<lparr>nb_next := i\<rparr>
           in if \<not> send_ok then (SendError, n') else (recv_loop i turns, n'))"

definition connectWS :: "bool \<Rightarrow> bool \<Rightarrow> bool \<Rightarrow> turn list \<Rightarrow> node_bridge \<Rightarrow> call_end \<times> node_bridge" where
  "connectWS done dial_ok send_ok turns n =
     (if done then (ContextDone, n)
      else if \<not> dial_ok then (DialError, n)
      else callLocked send_ok turns (n\<lparr>nb_conn := True\<rparr>))"

definition bridge_Close :: "node_bridge \<Rightarrow> node_bridge" where
  "bridge_Close n = (if nb_conn n then n\<lparr>nb_conn := False\<rparr> else n)"

text \<open>The target of \<^verbatim>\<open>Connect\<close>: the given one, or what a turn of the waiting loop finds, on all
  ports or on one of them.\<close>

definition bridge_target :: "unicode \<Rightarrow> pick_options \<Rightarrow> inspect_env \<Rightarrow> bytes" where
  "bridge_target u pick env =
     (let on_port = (\<lambda>port. case ListInspectTargets env port of
            Inl err \<Rightarrow> [] | Inr targets \<Rightarrow> PickInspectTarget u targets pick);
          scanned = (case find (\<lambda>ws. ws \<noteq> []) (map on_port scan_range) of Some ws \<Rightarrow> ws | None \<Rightarrow> [])
      in case ResolveBackendInspector u env pick of
           Inr insp \<Rightarrow> if bi_ws insp \<noteq> [] then bi_ws insp else scanned
         | Inl _ \<Rightarrow> scanned)"

fun bridge_wait :: "unicode \<Rightarrow> pick_options \<Rightarrow> int \<Rightarrow> (bool \<times> inspect_env) list \<Rightarrow> connect_result" where
  "bridge_wait u pick port [] = NoInspector port"
| "bridge_wait u pick port ((done, env) # turns) =
     (if done then connect_result.Cancelled
      else let ws = bridge_target u pick env
           in if ws \<noteq> [] then DialTarget ws else bridge_wait u pick port turns)"

definition bridge_Connect :: "unicode \<Rightarrow> (bool \<times> inspect_env) list \<Rightarrow> node_bridge \<Rightarrow> connect_result" where
  "bridge_Connect u turns n =
     (if nb_ws n \<noteq> [] then DialTarget (nb_ws n) else bridge_wait u (nb_pick n) (nb_port n) turns)"

section \<open>Stacks\<close>

definition scan_int :: "bytes \<Rightarrow> int" where
  "scan_int s = (case sscanf_d s of Some i \<Rightarrow> i | None \<Rightarrow> 0)"

definition parseStackLocation :: "bytes \<Rightarrow> bytes \<times> int \<times> int" where
  "parseStackLocation loc =
     (case last_index loc '':'' of
        None \<Rightarrow> (loc, 0, 0)
      | Some lastColon \<Rightarrow>
          (let colPart = drop (lastColon + 1) loc; rest = take lastColon loc
           in case last_index rest '':'' of
                None \<Rightarrow> (loc, 0, 0)
              | Some lineColon \<Rightarrow>
                  (take lineColon rest, scan_int (drop (lineColon + 1) rest), scan_int colPart)))"

text \<open>One line of a stack: the function and the location, or nothing.\<close>

definition stack_line :: "bytes \<Rightarrow> source_ref option" where
  "stack_line line0 =
     (let line = trim_space line0 in
      if has_prefix line ''at '' \<and> contains line '':'' then
        (let (fn, loc) =
           (case (index_of line ''('', last_index line '')'') of
              (Some start, Some close) \<Rightarrow>
                if start < close then (trim_space (take (start - 3) (drop 3 line)), take (close - (start + 1)) (drop (start + 1) line))
                else ([], trim_space (trim_prefix line ''at ''))
            | _ \<Rightarrow> ([], trim_space (trim_prefix line ''at '')));
             (file, lineNo, col) = parseStackLocation loc
         in if file = [] then None
            else Some \<lparr>src_index = 0, src_file = file, src_line = lineNo, src_column = col, src_function = fn\<rparr>)
      else None)"

fun first_frame :: "bytes list \<Rightarrow> source_ref option" where
  "first_frame [] = None"
| "first_frame (l # ls) = (case stack_line l of Some ref \<Rightarrow> Some ref | None \<Rightarrow> first_frame ls)"

definition parseNodeStack :: "bytes \<Rightarrow> source_ref option" where
  "parseNodeStack stack = first_frame (split stack [LF])"

text \<open>\<^verbatim>\<open>TopFrame\<close>: the stack is looked for in the field \<^verbatim>\<open>value\<close> of the answer.\<close>

definition TopFrame :: "bool \<Rightarrow> turn list \<Rightarrow> node_bridge \<Rightarrow> (call_end + source_ref option) \<times> node_bridge" where
  "TopFrame send_ok turns n =
     (case callLocked send_ok turns n of
        (Answer fs, n') \<Rightarrow>
          (let stack = jstr (jget fs ''value'')
           in (Inr (if stack = [] then None else parseNodeStack stack), n'))
      | (e, n') \<Rightarrow> (Inl e, n'))"

section \<open>Lemmas\<close>

text \<open>What holds of every session that \<^verbatim>\<open>ConnectCDPURL\<close> has made.\<close>

definition cdp_inv :: "cdp \<Rightarrow> bool" where
  "cdp_inv s =
     ((cd_closed s \<longleftrightarrow> \<not> cd_conn s) \<and>
      (\<forall>i p. cd_calls s i = Some p \<longrightarrow> i \<le> cd_next s) \<and>
      (\<forall>i. cd_pending s i \<noteq> None \<longleftrightarrow> cd_calls s i = Some Registered \<or> cd_calls s i = Some Waiting) \<and>
      (\<forall>i m. cd_pending s i = Some (Some m) \<longrightarrow> msg_id_of m = Some i) \<and>
      (\<forall>i m. cd_calls s i = Some (Returned (Replied m)) \<longrightarrow> msg_id_of m = Some i))"

lemma cdp_inv_connected: "cdp_inv connected"
  by (simp add: cdp_inv_def connected_def)

lemmas action_defs = call_begin_def call_send_def call_receive_def call_cancel_def cdp_Close_def cdp_On_def
  pump_check_def pump_load_def pump_receive_def pump_handle_def return_call_def unstick_def

lemma cdp_inv_frame [simp]:
  "cdp_inv (s\<lparr>cd_pump := p\<rparr>) = cdp_inv s" "cdp_inv (s\<lparr>cd_handlers := h\<rparr>) = cdp_inv s"
  "cdp_inv (s\<lparr>cd_handled := l\<rparr>) = cdp_inv s" "cdp_inv (s\<lparr>cd_panicked := b\<rparr>) = cdp_inv s"
  by (simp_all add: cdp_inv_def)

lemma cdp_inv_Close: "cdp_inv s \<Longrightarrow> cdp_inv (cdp_Close s)"
  by (simp add: cdp_inv_def cdp_Close_def)

lemma cdp_inv_begin: "cdp_inv s \<Longrightarrow> cdp_inv (call_begin s)"
  unfolding call_begin_def Let_def
  by (cases "cd_closed s") (simp_all add: cdp_inv_def, fastforce)

lemma cdp_inv_return:
  assumes "cdp_inv s" "cd_calls s i = Some p" "\<And>m. out = Replied m \<Longrightarrow> msg_id_of m = Some i"
  shows "cdp_inv (return_call i out s)"
  using assms unfolding cdp_inv_def return_call_def by auto

lemma cdp_inv_wait:
  "cdp_inv s \<Longrightarrow> cd_calls s i = Some Registered \<Longrightarrow> cdp_inv (s\<lparr>cd_calls := (cd_calls s)(i \<mapsto> Waiting)\<rparr>)"
  unfolding cdp_inv_def by auto

lemma cdp_inv_buffer:
  "cdp_inv s \<Longrightarrow> cd_pending s i = Some None \<Longrightarrow> msg_id_of m = Some i \<Longrightarrow>
   cdp_inv (s\<lparr>cd_pending := (cd_pending s)(i \<mapsto> Some m), cd_pump := p\<rparr>)"
  unfolding cdp_inv_def by auto

lemma unstick_frame [simp]:
  "cdp_inv (unstick i s) = cdp_inv s" "cd_calls (unstick i s) = cd_calls s"
  by (simp_all add: unstick_def split: pump.split)

lemma cdp_inv_perform:
  assumes "cdp_inv s" "perform a s = Some s'"
  shows "cdp_inv s'"
proof (cases a)
  case (Send i ok)
  with assms show ?thesis
    by (auto simp: call_send_def cdp_inv_wait intro: cdp_inv_return split: if_splits)
next
  case (Receive i)
  then obtain m where m: "cd_calls s i = Some Waiting" "cd_pending s i = Some (Some m)"
      "s' = return_call i (Replied m) (unstick i s)"
    using assms(2) by (auto simp: call_receive_def split: if_splits option.splits)
  moreover have "msg_id_of m = Some i" using assms(1) m(2) by (simp add: cdp_inv_def)
  ultimately show ?thesis using assms(1) by (auto intro!: cdp_inv_return)
next
  case (Cancel i)
  with assms show ?thesis by (auto simp: call_cancel_def intro: cdp_inv_return split: if_splits)
next
  case PumpHandle
  then obtain m where h: "cd_pump s = Holding m" using assms(2) by (auto simp: pump_handle_def split: pump.splits)
  show ?thesis
  proof (cases "msg_id_of m")
    case None
    with assms PumpHandle h show ?thesis by (auto simp: pump_handle_def Let_def split: if_splits)
  next
    case (Some i)
    with assms PumpHandle h cdp_inv_buffer [OF assms(1)] show ?thesis
      by (auto simp: pump_handle_def split: option.splits)
  qed
qed (use assms in \<open>auto simp: cdp_inv_begin cdp_inv_Close cdp_On_def pump_check_def pump_load_def pump_receive_def
       split: if_splits option.splits\<close>)

lemma cdp_run_inv: "cdp_run s as s' \<Longrightarrow> cdp_inv s \<Longrightarrow> cdp_inv s'"
  by (induction rule: cdp_run.induct) (auto simp: cdp_step_iff intro: cdp_inv_perform)

lemmas reachable_inv = cdp_run_inv [OF _ cdp_inv_connected]

text \<open>A call that waits while the pump has returned.\<close>

definition stranded :: "int \<Rightarrow> cdp \<Rightarrow> bool" where
  "stranded i s = (cd_pump s = Stopped \<and> cd_calls s i = Some Waiting \<and> cd_pending s i = Some None \<and> i \<le> cd_next s)"

lemma stranded_perform:
  assumes "stranded i s" "perform a s = Some s'" "a \<noteq> Cancel i"
  shows "stranded i s'"
proof (cases a)
  case Begin
  with assms show ?thesis by (auto simp: stranded_def call_begin_def Let_def)
next
  case (Send j ok)
  with assms show ?thesis by (auto simp: stranded_def call_send_def return_call_def split: if_splits)
next
  case (Receive j)
  with assms show ?thesis
    by (auto simp: stranded_def call_receive_def return_call_def unstick_def split: if_splits option.splits)
next
  case (Cancel j)
  with assms show ?thesis by (auto simp: stranded_def call_cancel_def return_call_def split: if_splits)
qed (use assms in \<open>auto simp: stranded_def cdp_Close_def cdp_On_def pump_check_def pump_load_def pump_receive_def
      pump_handle_def split: if_splits\<close>)

lemma stranded_run: "cdp_run s as s' \<Longrightarrow> stranded i s \<Longrightarrow> Cancel i \<notin> set as \<Longrightarrow> stranded i s'"
  by (induction rule: cdp_run.induct) (auto simp: cdp_step_iff dest: stranded_perform)

text \<open>Runs as a function.\<close>

fun performs :: "action list \<Rightarrow> cdp \<Rightarrow> cdp option" where
  "performs [] s = Some s"
| "performs (a # as) s = (if cd_panicked s then None else Option.bind (perform a s) (performs as))"

lemma cdp_run_iff: "cdp_run s as s' \<longleftrightarrow> performs as s = Some s'"
proof (induction as arbitrary: s)
  case Nil
  show ?case by (auto intro: cdp_run.stop elim: cdp_run_NilE)
next
  case (Cons a as)
  show ?case
    by (auto simp: Cons [symmetric] cdp_step_iff bind_eq_Some_conv intro: cdp_run.more elim!: cdp_run_ConsE)
qed

section \<open>Properties\<close>

text \<open>C9: However calls, answers, cancellations and the closing of the session interleave, a call
  that returns with an answer returns with the answer to its own message.\<close>

theorem answers_match_calls:
  assumes "cdp_run connected as s" "cd_calls s i = Some (Returned (Replied m))"
  shows "msg_id_of m = Some i"
  using reachable_inv [OF assms(1)] assms(2) by (simp add: cdp_inv_def)

definition demo_answer :: message where
  "demo_answer = [(''id'', JNum 1), (''result'', JObj [])]"

lemma answers_match_calls_witness:
  "\<exists>s m. cdp_run connected [Begin, Send 1 True, PumpCheck, PumpLoad, PumpReceive (Some demo_answer), PumpHandle, Receive 1] s \<and>
     cd_calls s 1 = Some (Returned (Replied m)) \<and> msg_id_of m = Some 1"
proof -
  have "\<exists>s. cdp_run connected [Begin, Send 1 True, PumpCheck, PumpLoad, PumpReceive (Some demo_answer), PumpHandle, Receive 1] s \<and>
      cd_calls s 1 = Some (Returned (Replied demo_answer))"
    by (simp add: cdp_run_iff connected_def action_defs demo_answer_def msg_id_of_def jget_def trunc_def Let_def)
  then show ?thesis using answers_match_calls by blast
qed


text \<open>A session with one call waiting and its pump receiving.\<close>

definition one_call :: "action list" where
  "one_call = [Begin, Send 1 True, PumpCheck, PumpLoad]"

definition one_waiting :: cdp where
  "one_waiting = connected\<lparr>cd_next := 1, cd_pending := [1 \<mapsto> None], cd_calls := [1 \<mapsto> Waiting], cd_pump := Receiving\<rparr>"

lemma one_call_waiting: "cdp_run connected one_call one_waiting"
  by (simp add: cdp_run_iff one_call_def one_waiting_def connected_def action_defs Let_def)


text \<open>Closing the session wakes no call.  Once the pump has returned, a call that waits for its
  answer waits until its own context ends, whatever else happens.\<close>

theorem closed_session_strands_calls:
  assumes "cdp_run connected as s" "cd_calls s i = Some Waiting" "cd_pending s i = Some None" "cd_pump s = Stopped"
    and "cdp_run s bs s'" "Cancel i \<notin> set bs"
  shows "cd_calls s' i = Some Waiting"
proof -
  have "stranded i s" using reachable_inv [OF assms(1)] assms(2-4) by (auto simp: stranded_def cdp_inv_def)
  from stranded_run [OF assms(5) this assms(6)] show ?thesis by (simp add: stranded_def)
qed

lemma closed_session_strands_calls_witness:
  "\<exists>s s'. cdp_run connected (one_call @ [CloseSession, PumpReceive None]) s \<and>
     cdp_run s [Begin, CloseSession, On ''Network.enable''] s' \<and> cd_calls s' 1 = Some Waiting"
proof -
  define s where "s = one_waiting\<lparr>cd_closed := True, cd_conn := False, cd_pump := Stopped\<rparr>"
  have run: "cdp_run connected (one_call @ [CloseSession, PumpReceive None]) s"
    by (simp add: cdp_run_iff one_call_def s_def one_waiting_def connected_def action_defs Let_def)
  obtain s' where s': "cdp_run s [Begin, CloseSession, On ''Network.enable''] s'"
    by (simp add: cdp_run_iff s_def one_waiting_def connected_def action_defs)
  have "cd_calls s 1 = Some Waiting" "cd_pending s 1 = Some None" "cd_pump s = Stopped"
    by (simp_all add: s_def one_waiting_def)
  from closed_session_strands_calls [OF run this s'] run s' show ?thesis by auto
qed

text \<open>A call that races with the closing of the session panics: the call has found the session
  open, \<^verbatim>\<open>Close\<close> sets the connection to nil, and the send uses it.\<close>

theorem call_racing_close_panics:
  assumes "cdp_run connected as s" "\<not> cd_panicked s" "cd_calls s i = Some Registered"
  shows "\<exists>s'. cdp_run s [CloseSession, Send i ok] s' \<and> cd_panicked s'"
  using assms(2,3) reachable_inv [OF assms(1)] by (auto simp: cdp_run_iff cdp_Close_def call_send_def cdp_inv_def)

lemma call_racing_close_panics_witness:
  "\<exists>s s'. cdp_run connected [Begin] s \<and> cdp_run s [CloseSession, Send 1 True] s' \<and> cd_panicked s'"
proof -
  obtain s where s: "cdp_run connected [Begin] s" "\<not> cd_panicked s" "cd_calls s 1 = Some Registered"
    by (simp add: cdp_run_iff connected_def action_defs Let_def)
  from call_racing_close_panics [OF s] s(1) show ?thesis by blast
qed

section \<open>Frames\<close>

lemma split_first:
  assumes "c \<notin> set d"
  shows "split (d @ [c] @ r) [c] = d # split r [c]"
proof -
  have "index_of d [c] = None" using assms by (simp add: index_of_char)
  then have "index_of (d @ [c] @ r) [c] = Some (length d)" by (simp add: index_of_char_append)
  then show ?thesis by (subst split.simps) simp
qed

lemma last_index_char:
  assumes "c \<notin> set y"
  shows "last_index (x @ [c] @ y) [c] = Some (length x)"
proof -
  have "index_of (rev y) [c] = None" using assms by (simp add: index_of_char)
  then have "index_of (rev y @ [c] @ rev x) [c] = Some (length y)" by (simp add: index_of_char_append)
  then show ?thesis by (simp add: last_index_def)
qed

lemma scan_int_itoa:
  assumes "n < 2 ^ 63"
  shows "scan_int (itoa n) = int n"
proof -
  have digits: "list_all is_digit (itoa n)" using itoa_digits by (simp add: list_all_iff)
  have "plain_char c" if "is_digit c" for c using that by (auto simp: plain_char_def is_digit_def)
  with digits have "plain_char (hd (itoa n))" using list.set_sel(1) [OF itoa_not_Nil] by (auto simp: list_all_iff)
  then have "\<not> prefix e (itoa n)" if "e \<in> set space_encs" for e
    using that space_encs_not_plain by (cases e; cases "itoa n") auto
  then have "find (\<lambda>e. prefix e (itoa n)) (filter P space_encs) = None" for P by (simp add: find_None_iff)
  then have "space_len (filter P space_encs) (itoa n) = 0" for P by (simp add: space_len_def)
  then have "trim_encs (filter P space_encs) (itoa n) = itoa n" for P by (simp add: trim_encs.simps)
  moreover have all: "takeWhile is_digit (itoa n) = itoa n" by (rule takeWhile_eq_all_conv [THEN iffD2]) (rule itoa_digits)
  ultimately show ?thesis
    using digits assms by (simp add: scan_int_def sscanf_d_def signed_split_digits Let_def int64_range_def all)
qed

lemma parseStackLocation_itoa:
  assumes "l < 2 ^ 63" "c < 2 ^ 63"
  shows "parseStackLocation (path @ '':'' @ itoa l @ '':'' @ itoa c) = (path, int l, int c)"
proof -
  have no: "CHR '':'' \<notin> set (itoa n)" for n by (rule not_digit_notin_itoa) (simp add: is_digit_def)
  have "last_index (path @ '':'' @ itoa l @ '':'' @ itoa c) '':'' = Some (length (path @ '':'' @ itoa l))"
    using last_index_char [OF no, of "path @ '':'' @ itoa l"] by simp
  moreover have "last_index (path @ '':'' @ itoa l) '':'' = Some (length path)"
    using last_index_char [OF no, of path] by simp
  ultimately show ?thesis using assms by (simp add: parseStackLocation_def Let_def scan_int_itoa)
qed

lemma trim_space_left: "trim_space (CHR '' '' # s) = trim_space s"
  by (simp add: trim_space_def trim_encs.simps [of space_encs "CHR '' '' # s"])

lemma trim_space_right:
  assumes "s \<noteq> []" "plain_char (hd s)" "plain_char (last s)"
  shows "trim_space (s @ '' '') = s"
proof -
  have blank: "space_len (map rev space_encs) (CHR '' '' # r) = 1" for r
    by (simp add: space_len_def space_encs_def)
  have "trim_encs space_encs (s @ '' '') = s @ '' ''"
    using assms by (cases s) (simp_all add: trim_encs.simps)
  moreover have "trim_encs (map rev space_encs) (CHR '' '' # rev s) = trim_encs (map rev space_encs) (rev s)"
    by (subst trim_encs.simps) (simp add: blank)
  moreover have "trim_encs (map rev space_encs) (rev s) = rev s"
    using assms by (cases s rule: rev_cases) (simp_all add: trim_encs.simps)
  ultimately show ?thesis by (simp add: trim_space_def)
qed

lemma trim_space_indented:
  "s \<noteq> [] \<Longrightarrow> plain_char (hd s) \<Longrightarrow> plain_char (last s) \<Longrightarrow> trim_space (''    '' @ s) = s"
  by (simp add: trim_space_left trim_space_plain)

definition frame :: "bytes \<Rightarrow> bytes \<Rightarrow> nat \<Rightarrow> nat \<Rightarrow> bytes" where
  "frame fn path l c = ''at '' @ fn @ '' ('' @ path @ '':'' @ itoa l @ '':'' @ itoa c @ '')''"

lemma stack_line_frame:
  assumes fn: "fn \<noteq> []" "plain_char (hd fn)" "plain_char (last fn)" "CHR ''('' \<notin> set fn"
    and path: "path \<noteq> []" and nums: "l < 2 ^ 63" "c < 2 ^ 63"
  shows "stack_line (''    '' @ frame fn path l c) =
    Some \<lparr>src_index = 0, src_file = path, src_line = int l, src_column = int c, src_function = fn\<rparr>"
proof -
  let ?line = "frame fn path l c" and ?loc = "path @ '':'' @ itoa l @ '':'' @ itoa c"
  have line: "?line = (''at '' @ fn @ '' '') @ [CHR ''(''] @ (?loc @ '')'')" by (simp add: frame_def)
  have trim: "trim_space (''    '' @ ?line) = ?line"
    by (rule trim_space_indented) (simp_all add: frame_def plain_char_def)
  have "index_of fn ''('' = None" using fn(4) by (simp add: index_of_char)
  then have start: "index_of ?line ''('' = Some (length fn + 4)"
    by (simp add: frame_def index_of_char_append)
  have "?line = (''at '' @ fn @ '' ('' @ ?loc) @ [CHR '')''] @ []" by (simp add: frame_def)
  then have close: "last_index ?line '')'' = Some (length fn + 5 + length ?loc)"
    using last_index_char [of "CHR '')''" "[]" "''at '' @ fn @ '' ('' @ ?loc"] by simp
  have "sublist '':'' ?line" unfolding frame_def sublist_def
    by (rule exI [of _ "''at '' @ fn @ '' ('' @ path"], rule exI [of _ "itoa l @ '':'' @ itoa c @ '')''"]) simp
  moreover have "has_prefix ?line ''at ''" by (simp add: frame_def has_prefix_def)
  moreover have "take (length fn + 4 - 3) (drop 3 ?line) = fn @ '' ''" by (simp add: line)
  moreover have "drop (length fn + 4 + 1) ?line = ?loc @ '')''"
  proof -
    have e: "?line = (''at '' @ fn @ '' (''  ) @ (?loc @ '')'')" by (simp add: frame_def)
    have "length fn + 4 + 1 = length (''at '' @ fn @ '' ('')" by simp
    then show ?thesis unfolding e by (metis append_eq_conv_conj)
  qed
  ultimately show ?thesis
    using path trim_space_right [OF fn(1-3)] parseStackLocation_itoa [OF nums, of path]
    unfolding stack_line_def Let_def trim start close by (simp add: contains_iff del: append_assoc)
qed

text \<open>C39: The stack parser reads a frame back: a stack whose first frame is printed from a
  function, a file, a line and a column gives exactly these, whatever follows and whatever
  characters the path has, a drive letter's colon included.\<close>

theorem printed_frame_is_read_back:
  assumes "fn \<noteq> []" "plain_char (hd fn)" "plain_char (last fn)" "CHR ''('' \<notin> set fn" "LF \<notin> set fn"
    and "path \<noteq> []" "LF \<notin> set path" "l < 2 ^ 63" "c < 2 ^ 63"
  shows "parseNodeStack (''Error'' @ [LF] @ (''    '' @ frame fn path l c) @ [LF] @ rest) =
    Some \<lparr>src_index = 0, src_file = path, src_line = int l, src_column = int c, src_function = fn\<rparr>"
proof -
  have no: "LF \<notin> set (itoa n)" for n by (rule not_digit_notin_itoa) (simp add: is_digit_def)
  have "split (''Error'' @ [LF] @ (''    '' @ frame fn path l c) @ [LF] @ rest) [LF] =
      ''Error'' # (''    '' @ frame fn path l c) # split rest [LF]"
    using split_first [of LF "''Error''" "(''    '' @ frame fn path l c) @ [LF] @ rest"]
      split_first [of LF "''    '' @ frame fn path l c" rest] assms(5,7) no by (simp add: frame_def)
  moreover have "stack_line ''Error'' = None"
    using trim_space_plain [of "''Error''"] by (simp add: stack_line_def plain_char_def has_prefix_def Let_def)
  ultimately show ?thesis
    using stack_line_frame [OF assms(1-4,6,8,9)] by (simp add: parseNodeStack_def)
qed

lemma printed_frame_is_read_back_witness:
  "parseNodeStack (''Error'' @ [LF] @ (''    '' @ frame ''handler'' (''C:'' @ bslash @ ''server.js'') 42 5) @ [LF] @ ''rest'') =
     Some \<lparr>src_index = 0, src_file = ''C:'' @ bslash @ ''server.js'', src_line = 42, src_column = 5, src_function = ''handler''\<rparr>"
  using printed_frame_is_read_back [of "''handler''" "''C:'' @ bslash @ ''server.js''" 42 5 "''rest''"]
  by (simp add: plain_char_def)

text \<open>The bridge never finds a frame in what the inspector answers.  The protocol wraps the value
  of an evaluation into a remote object of its own, in the field \<^verbatim>\<open>result\<close> of the result;
  \<^verbatim>\<open>TopFrame\<close> looks one level too high and reports that there is no frame, whatever the stack.\<close>

theorem TopFrame_misses_the_stack:
  assumes "nb_conn n" "msg_id_of m = Some (nb_next n + 1)" "jget m ''error'' = None"
    and "jget m ''result'' = Some (JObj [(''result'', JObj [(''type'', JStr ''string''), (''value'', JStr stack)])])"
  shows "fst (TopFrame True [(False, False, Some m)] n) = Inr None"
  using assms by (simp add: TopFrame_def callLocked_def reply_of_def jobj_def jget_def jstr_def Let_def)

lemma TopFrame_misses_the_stack_witness:
  "fst (TopFrame True
     [(False, False, Some [(''id'', JNum 1), (''result'', JObj [(''result'',
        JObj [(''type'', JStr ''string''), (''value'', JStr (''Error'' @ [LF] @ ''    '' @ frame ''f'' ''a.js'' 1 1))])])])]
     ((NewNodeBridge 0 demo_opts)\<lparr>nb_conn := True\<rparr>)) = Inr None"
  by (rule TopFrame_misses_the_stack) (simp_all add: NewNodeBridge_def msg_id_of_def jget_def trunc_def)

end
