(* ===== verification/Discovery.thy ===== *)
theory Discovery
  imports Inspector
begin

text \<open>
  Discovering the services of a workspace (pkg/discover).  The files are those of
  Project_Config, the inspectors those of Inspector; whether a port accepts connections and
  what \<^verbatim>\<open>lsof\<close> prints are inputs.  The package has its own copies of \<^verbatim>\<open>apiURLFromEnv\<close> and
  \<^verbatim>\<open>portFromURL\<close> of pkg/project/ports.go; the two agree.
\<close>

record discovered =
  di_workspace :: bytes
  di_capture_root :: bytes
  di_backend :: int
  di_frontend :: int
  di_pid :: int
  di_inspect :: int

record net_env =
  ne_listening :: "int \<Rightarrow> bool"
  ne_lsof :: "int \<Rightarrow> bytes option"

definition IsListening :: "net_env \<Rightarrow> int \<Rightarrow> bool" where
  "IsListening net port = ne_listening net port"

definition PIDListeningOn :: "net_env \<Rightarrow> int \<Rightarrow> int" where
  "PIDListeningOn net port =
     (case ne_lsof net port of
        None \<Rightarrow> 0
      | Some out \<Rightarrow>
          (let line = trim_space out in
           if line = [] then 0
           else case atoi (trim_space (split line [LF] ! 0)) of None \<Rightarrow> 0 | Some pid \<Rightarrow> pid))"

section \<open>Addresses\<close>

definition disc_portFromURL :: "bytes \<Rightarrow> int" where
  "disc_portFromURL raw0 =
     (let raw = trim_space raw0 in
      if \<not> contains raw ''://'' then 0
      else
        let hostPort = trim_prefix (case cut raw ''://'' of (_, after, _) \<Rightarrow> after) ''/'';
            fallback = (if contains raw '':3000'' then 3000 else 0)
        in if contains hostPort '':''
           then (case atoi (last (split hostPort '':'')) of Some p \<Rightarrow> p | None \<Rightarrow> fallback)
           else fallback)"

fun disc_api_url :: "'e proj_env \<Rightarrow> bytes \<Rightarrow> bytes list \<Rightarrow> int" where
  "disc_api_url env dir [] = 0"
| "disc_api_url env dir (name # names) =
     (case pe_read env (path_join [dir, name]) of
        Contents data \<Rightarrow>
          (case api_url_match data of
             Some digits \<Rightarrow>
               (case atoi digits of
                  Some p \<Rightarrow> if 0 < p then p else disc_api_url env dir names
                | None \<Rightarrow> disc_api_url env dir names)
           | None \<Rightarrow> disc_api_url env dir names)
      | _ \<Rightarrow> disc_api_url env dir names)"

definition disc_apiURLFromEnv :: "'e proj_env \<Rightarrow> bytes \<Rightarrow> int" where
  "disc_apiURLFromEnv env dir = disc_api_url env dir [''.env'', ''.env.local'', ''.env.development'']"

text \<open>The copies agree with those of pkg/project.\<close>

lemma disc_portFromURL_eq [simp]: "disc_portFromURL raw = portFromURL raw"
  by (auto simp: disc_portFromURL_def portFromURL_def contains_def cut_def Let_def numeral_3_eq_3 split: option.split)

lemma disc_api_url_first:
  "disc_api_url env dir names = first_positive (map (\<lambda>name.
       case pe_read env (path_join [dir, name]) of
         Contents data \<Rightarrow>
           (case api_url_match data of
              None \<Rightarrow> 0
            | Some digits \<Rightarrow> (case atoi digits of Some p \<Rightarrow> if 0 < p then p else 0 | None \<Rightarrow> 0))
       | _ \<Rightarrow> 0) names)"
  by (induction names) (auto split: file_read.split option.split)

lemma disc_apiURLFromEnv_eq [simp]: "disc_apiURLFromEnv env dir = apiURLFromEnv env dir"
  by (simp add: disc_apiURLFromEnv_def apiURLFromEnv_def disc_api_url_first env_names_def)

text \<open>The first positive port among the lines that set the frontend's address.\<close>

fun frontend_port_of_lines :: "bytes list \<Rightarrow> int" where
  "frontend_port_of_lines [] = 0"
| "frontend_port_of_lines (line0 # ls) =
     (let line = trim_space line0 in
      if has_prefix line ''NEXTAUTH_URL='' \<or> has_prefix line ''NEXT_PUBLIC_APP_URL='' then
        (let (_, v, _) = cut line ''='';
             p = disc_portFromURL (trim_chars v [CHR 0x22, CHR 0x27, CHR '' ''])
         in if 0 < p then p else frontend_port_of_lines ls)
      else frontend_port_of_lines ls)"

definition frontendPortFromEnv :: "'e proj_env \<Rightarrow> bytes \<Rightarrow> int" where
  "frontendPortFromEnv env dir =
     first_positive (map (\<lambda>name.
       case pe_read env (path_join [dir, name]) of
         Contents data \<Rightarrow> frontend_port_of_lines (split data [LF])
       | _ \<Rightarrow> 0) [''.env'', ''.env.local''])"

definition FindInspectPortForBackend ::
  "unicode \<Rightarrow> inspect_env \<Rightarrow> 'e proj_env \<Rightarrow> int \<Rightarrow> int \<Rightarrow> bytes \<Rightarrow> int" where
  "FindInspectPortForBackend u insp env backendPort backendPID captureRoot =
     (case ResolveBackendInspector u insp \<lparr>po_port = backendPort, po_pid = backendPID, po_root = captureRoot\<rparr> of
        Inl _ \<Rightarrow>
          (let cfg = fst (LoadConfig env (path_join [captureRoot, DirName, ConfigName]))
           in if 0 < cf_inspect_port cfg then cf_inspect_port cfg else 0)
      | Inr b \<Rightarrow> bi_port b)"

definition FindInspectPort :: "unicode \<Rightarrow> inspect_env \<Rightarrow> 'e proj_env \<Rightarrow> int" where
  "FindInspectPort u insp env = FindInspectPortForBackend u insp env 0 0 []"

text \<open>One directory of the scan; a later one overrides an earlier one.\<close>

definition scan_dir :: "'e proj_env \<Rightarrow> bytes \<Rightarrow> int \<times> int \<Rightarrow> int \<times> int" where
  "scan_dir env dir = (\<lambda>(backend, frontend).
     (if 0 < disc_apiURLFromEnv env dir then disc_apiURLFromEnv env dir else backend,
      if 0 < frontendPortFromEnv env dir then frontendPortFromEnv env dir else frontend))"

definition scan_dirs :: "bytes \<Rightarrow> bytes list" where
  "scan_dirs wsp = wsp # map (\<lambda>rel. path_join [wsp, rel]) [''web'', ''frontend'', ''client'', ''apps/web'']"

definition Discover ::
  "unicode \<Rightarrow> inspect_env \<Rightarrow> net_env \<Rightarrow> 'e proj_env \<Rightarrow> bytes \<Rightarrow> discovered option" where
  "Discover u insp net env workspace = do {
     let wsp = path_abs env workspace;
     root \<leftarrow> FindCaptureRoot env wsp;
     let (b0, f0) = fold (scan_dir env) (scan_dirs wsp) (ResolveBackendPort env wsp root, 0);
     let backend = (if b0 \<le> 0 then 4000 else b0);
     let frontend = (if f0 \<le> 0 then 3000 else f0);
     let pid = (if IsListening net backend then PIDListeningOn net backend else 0);
     Some \<lparr>di_workspace = wsp, di_capture_root = root, di_backend = backend, di_frontend = frontend,
           di_pid = pid, di_inspect = FindInspectPortForBackend u insp env backend pid root\<rparr>
   }"

section \<open>Processes\<close>

text \<open>The arguments of a process, which \<^verbatim>\<open>/proc\<close> ends with zero bytes; an empty argument ends the
  line.\<close>

function stringsReplaceNull :: "bytes \<Rightarrow> bytes" where
  "stringsReplaceNull data =
     (case index_of data [NUL] of
        None \<Rightarrow> data
      | Some i \<Rightarrow> if i = 0 then [] else take i data @ '' '' @ stringsReplaceNull (drop (i + 1) data))"
  by pat_completeness auto
termination
  by (relation "measure length") (auto dest!: index_of_bound)

declare stringsReplaceNull.simps [simp del]

definition ProcessCommandLine :: "(int \<Rightarrow> bytes option) \<Rightarrow> int \<Rightarrow> bytes" where
  "ProcessCommandLine cmdline pid =
     (if pid \<le> 0 then []
      else case cmdline pid of None \<Rightarrow> [] | Some data \<Rightarrow> stringsReplaceNull data)"

definition ProcessHasBugITPreload :: "(int \<Rightarrow> bytes option) \<Rightarrow> int \<Rightarrow> bool" where
  "ProcessHasBugITPreload cmdline pid =
     (if pid \<le> 0 then False
      else let cmd = ProcessCommandLine cmdline pid
           in contains cmd ''.bugit/preload'' \<or> contains cmd ''preload.cjs'')"

section \<open>Lemmas\<close>

lemma stringsReplaceNull_args:
  "\<forall>a \<in> set args. a \<noteq> [] \<and> NUL \<notin> set a \<Longrightarrow>
   stringsReplaceNull (concat (map (\<lambda>a. a @ [NUL]) args)) = concat (map (\<lambda>a. a @ '' '') args)"
proof (induction args)
  case Nil
  show ?case by (simp add: stringsReplaceNull.simps)
next
  case (Cons a args)
  then have "index_of a [NUL] = None" by (simp add: index_of_char)
  then have "index_of (a @ NUL # concat (map (\<lambda>a. a @ [NUL]) args)) [NUL] = Some (length a)"
    by (simp add: index_of_char_append)
  with Cons show ?case by (simp add: stringsReplaceNull.simps [of "a @ NUL # concat (map (\<lambda>a. a @ [NUL]) args)"])
qed

text \<open>What the scan leaves: the last directory with an address wins.\<close>

lemma scan_dirs_backend:
  "fst (fold (scan_dir env) ds (b, f)) =
     (case find (\<lambda>d. 0 < apiURLFromEnv env d) (rev ds) of None \<Rightarrow> b | Some d \<Rightarrow> apiURLFromEnv env d)"
  by (induction ds arbitrary: b f rule: rev_induct) (auto simp: scan_dir_def split_beta)

section \<open>Properties\<close>

text \<open>Discovery does not respect the configured port.  Whatever port the project's own settings
  or its \<^verbatim>\<open>.env\<close> files give, an API address in an environment file of the workspace or of one of
  the frontend directories replaces it; among several, the last directory's does.\<close>

theorem discovered_port_overrides_settings:
  assumes "Discover u insp net env workspace = Some d"
    and "find (\<lambda>dir. 0 < apiURLFromEnv env dir) (rev (scan_dirs (path_abs env workspace))) = Some dir"
  shows "di_backend d = apiURLFromEnv env dir"
proof -
  have "0 < apiURLFromEnv env dir" using assms(2) by (auto simp: find_Some_iff)
  moreover have "fst (fold (scan_dir env) (scan_dirs (path_abs env workspace)) (b, 0)) = apiURLFromEnv env dir" for b
    using assms(2) by (simp add: scan_dirs_backend)
  ultimately show ?thesis
    using assms(1) by (auto simp: Discover_def Let_def split_beta split: Option.bind_splits)
qed

text \<open>A backend that names its own port 5000 in the workspace's \<^verbatim>\<open>.env\<close>.\<close>

definition demo_workspace :: "unit proj_env" where
  "demo_workspace = empty_env\<lparr>pe_read := (\<lambda>p.
       if p = ''/w/package.json'' then Contents []
       else if p = ''/w/.env'' then Contents ''API_URL=http://localhost:5000'' else NotExist),
     pe_scripts := (\<lambda>_. Some (\<lambda>_. ''node server.js''))\<rparr>"

definition quiet :: net_env where
  "quiet = \<lparr>ne_listening = (\<lambda>_. False), ne_lsof = (\<lambda>_. None)\<rparr>"

lemma workspace_paths:
  "path_join [''/w'', ''package.json''] = ''/w/package.json''" "path_join [''/w'', ''.env''] = ''/w/.env''"
  "path_join [''/w'', ''.env.local''] = ''/w/.env.local''" "path_join [''/w'', ''.env.development''] = ''/w/.env.development''"
  "path_clean ''/w'' = ''/w''" "path_join [''/w'', DirName, ConfigName] = ''/w/.bugit/bugit.yaml''"
  "path_dir ''/w'' = ''/''" "path_join [''/'', DirName, ConfigName] = ''/.bugit/bugit.yaml''"
  by code_simp+

lemma demo_other_dirs:
  "list_all (\<lambda>rel. list_all (\<lambda>name. path_join [path_join [''/w'', rel], name] \<noteq> ''/w/.env'' \<and>
       path_join [path_join [''/w'', rel], name] \<noteq> ''/w/package.json'') env_names)
     [''web'', ''frontend'', ''client'', ''apps/web'']"
  by code_simp

lemma demo_api_port: "apiURLFromEnv demo_workspace ''/w'' = 5000"
proof -
  have "api_url_match ''API_URL=http://localhost:5000'' = Some ''5000''" "atoi ''5000'' = Some 5000" by code_simp+
  then show ?thesis by (simp add: apiURLFromEnv_def env_names_def workspace_paths demo_workspace_def)
qed

lemma discovered_port_overrides_settings_witness:
  "\<exists>d. Discover plain_unicode demo_inspect quiet demo_workspace ''/w'' = Some d \<and> di_backend d = 5000"
proof -
  have a: "path_abs demo_workspace ''/w'' = ''/w''" by (simp add: path_abs_def path_is_abs_def has_prefix_def workspace_paths)
  have "readCachedCaptureRoot demo_workspace ''/w'' = []"
    by (simp add: readCachedCaptureRoot_def LoadConfig_def DefaultConfig_def workspace_paths demo_workspace_def)
  moreover have "hasDevPackageJSON demo_workspace ''/w''"
    by (simp add: hasDevPackageJSON_def workspace_paths demo_workspace_def)
  ultimately have "FindCaptureRoot demo_workspace ''/w'' = Some ''/w''"
    by (simp add: FindCaptureRoot_def a)
  then obtain d where d: "Discover plain_unicode demo_inspect quiet demo_workspace ''/w'' = Some d"
    by (simp add: Discover_def a Let_def split_beta)
  have "apiURLFromEnv demo_workspace (path_join [''/w'', rel]) = 0" if "rel \<in> set [''web'', ''frontend'', ''client'', ''apps/web'']" for rel
  proof -
    have "list_all (\<lambda>name. path_join [path_join [''/w'', rel], name] \<noteq> ''/w/.env'' \<and>
        path_join [path_join [''/w'', rel], name] \<noteq> ''/w/package.json'') env_names"
      using demo_other_dirs that unfolding list_all_iff by blast
    then show ?thesis by (simp add: apiURLFromEnv_def env_names_def demo_workspace_def)
  qed
  then have "find (\<lambda>dir. 0 < apiURLFromEnv demo_workspace dir) (rev (scan_dirs (path_abs demo_workspace ''/w''))) = Some ''/w''"
    by (simp add: a scan_dirs_def demo_api_port)
  from discovered_port_overrides_settings [OF d this] d show ?thesis by (simp add: demo_api_port)
qed

end
