(* ===== verification/Replay_Exchange.thy ===== *)
theory Replay_Exchange
  imports Archive Replay_Proxy
begin

text \<open>
  Replaying a recorded conversation.  The interface \<open>replayer\<close> is what both proxies promise
  about a conversation of numbered requests: a request that has not been asked yet is answered
  with its own response.  Its clients are the connection loop of the proxies and any sequence of
  single requests.  It is interpreted for the cursor-following proxy (\<open>multi_matchResponse\<close>) and
  for the single-address one (\<open>server_matchResponse\<close>).
\<close>

section \<open>The interface\<close>

text \<open>Requests asked one after the other, each on a connection of its own.\<close>

fun ask_all :: "(bytes \<Rightarrow> 's \<Rightarrow> (bytes option \<times> 's) option) \<Rightarrow> bytes list \<Rightarrow> 's \<Rightarrow> (bytes option list \<times> 's) option" where
  "ask_all respond [] s = Some ([], s)"
| "ask_all respond (request # requests) s = do {
     (resp, s') \<leftarrow> respond request s;
     (resps, s'') \<leftarrow> ask_all respond requests s';
     Some (resp # resps, s'')
   }"

locale replayer =
  fixes respond :: "bytes \<Rightarrow> 's \<Rightarrow> (bytes option \<times> 's) option"
    and request :: "nat \<Rightarrow> bytes" and response :: "nat \<Rightarrow> bytes"
    and ready :: "nat set \<Rightarrow> 's \<Rightarrow> bool"
  assumes responds: "ready open s \<Longrightarrow> k \<in> open \<Longrightarrow>
      \<exists>s'. respond (request k) s = Some (Some (response k), s') \<and> ready (open - {k}) s'"
begin

lemma ask_all_responds:
  "ready open s \<Longrightarrow> distinct ks \<Longrightarrow> set ks \<subseteq> open \<Longrightarrow>
   \<exists>s'. ask_all respond (map request ks) s = Some (map (Some \<circ> response) ks, s') \<and> ready (open - set ks) s'"
proof (induction ks arbitrary: s "open")
  case (Cons k ks)
  obtain s' where s': "respond (request k) s = Some (Some (response k), s')" "ready (open - {k}) s'"
    using responds [of "open" s k] Cons.prems by auto
  have "set ks \<subseteq> open - {k}" "open - {k} - set ks = open - set (k # ks)" using Cons.prems by auto
  with Cons.IH [OF s'(2)] Cons.prems s'(1) show ?case by (auto simp: comp_def)
qed simp

text \<open>The loop over the requests of one connection that is kept open.\<close>

lemma serve_conn_responds:
  "ready open s \<Longrightarrow> distinct ks \<Longrightarrow> set ks \<subseteq> open \<Longrightarrow>
   list_all (\<lambda>k. request k \<noteq> [] \<and> isHTTPKeepAlive u (request k)) ks \<Longrightarrow>
   \<exists>s'. serve_conn u respond (map request ks) s = Some (map response ks, s') \<and> ready (open - set ks) s'"
proof (induction ks arbitrary: s "open")
  case (Cons k ks)
  obtain s' where s': "respond (request k) s = Some (Some (response k), s')" "ready (open - {k}) s'"
    using responds [of "open" s k] Cons.prems by auto
  have "set ks \<subseteq> open - {k}" "open - {k} - set ks = open - set (k # ks)" using Cons.prems by auto
  with Cons.IH [OF s'(2)] Cons.prems s'(1) show ?case by (auto simp: comp_def)
qed simp

end

section \<open>Conversations\<close>

text \<open>A recorded conversation: reads with different keys, each followed by its response.\<close>

definition conversation :: "(ioevent \<times> ioevent) list \<Rightarrow> ioevent list" where
  "conversation ps = concat (map (\<lambda>(rq, rs). [rq, rs]) ps)"

definition exchange_ok :: "unicode \<Rightarrow> bytes \<Rightarrow> ioevent \<times> ioevent \<Rightarrow> bool" where
  "exchange_ok u hf = (\<lambda>(rq, rs).
     IsWrite rq = 0 \<and> requestKey u (payload_of rq) \<noteq> [] \<and>
     (case httpHost u (payload_of rq) of None \<Rightarrow> False | Some host \<Rightarrow> \<not> host_refused u host hf) \<and>
     IsWrite rs = 1 \<and> 0 < PayloadLen rs)"

definition replayable :: "unicode \<Rightarrow> bytes \<Rightarrow> (ioevent \<times> ioevent) list \<Rightarrow> bool" where
  "replayable u hf ps =
     (list_all (exchange_ok u hf) ps \<and> events_safe u (conversation ps) \<and>
      distinct (map (\<lambda>(rq, rs). requestKey u (payload_of rq)) ps))"

abbreviation (input) request_of :: "(ioevent \<times> ioevent) list \<Rightarrow> nat \<Rightarrow> bytes" where
  "request_of ps k \<equiv> payload_of (fst (ps ! k))"

abbreviation (input) response_of :: "(ioevent \<times> ioevent) list \<Rightarrow> nat \<Rightarrow> bytes" where
  "response_of ps k \<equiv> payload_of (snd (ps ! k))"

lemma length_conversation [simp]: "length (conversation ps) = 2 * length ps"
  by (induction ps) (auto simp: conversation_def)

lemma conversation_nth:
  "k < length ps \<Longrightarrow> conversation ps ! (2 * k) = fst (ps ! k) \<and> conversation ps ! Suc (2 * k) = snd (ps ! k)"
proof (induction ps arbitrary: k)
  case (Cons p ps)
  then show ?case by (cases p; cases k) (auto simp: conversation_def)
qed simp

lemma replayableD:
  assumes "replayable u hf ps" "k < length ps"
  shows "IsWrite (fst (ps ! k)) = 0" "requestKey u (request_of ps k) \<noteq> []"
    "\<exists>host. httpHost u (request_of ps k) = Some host \<and> \<not> host_refused u host hf"
    "IsWrite (snd (ps ! k)) = 1" "0 < PayloadLen (snd (ps ! k))"
    "payload_slice (fst (ps ! k)) = Some (request_of ps k)"
proof -
  have "exchange_ok u hf (ps ! k)" using assms by (simp add: replayable_def list_all_length)
  then show "IsWrite (fst (ps ! k)) = 0" "requestKey u (request_of ps k) \<noteq> []"
    "\<exists>host. httpHost u (request_of ps k) = Some host \<and> \<not> host_refused u host hf"
    "IsWrite (snd (ps ! k)) = 1" "0 < PayloadLen (snd (ps ! k))"
    by (auto simp: exchange_ok_def case_prod_beta split: option.splits)
  have "2 * k < length (conversation ps)" using assms(2) by simp
  then have "wf_event (conversation ps ! (2 * k)) \<and> pl_ok (conversation ps ! (2 * k))"
    using assms(1) by (auto simp: replayable_def events_safe_def list_all_length)
  then show "payload_slice (fst (ps ! k)) = Some (request_of ps k)"
    using conversation_nth [OF assms(2)] by (simp add: payload_slice_Some)
qed

lemma same_key_same_request:
  assumes "replayable u hf ps" "i < length ps" "k < length ps"
    and "requestKey u (request_of ps i) = requestKey u (request_of ps k)"
  shows "i = k"
proof -
  let ?keys = "map (\<lambda>(rq, rs). requestKey u (payload_of rq)) ps"
  have "distinct ?keys" using assms(1) by (simp add: replayable_def)
  moreover have "?keys ! i = ?keys ! k" using assms(2-4) by (simp add: case_prod_beta)
  ultimately show ?thesis using nth_eq_iff_index_eq [of ?keys i k] assms(2,3) by simp
qed

text \<open>What the search loops find for the \<open>k\<close>-th request.\<close>

lemma served_pair_conversation:
  assumes r: "replayable u hf ps" and k: "k < length ps"
    and host: "httpHost u (request_of ps k) = Some host"
    and used: "used \<subseteq> {int (Suc (2 * i)) | i. i \<noteq> k}"
  shows "served_pair u (requestKey u (request_of ps k)) host used (conversation ps) 0 (2 * k) (Suc (2 * k))"
proof -
  note at = conversation_nth [OF k] and k' = replayableD [OF r k]
  have odd: "int (2 * k) \<notin> used" "int (Suc (2 * k)) \<notin> used"
  proof -
    show "int (2 * k) \<notin> used"
    proof
      assume "int (2 * k) \<in> used"
      then obtain i where "int (2 * k) = int (Suc (2 * i))" using used by blast
      then show False by presburger
    qed
    show "int (Suc (2 * k)) \<notin> used" using used by auto
  qed
  have cand: "candidate u (requestKey u (request_of ps k)) host used (conversation ps) (2 * k)"
    using k at k' odd host by (auto simp: candidate_def request_matches_def)
  have first: "\<not> candidate u (requestKey u (request_of ps k)) host used (conversation ps) i" if "i < 2 * k" for i
  proof
    assume c: "candidate u (requestKey u (request_of ps k)) host used (conversation ps) i"
    define i2 where "i2 = i div 2"
    have i2: "i2 < length ps" "i2 \<noteq> k" "i = 2 * i2 \<or> i = Suc (2 * i2)"
      using that k unfolding i2_def by presburger+
    from i2(3) show False
    proof
      assume "i = 2 * i2"
      then have "requestKey u (request_of ps i2) = requestKey u (request_of ps k)"
        using c conversation_nth [OF i2(1)] replayableD(6) [OF r i2(1)]
        by (auto simp: candidate_def request_matches_def split: if_splits)
      then show False using same_key_same_request [OF r i2(1) k] i2(2) by simp
    next
      assume "i = Suc (2 * i2)"
      then show False
        using c conversation_nth [OF i2(1)] replayableD(4) [OF r i2(1)] by (simp add: candidate_def)
    qed
  qed
  have "reply_at used (conversation ps) (Suc (2 * k))"
    using k at k' odd by (simp add: reply_at_def servable_def)
  then show ?thesis using cand first by (auto simp: served_pair_def)
qed

lemma match_from_conversation:
  assumes r: "replayable u hf ps" and k: "k < length ps"
    and host: "httpHost u (request_of ps k) = Some host"
    and used: "used \<subseteq> {int (Suc (2 * i)) | i. i \<noteq> k}"
  shows "match_from u (requestKey u (request_of ps k)) host used 0 (conversation ps) =
     Some (Some (Suc (2 * k), response_of ps k))"
proof -
  have safe: "events_safe u (conversation ps)" using r by (simp add: replayable_def)
  note pair = served_pair_conversation [OF assms]
  obtain res where res: "match_from u (requestKey u (request_of ps k)) host used 0 (drop 0 (conversation ps)) = Some res"
    and spec: "case res of
       None \<Rightarrow> \<forall>i j. 0 \<le> i \<and> candidate u (requestKey u (request_of ps k)) host used (conversation ps) i \<and> i < j \<longrightarrow>
         \<not> reply_at used (conversation ps) j
     | Some (j, out) \<Rightarrow> (\<exists>i. served_pair u (requestKey u (request_of ps k)) host used (conversation ps) 0 i j) \<and>
         out = payload_of (conversation ps ! j)"
    using match_from_spec [OF safe] by blast
  show ?thesis
  proof (cases res)
    case None
    then show ?thesis using spec pair by (auto simp: served_pair_def)
  next
    case (Some jo)
    then obtain i j where jo: "jo = (j, payload_of (conversation ps ! j))"
      and "served_pair u (requestKey u (request_of ps k)) host used (conversation ps) 0 i j"
      using spec by (cases jo) auto
    then have "j = Suc (2 * k)" using served_pair_unique [OF pair] by blast
    then show ?thesis using res Some jo conversation_nth [OF k] by simp
  qed
qed

section \<open>The two proxies\<close>

definition multi_ready :: "unicode \<Rightarrow> bytes \<Rightarrow> (ioevent \<times> ioevent) list \<Rightarrow> nat set \<Rightarrow> multi \<Rightarrow> bool" where
  "multi_ready u hf ps open m =
     (replayable u hf ps \<and> open \<subseteq> {..<length ps} \<and> mu_events m = conversation ps \<and> mu_cursor m = 0 \<and>
      mu_consumed m \<subseteq> {int (Suc (2 * i)) | i. i \<notin> open})"

definition server_ready :: "unicode \<Rightarrow> (ioevent \<times> ioevent) list \<Rightarrow> nat set \<Rightarrow> server \<Rightarrow> bool" where
  "server_ready u ps open s = (replayable u [] ps \<and> open \<subseteq> {..<length ps} \<and> srv_events s = conversation ps)"

interpretation multi_replay: replayer "multi_matchResponse u hf None" "request_of ps" "response_of ps" "multi_ready u hf ps"
  for u hf ps
proof unfold_locales
  fix "open" m k
  assume m: "multi_ready u hf ps open m" and k: "k \<in> open"
  then have r: "replayable u hf ps" and kl: "k < length ps" by (auto simp: multi_ready_def)
  obtain host where host: "httpHost u (request_of ps k) = Some host" "\<not> host_refused u host hf"
    using replayableD(3) [OF r kl] by blast
  have "mu_consumed m \<subseteq> {int (Suc (2 * i)) | i. i \<noteq> k}" using m k by (auto simp: multi_ready_def)
  from match_from_conversation [OF r kl host(1) this] host m replayableD(2) [OF r kl]
  have "multi_matchResponse u hf None (request_of ps k) m =
      Some (Some (response_of ps k), m\<lparr>mu_consumed := insert (int (Suc (2 * k))) (mu_consumed m)\<rparr>)"
    by (simp add: multi_matchResponse_def multi_ready_def)
  moreover have "multi_ready u hf ps (open - {k}) (m\<lparr>mu_consumed := insert (int (Suc (2 * k))) (mu_consumed m)\<rparr>)"
    using m by (auto simp: multi_ready_def)
  ultimately show "\<exists>s'. multi_matchResponse u hf None (request_of ps k) m = Some (Some (response_of ps k), s') \<and>
      multi_ready u hf ps (open - {k}) s'" by blast
qed

interpretation server_replay: replayer "server_matchResponse u" "request_of ps" "response_of ps" "server_ready u ps"
  for u ps
proof unfold_locales
  fix "open" s k
  assume s: "server_ready u ps open s" and k: "k \<in> open"
  then have r: "replayable u [] ps" and kl: "k < length ps" by (auto simp: server_ready_def)
  obtain host where host: "httpHost u (request_of ps k) = Some host" using replayableD(3) [OF r kl] by blast
  from match_from_conversation [OF r kl host, of "{}"] host s replayableD(2) [OF r kl]
  show "\<exists>s'. server_matchResponse u (request_of ps k) s = Some (Some (response_of ps k), s') \<and>
      server_ready u ps (open - {k}) s'"
    by (auto simp: server_matchResponse_def server_ready_def)
qed

lemma multi_ready_New:
  "replayable u hf ps \<Longrightarrow> multi_ready u hf ps {..<length ps} (NewMulti addr svcs (conversation ps))"
  by (simp add: multi_ready_def NewMulti_def)

lemma server_ready_New:
  "replayable u [] ps \<Longrightarrow> server_ready u ps {..<length ps} (proxy_New addr (conversation ps))"
  by (simp add: server_ready_def proxy_New_def)

lemma replayable_wf: "replayable u hf ps \<Longrightarrow> list_all wf_event (conversation ps)"
  by (auto simp: replayable_def events_safe_def list_all_iff)

lemma keep_alive_nonempty: "isHTTPKeepAlive u request \<Longrightarrow> request \<noteq> []"
  by (auto simp: isHTTPKeepAlive_def to_lower_def map_runes_def contains_def)

text \<open>A conversation with one request, which asks to keep the connection.\<close>

definition demo_request :: bytes where
  "demo_request = ''GET / connection: keep-alive''"

definition demo_pairs :: "(ioevent \<times> ioevent) list" where
  "demo_pairs = [(small_event 0 demo_request, small_event 1 ''OK'')]"

lemma demo_request_facts:
  "httpHost u demo_request = Some []" "requestKey u demo_request = ''GET /''"
  "isHTTPKeepAlive u demo_request" "length demo_request \<le> 2048"
proof -
  have ascii: "ascii demo_request" "ascii ''GET''" by (simp_all add: demo_request_def byte_of_def)
  have low: "to_lower u demo_request = ''get / connection: keep-alive''"
    unfolding to_lower_ascii [OF ascii(1)]
    by (simp add: demo_request_def lower_char_def ascii_lower_def byte_of_def)
  show "httpHost u demo_request = Some []" unfolding httpHost_def low by simp
  show "isHTTPKeepAlive u demo_request" unfolding isHTTPKeepAlive_def low contains_def by simp
  show "length demo_request \<le> 2048" by (simp add: demo_request_def)
  have line: "firstLine demo_request = demo_request"
    by (simp add: firstLine_def demo_request_def trim_space_plain plain_char_def)
  have "Go_Strings.fields demo_request = [''GET'', ''/'', ''connection:'', ''keep-alive'']"
    using fields_join_plain [of "[''GET'', ''/'', ''connection:'', ''keep-alive'']"]
    by (simp add: demo_request_def plain_char_def)
  moreover have "to_upper u ''GET'' = ''GET''"
    unfolding to_upper_ascii [OF ascii(2)] by (simp add: upper_char_def ascii_upper_def byte_of_def)
  moreover have "demo_request \<noteq> []" by (simp add: demo_request_def)
  ultimately show "requestKey u demo_request = ''GET /''"
    by (simp add: requestKey_def grpcRequestKey_def MatchGRPCUnary_def httpRequestKey_def line Let_def)
qed

lemmas demo_request_event = small_event_facts(1-4) [OF demo_request_facts(4), of 0]

lemma demo_pairs_replayable: "replayable u [] demo_pairs"
proof -
  have "httpHost u ''OK'' \<noteq> None" using httpHost_ascii [of "''OK''" u] by (simp add: byte_of_def)
  then have "events_safe u (conversation demo_pairs)"
    by (simp add: conversation_def demo_pairs_def events_safe_def demo_request_event
        small_event_facts(1-4) demo_request_facts)
  moreover have "0 < PayloadLen (small_event 1 ''OK'')" by (simp add: small_event_def)
  ultimately show ?thesis
    by (simp add: replayable_def exchange_ok_def demo_pairs_def demo_request_event
        small_event_facts(1-4) demo_request_facts host_refused_def)
qed

section \<open>Properties\<close>



end
