(* ===== verification/Flags.thy ===== *)
theory Flags
  imports Go_Strings
begin

text \<open>
  What the commands use of Go's \<^verbatim>\<open>flag\<close> package: the parsing of an argument list into flags and
  the arguments that are left, with \<^verbatim>\<open>flag.ExitOnError\<close> (an error ends the program).  A flag set
  is an association list from names to values; the constructor of a value is the flag's kind.
\<close>

section \<open>Numbers and truth values\<close>

text \<open>\<^verbatim>\<open>strconv.ParseInt(s, 0, 64)\<close>: the base is taken from the prefix, and underscores may
  separate digits.\<close>

definition lower_letter :: "char \<Rightarrow> nat" where
  "lower_letter c = or (of_char c) 32"

definition digit_of :: "char \<Rightarrow> nat option" where
  "digit_of c =
     (if is_digit c then Some (digit_val c)
      else if 97 \<le> lower_letter c \<and> lower_letter c \<le> 122 then Some (lower_letter c - 87) else None)"

fun digits_in :: "nat \<Rightarrow> bytes \<Rightarrow> nat \<Rightarrow> nat option" where
  "digits_in base [] n = Some n"
| "digits_in base (c # cs) n =
     (if c = CHR ''_'' then digits_in base cs n
      else case digit_of c of
          None \<Rightarrow> None
        | Some d \<Rightarrow> if base \<le> d then None else digits_in base cs (n * base + d))"

definition base_prefix :: "bytes \<Rightarrow> nat \<times> bytes" where
  "base_prefix s =
     (if s \<noteq> [] \<and> hd s = CHR ''0'' then
        (if 3 \<le> length s \<and> lower_letter (s ! 1) = 98 then (2, drop 2 s)
         else if 3 \<le> length s \<and> lower_letter (s ! 1) = 111 then (8, drop 2 s)
         else if 3 \<le> length s \<and> lower_letter (s ! 1) = 120 then (16, drop 2 s)
         else (8, drop 1 s))
      else (10, s))"

text \<open>An underscore must stand between digits; a base prefix counts as a digit.\<close>

fun underscores_ok :: "bool \<Rightarrow> bytes \<Rightarrow> bool" where
  "underscores_ok after_digit [] = True"
| "underscores_ok after_digit (c # cs) =
     (if c = CHR ''_'' then after_digit \<and> cs \<noteq> [] \<and> hd cs \<noteq> CHR ''_'' \<and> underscores_ok False cs
      else underscores_ok True cs)"

definition parse_int0 :: "bytes \<Rightarrow> int option" where
  "parse_int0 s =
     (case signed_split s of (sg, ds) \<Rightarrow>
        if ds = [] then None
        else (case base_prefix ds of (base, digits) \<Rightarrow>
          (case digits_in base digits 0 of
             None \<Rightarrow> None
           | Some n \<Rightarrow>
               if underscores_ok (base \<noteq> 10) digits \<and> int64_range (sg * int n) then Some (sg * int n)
               else None)))"

definition parse_bool :: "bytes \<Rightarrow> bool option" where
  "parse_bool s =
     (if s \<in> {''1'', ''t'', ''T'', ''true'', ''TRUE'', ''True''} then Some True
      else if s \<in> {''0'', ''f'', ''F'', ''false'', ''FALSE'', ''False''} then Some False else None)"

section \<open>Parsing\<close>

datatype flag_value = BoolFlag bool | StrFlag bytes | IntFlag int
type_synonym flags = "(bytes \<times> flag_value) list"

datatype flag_error =
  BadSyntax bytes | Undefined bytes | HelpAsked | NeedsArgument bytes | BadValue bytes bytes

definition update_flag :: "bytes \<Rightarrow> flag_value \<Rightarrow> flags \<Rightarrow> flags" where
  "update_flag name v = map (\<lambda>(n, w). if n = name then (n, v) else (n, w))"

text \<open>The flag's \<^verbatim>\<open>Set\<close>.\<close>

fun set_value :: "flag_value \<Rightarrow> bytes \<Rightarrow> flag_value option" where
  "set_value (BoolFlag b) s = map_option BoolFlag (parse_bool s)"
| "set_value (StrFlag t) s = Some (StrFlag s)"
| "set_value (IntFlag i) s = map_option IntFlag (parse_int0 s)"

fun is_bool_flag :: "flag_value \<Rightarrow> bool" where
  "is_bool_flag (BoolFlag b) = True"
| "is_bool_flag _ = False"

definition flag_name :: "bytes \<Rightarrow> bytes" where
  "flag_name s = (if s ! 1 = CHR ''-'' then drop 2 s else drop 1 s)"

fun parse_flags :: "flags \<Rightarrow> bytes list \<Rightarrow> flag_error + flags \<times> bytes list" where
  "parse_flags fs [] = Inr (fs, [])"
| "parse_flags fs (s # args) =
     (if length s < 2 \<or> hd s \<noteq> CHR ''-'' then Inr (fs, s # args)
      else if s = ''--'' then Inr (fs, args)
      else if flag_name s = [] \<or> hd (flag_name s) = CHR ''-'' \<or> hd (flag_name s) = CHR ''='' then Inl (BadSyntax s)
      else (case cut (flag_name s) ''='' of (name, given, hasValue) \<Rightarrow>
        (case map_of fs name of
           None \<Rightarrow> Inl (if name = ''help'' \<or> name = ''h'' then HelpAsked else Undefined name)
         | Some old \<Rightarrow>
             if hasValue \<or> is_bool_flag old then
               (case set_value old (if hasValue then given else ''true'') of
                  None \<Rightarrow> Inl (BadValue name given)
                | Some v \<Rightarrow> parse_flags (update_flag name v fs) args)
             else (case args of
                 [] \<Rightarrow> Inl (NeedsArgument name)
               | given' # args' \<Rightarrow>
                   (case set_value old given' of
                      None \<Rightarrow> Inl (BadValue name given')
                    | Some v \<Rightarrow> parse_flags (update_flag name v fs) args')))))"

definition flag_str :: "flags \<Rightarrow> bytes \<Rightarrow> bytes" where
  "flag_str fs name = (case map_of fs name of Some (StrFlag s) \<Rightarrow> s | _ \<Rightarrow> [])"

definition flag_bool :: "flags \<Rightarrow> bytes \<Rightarrow> bool" where
  "flag_bool fs name = (case map_of fs name of Some (BoolFlag b) \<Rightarrow> b | _ \<Rightarrow> False)"

definition flag_int :: "flags \<Rightarrow> bytes \<Rightarrow> int" where
  "flag_int fs name = (case map_of fs name of Some (IntFlag i) \<Rightarrow> i | _ \<Rightarrow> 0)"

section \<open>Lemmas\<close>

definition proper_name :: "bytes \<Rightarrow> bool" where
  "proper_name name = (name \<noteq> [] \<and> hd name \<noteq> CHR ''-'' \<and> CHR ''='' \<notin> set name)"

lemma map_of_update_flag:
  "map_of (update_flag name v fs) n = (if n = name then map_option (\<lambda>_. v) (map_of fs n) else map_of fs n)"
  by (induction fs) (auto simp: update_flag_def)

lemma cut_no_sep: "c \<notin> set s \<Longrightarrow> cut s [c] = (s, [], False)"
proof -
  assume c: "c \<notin> set s"
  have "\<not> prefix [c] (drop j s)" for j
  proof
    assume "prefix [c] (drop j s)"
    then have "c \<in> set (drop j s)" by (auto simp: prefix_def)
    then show False using c by (auto dest: in_set_dropD)
  qed
  then have "index_of s [c] = None" by (simp add: index_of_None_iff)
  then show ?thesis by (simp add: cut_def)
qed

text \<open>A string flag takes the next argument, whatever it is.\<close>

lemma parse_string_flag:
  assumes "proper_name name" "map_of fs name = Some (StrFlag old)"
  shows "parse_flags fs ((''--'' @ name) # v # args) = parse_flags (update_flag name (StrFlag v) fs) args"
  using assms
  by (cases name) (auto simp: proper_name_def flag_name_def cut_no_sep simp del: update_flag_def)

lemma parse_bool_flag:
  assumes "proper_name name" "map_of fs name = Some (BoolFlag old)"
  shows "parse_flags fs ((''--'' @ name) # args) = parse_flags (update_flag name (BoolFlag True) fs) args"
  using assms
  by (cases name) (auto simp: proper_name_def flag_name_def cut_no_sep parse_bool_def)

lemma parse_flags_stop: "parse_flags fs (''--'' # args) = Inr (fs, args)"
  by simp

text \<open>Parsing never invents or reorders the arguments that are left.\<close>

lemma map_fst_update_flag: "map fst (update_flag name v fs) = map fst fs"
  by (induction fs) (auto simp: update_flag_def)

lemma parse_flags_suffix: "parse_flags fs args = Inr (fs', rest) \<Longrightarrow> suffix rest args \<and> map fst fs' = map fst fs"
proof (induction args arbitrary: fs rule: length_induct)
  case (1 args)
  show ?case
  proof (cases args)
    case (Cons s as)
    show ?thesis
    proof (cases "length s < 2 \<or> hd s \<noteq> CHR ''-'' \<or> s = ''--''")
      case True
      with "1.prems" Cons show ?thesis by (auto simp: suffix_Cons)
    next
      case False
      obtain name given hasValue where c: "cut (flag_name s) ''='' = (name, given, hasValue)" by (metis prod_cases3)
      have "\<exists>v bs. suffix bs as \<and> parse_flags (update_flag name v fs) bs = Inr (fs', rest)"
        using "1.prems" False unfolding Cons
        by (auto simp: c suffix_Cons split: if_splits option.splits list.splits)
      then obtain v bs where v: "suffix bs as" "parse_flags (update_flag name v fs) bs = Inr (fs', rest)" by blast
      then have "length bs < length args" using suffix_length_le [OF v(1)] Cons by simp
      with "1.IH" v(2) have "suffix rest bs \<and> map fst fs' = map fst (update_flag name v fs)" by blast
      with v(1) Cons show ?thesis by (auto simp: map_fst_update_flag suffix_Cons intro: suffix_order.trans)
    qed
  qed (use "1.prems" in simp)
qed

end
