(* ===== verification/BugIT_Command.thy ===== *)
theory BugIT_Command
  imports Flags Local_Capture Discovery
begin

text \<open>
  The command \<^verbatim>\<open>bugit\<close> (bugit-cli/cmd/bugit/main.go) and the capture of a command
  (\<^verbatim>\<open>RunCapture\<close>, \<^verbatim>\<open>RunCaptureAuto\<close> and \<^verbatim>\<open>PublicURL\<close> of localcapture/daemon.go).  A command yields
  the lines it prints and the error it stops with; programs it starts, the network and the end
  of the captured command are inputs.  The outer option is a search of the parent directories
  that does not end, or a panic.
\<close>

section \<open>Capturing a command\<close>

definition PublicURL :: "'e proj_env \<Rightarrow> bytes \<Rightarrow> bytes option" where
  "PublicURL env workspace = do {
     target \<leftarrow> ResolveCaptureTarget env workspace;
     Some (''http://127.0.0.1:'' @ itoa_int (ct_public_port target))
   }"

text \<open>The environment of the captured command; of two settings of a name the later one counts.\<close>

definition child_env :: "bytes list \<Rightarrow> int \<Rightarrow> runtime \<Rightarrow> int \<Rightarrow> bytes list option" where
  "child_env environ internalPort rt inspectPort = do {
     adjustments \<leftarrow> EnvAdjustments rt inspectPort;
     Some (CleanEnv environ
       @ [''PORT='' @ itoa_int internalPort, ''BUGIT_RECORD_PROXY=http://127.0.0.1:28082'',
          ''HTTP_PROXY=http://127.0.0.1:28082'', ''HTTPS_PROXY=http://127.0.0.1:28082'']
       @ adjustments)
   }"

text \<open>What \<^verbatim>\<open>RunCapture\<close> meets: \<open>rc_session\<close> is what the recorders do to the daemon while the
  command runs.\<close>

record 'e capture_run =
  rc_start :: "'e start_env"
  rc_environ :: "bytes list"
  rc_http :: http_layer
  rc_clock1 :: "instant \<times> instant"
  rc_clock2 :: "instant \<times> instant"
  rc_starts :: bool
  rc_session :: "bytes list \<Rightarrow> daemon \<Rightarrow> daemon"
  rc_end :: capture_end

record capture_options =
  co_root :: bytes
  co_command :: "bytes list"
  co_save :: bool
  co_detail :: bytes

datatype 'e capture_error =
  NoCommand | DaemonFailed "'e start_failure" | CommandNotStarted | CommandExited
| AlreadyListening int | InternalPortInUse int

definition RunCapture :: "'e capture_run \<Rightarrow> capture_options \<Rightarrow> (bytes \<times> 'e capture_error option) option" where
  "RunCapture r opts =
     (if length (co_command opts) = 0 then Some ([], Some NoCommand)
      else do {
        let workspace = path_abs (st_proj (rc_start r)) (co_root opts);
        captureRoot \<leftarrow> FindCaptureRoot (st_proj (rc_start r)) workspace;
        (addrs, cfg, started) \<leftarrow> StartDaemon (rc_start r) workspace False;
        case started of
          Inl failure \<Rightarrow> Some ([], Some (DaemonFailed failure))
        | Inr d \<Rightarrow> do {
            env \<leftarrow> child_env (rc_environ r) (InternalPort (cf_app_port cfg))
                     (Detect (st_proj (rc_start r)) captureRoot) (cf_inspect_port cfg);
            if \<not> rc_starts r then Some ([], Some CommandNotStarted)
            else do {
              ((path, failed), d') \<leftarrow> RunCapture_end (rc_http r) (rc_clock1 r) (rc_clock2 r) (rc_end r)
                  (co_save opts) (co_detail opts) (rc_session r env d);
              Some (path, if failed then Some CommandExited else None)
            }
          }
      })"

text \<open>\<^verbatim>\<open>RunCaptureAuto\<close> refuses when one of the two ports it needs is taken.\<close>

definition auto_target :: "'e proj_env \<Rightarrow> net_env \<Rightarrow> bytes \<Rightarrow> ('x capture_error + bytes list) option" where
  "auto_target env net workspace = do {
     target \<leftarrow> ResolveCaptureTarget env workspace;
     Some (if IsListening net (ct_public_port target) then Inl (AlreadyListening (ct_public_port target))
           else let internalPort = InternalPort (ct_public_port target) in
             if IsListening net internalPort then Inl (InternalPortInUse internalPort)
             else Inr (ct_dev_command target))
   }"

definition RunCaptureAuto ::
  "'e capture_run \<Rightarrow> net_env \<Rightarrow> bytes \<Rightarrow> bool \<Rightarrow> bytes \<Rightarrow> (bytes \<times> 'e capture_error option) option" where
  "RunCaptureAuto r net workspace saveOnExit detail = do {
     t \<leftarrow> auto_target (st_proj (rc_start r)) net workspace;
     case t of
       Inl err \<Rightarrow> Some ([], Some err)
     | Inr cmd \<Rightarrow> RunCapture r \<lparr>co_root = workspace, co_command = cmd, co_save = saveOnExit, co_detail = detail\<rparr>
   }"

section \<open>Results of a command\<close>

datatype 'e cli_error =
  FlagError flag_error | CaptureUsage | ClusterMode | UnknownMode bytes | SyncError 'e
| CaptureError "'e capture_error" | NoSnapshot "'e lookup_error" | ListError 'e | SnapshotsUsage
| ChildFailed | AttachError | TriggerError

type_synonym 'e cli = "bytes list \<times> 'e cli_error option"

definition saved_lines :: "bytes \<Rightarrow> bytes list" where
  "saved_lines path = (if path \<noteq> [] then [''Snapshot saved: '' @ path] else [])"

text \<open>An error is fatal only when nothing was saved; otherwise it is a remark.\<close>

definition finish :: "bytes list \<Rightarrow> ('x \<Rightarrow> 'e cli_error) \<Rightarrow> bytes \<times> 'x option \<Rightarrow> 'e cli" where
  "finish lines wrap = (\<lambda>(path, err).
     (lines @ saved_lines path, if path = [] then map_option wrap err else None))"

section \<open>\<^verbatim>\<open>capture\<close> and \<^verbatim>\<open>record\<close>\<close>

definition capture_flags :: flags where
  "capture_flags =
     [(''save-on-exit'', BoolFlag True), (''mode'', StrFlag ''local''), (''detail'', StrFlag ''manual capture''),
      (''root'', StrFlag ''.''), (''auto'', BoolFlag False)]"

text \<open>The arguments of \<^verbatim>\<open>capture\<close>: the flags and the command to run.\<close>

definition capture_args :: "bytes list \<Rightarrow> 'e cli_error + flags \<times> bytes list" where
  "capture_args args =
     (case parse_flags capture_flags args of
        Inl err \<Rightarrow> Inl (FlagError err)
      | Inr (fs, rest0) \<Rightarrow>
          (let rest = (if flag_bool fs ''auto'' then []
                       else if 0 < length rest0 \<and> hd rest0 = ''--'' then drop 1 rest0 else rest0)
           in if \<not> flag_bool fs ''auto'' \<and> length rest = 0 then Inl CaptureUsage
              else if flag_str fs ''mode'' = ''cluster'' then Inl ClusterMode
              else if flag_str fs ''mode'' \<noteq> ''local'' then Inl (UnknownMode (flag_str fs ''mode''))
              else Inr (fs, rest)))"

definition with_proj :: "'e proj_env \<Rightarrow> 'e capture_run \<Rightarrow> 'e capture_run" where
  "with_proj env r = r\<lparr>rc_start := (rc_start r)\<lparr>st_proj := env\<rparr>\<rparr>"

definition runCapture :: "'e capture_run \<Rightarrow> net_env \<Rightarrow> bytes list \<Rightarrow> 'e cli option" where
  "runCapture r net args =
     (case capture_args args of
        Inl err \<Rightarrow> Some ([], Some err)
      | Inr (fs, rest) \<Rightarrow> do {
          let env = st_proj (rc_start r);
          let rootPath = path_abs env (flag_str fs ''root'');
          (ly, cfg, err, env1) \<leftarrow> SyncWorkspaceConfig rootPath env;
          case err of
            Some e \<Rightarrow> Some ([], Some (SyncError e))
          | None \<Rightarrow> do {
              target \<leftarrow> ResolveCaptureTarget env1 rootPath;
              url \<leftarrow> PublicURL env1 rootPath;
              let lines = [''BugIT capture in '' @ ct_root target, ''Use your app at '' @ url];
              res \<leftarrow> (if flag_bool fs ''auto''
                 then RunCaptureAuto (with_proj env1 r) net rootPath (flag_bool fs ''save-on-exit'') (flag_str fs ''detail'')
                 else RunCapture (with_proj env1 r) \<lparr>co_root = rootPath, co_command = rest,
                        co_save = flag_bool fs ''save-on-exit'', co_detail = flag_str fs ''detail''\<rparr>);
              Some (finish lines CaptureError res)
            }
        })"

definition record_flags :: flags where
  "record_flags =
     [(''save-on-exit'', BoolFlag True), (''detail'', StrFlag ''manual capture''), (''root'', StrFlag ''.'')]"

text \<open>\<open>attach\<close> is the end of \<^verbatim>\<open>RunAttachRecord\<close> on what was discovered: the path and whether there
  is an error.\<close>

definition runRecord ::
  "unicode \<Rightarrow> inspect_env \<Rightarrow> (discovered \<Rightarrow> bool \<Rightarrow> bytes \<Rightarrow> bytes \<times> bool) \<Rightarrow>
     'e capture_run \<Rightarrow> net_env \<Rightarrow> bytes list \<Rightarrow> 'e cli option" where
  "runRecord u insp attach r net args =
     (case parse_flags record_flags args of
        Inl err \<Rightarrow> Some ([], Some (FlagError err))
      | Inr (fs, rest) \<Rightarrow> do {
          let env = st_proj (rc_start r);
          let rootPath = path_abs env (flag_str fs ''root'');
          (ly, cfg, err, env1) \<leftarrow> SyncWorkspaceConfig rootPath env;
          case err of
            Some e \<Rightarrow> Some ([], Some (SyncError e))
          | None \<Rightarrow> do {
              disc \<leftarrow> Discover u insp net env1 rootPath;
              let port = itoa_int (di_backend disc);
              if IsListening net (di_backend disc) then
                (let (path, failed) = attach disc (flag_bool fs ''save-on-exit'') (flag_str fs ''detail'')
                 in Some (finish [''BugIT record (attach) '' @ [CHR 0xE2, CHR 0x80, CHR 0x94] @ '' backend listening on :'' @ port]
                      (\<lambda>_. AttachError) (path, if failed then Some () else None)))
              else do {
                url \<leftarrow> PublicURL env1 rootPath;
                res \<leftarrow> RunCaptureAuto (with_proj env1 r) net rootPath (flag_bool fs ''save-on-exit'') (flag_str fs ''detail'');
                Some (finish
                  [''No listener on :'' @ port @ '' '' @ [CHR 0xE2, CHR 0x80, CHR 0x94] @ '' spawn fallback (starting dev server)'',
                   ''Use your app at '' @ url] CaptureError res)
              }
            }
        })"

section \<open>\<^verbatim>\<open>replay\<close>, \<^verbatim>\<open>open\<close> and the snapshot commands\<close>

definition resolveReplayBin :: "(bytes \<Rightarrow> bytes) \<Rightarrow> bool \<Rightarrow> 'e proj_env \<Rightarrow> bytes" where
  "resolveReplayBin genv windows env =
     (if genv ''DRE_REPLAY_BIN'' \<noteq> [] then genv ''DRE_REPLAY_BIN''
      else if genv ''BUGIT_REPLAY_BIN'' \<noteq> [] then genv ''BUGIT_REPLAY_BIN''
      else let ext = (if windows then ''.exe'' else []);
               candidates = [path_join [''bin'', ''dre-replay'' @ ext], path_join [''.bugit'', ''bin'', ''dre-replay'' @ ext]]
           in case find (exists_file env) candidates of
                Some c \<Rightarrow> path_abs env c
              | None \<Rightarrow> ''dre-replay'' @ ext)"

definition replay_flags :: flags where
  "replay_flags = [(''root'', StrFlag ''.''), (''open-source-at'', IntFlag (-1)), (''dre'', StrFlag [])]"

text \<open>The snapshot to use: the one that is named, or the latest.\<close>

definition chosen_snapshot ::
  "'e proj_env \<Rightarrow> (bytes \<Rightarrow> 'e + dir_entry list) \<Rightarrow> bytes \<Rightarrow> bytes \<Rightarrow> ('e lookup_error + bytes) option" where
  "chosen_snapshot env readDir rootPath drePath =
     (if drePath = [] then LatestSnapshot env readDir rootPath else Some (Inr drePath))"

text \<open>The command line of the replay tool.\<close>

definition replay_argv :: "'e proj_env \<Rightarrow> layout \<Rightarrow> bytes \<Rightarrow> bytes list" where
  "replay_argv env ly snap =
     (let cfgPath = (if exists_file env (ly_replay_path ly) then ly_replay_path ly else []);
          key = (case LoadConfig env (ly_config_path ly) of
                   (cfg, None) \<Rightarrow> if cf_snapshot_key cfg \<noteq> [] then cf_snapshot_key cfg else cf_snapshot_key DefaultConfig
                 | (_, Some _) \<Rightarrow> cf_snapshot_key DefaultConfig)
      in [''run'', ''--dre'', snap, ''--key'', key] @ (if cfgPath \<noteq> [] then [''--config'', cfgPath] else []))"

text \<open>The result names the program that is run and its arguments, when one is.\<close>

definition runReplay ::
  "(bytes \<Rightarrow> bytes) \<Rightarrow> bool \<Rightarrow> (bytes \<Rightarrow> bytes list \<Rightarrow> bool) \<Rightarrow> 'e proj_env \<Rightarrow> (bytes \<Rightarrow> 'e + dir_entry list) \<Rightarrow>
     bytes list \<Rightarrow> ((bytes \<times> bytes list) option \<times> 'e cli) option" where
  "runReplay genv windows exec env readDir args =
     (case parse_flags replay_flags args of
        Inl err \<Rightarrow> Some (None, [], Some (FlagError err))
      | Inr (fs, rest) \<Rightarrow> do {
          let rootPath = path_abs env (flag_str fs ''root'');
          captureRoot \<leftarrow> FindCaptureRoot env rootPath;
          let ly = LayoutFor captureRoot;
          found \<leftarrow> chosen_snapshot env readDir rootPath (flag_str fs ''dre'');
          case found of
            Inl err \<Rightarrow> Some (None, [], Some (NoSnapshot err))
          | Inr snap \<Rightarrow>
              (let bin = resolveReplayBin genv windows env;
                   argv = replay_argv env ly snap;
                   lines = [''Replaying '' @ snap];
                   at = flag_int fs ''open-source-at''
               in Some (Some (bin, argv),
                    if \<not> exec bin argv then (lines, Some ChildFailed)
                    else (lines @ (if 0 \<le> at then [''Event '' @ itoa_int at @ '': use VS Code '' @ [CHR 0xE2, CHR 0x86, CHR 0x92]
                            @ '' DRE: Open Source at Current Event''] else []), None)))
        })"

definition open_flags :: flags where
  "open_flags = [(''root'', StrFlag ''.''), (''dre'', StrFlag [])]"

text \<open>\<open>code\<close> is the answer of \<^verbatim>\<open>openVSCode\<close>: the text of the error when there is one.\<close>

definition runOpen ::
  "(bytes \<Rightarrow> bytes) \<Rightarrow> bool \<Rightarrow> (bytes \<Rightarrow> bytes list \<Rightarrow> bool) \<Rightarrow> (bytes \<Rightarrow> bytes \<Rightarrow> bytes option) \<Rightarrow>
     'e proj_env \<Rightarrow> (bytes \<Rightarrow> 'e + dir_entry list) \<Rightarrow> bytes list \<Rightarrow> ((bytes \<times> bytes list) option \<times> 'e cli) option" where
  "runOpen genv windows exec code env readDir args =
     (case parse_flags open_flags args of
        Inl err \<Rightarrow> Some (None, [], Some (FlagError err))
      | Inr (fs, rest) \<Rightarrow> do {
          let rootPath = path_abs env (flag_str fs ''root'');
          found \<leftarrow> chosen_snapshot env readDir rootPath (flag_str fs ''dre'');
          case found of
            Inl err \<Rightarrow> Some (None, [], Some (NoSnapshot err))
          | Inr snap \<Rightarrow>
              (case code rootPath snap of
                 None \<Rightarrow> Some (None, [], None)
               | Some err \<Rightarrow> do {
                   (child, lines, stop) \<leftarrow> runReplay genv windows exec env readDir [''--dre'', snap, ''--root'', rootPath];
                   Some (child, (''VS Code not available ('' @ err @ ''). Run: bugit replay --dre '' @ snap) # lines, stop)
                 })
        })"

definition snapshot_flags :: flags where
  "snapshot_flags = [(''root'', StrFlag ''.''), (''detail'', StrFlag ''manual snapshot'')]"

text \<open>\<open>running\<close> is the collector that answers at the configured address, if one does.\<close>

definition runSnapshot :: "'e capture_run \<Rightarrow> collector option \<Rightarrow> bytes list \<Rightarrow> 'e cli option" where
  "runSnapshot r running args =
     (case parse_flags snapshot_flags args of
        Inl err \<Rightarrow> Some ([], Some (FlagError err))
      | Inr (fs, rest) \<Rightarrow> do {
          let env = st_proj (rc_start r);
          let rootPath = path_abs env (flag_str fs ''root'');
          sent \<leftarrow> (case running of
              None \<Rightarrow> Some None
            | Some c \<Rightarrow> do {
                (path, d) \<leftarrow> TriggerSnapshotHTTP env (rc_http r) (rc_clock1 r) rootPath (flag_str fs ''detail'') c;
                Some path
              });
          case sent of
            Some path \<Rightarrow> Some ([path], None)
          | None \<Rightarrow> do {
              captureRoot \<leftarrow> FindCaptureRoot env rootPath;
              (addrs, cfg, started) \<leftarrow> StartDaemon (rc_start r) captureRoot False;
              case started of
                Inl failure \<Rightarrow> Some ([], Some (CaptureError (DaemonFailed failure)))
              | Inr d \<Rightarrow> do {
                  (path, d') \<leftarrow> triggerSnapshot (rc_http r) (rc_clock2 r) (flag_str fs ''detail'') d;
                  Some (case path of None \<Rightarrow> ([], Some TriggerError) | Some p \<Rightarrow> ([p], None))
                }
            }
        })"

definition root_flag :: flags where
  "root_flag = [(''root'', StrFlag ''.'')]"

definition runSnapshots :: "'e proj_env \<Rightarrow> (bytes \<Rightarrow> 'e + dir_entry list) \<Rightarrow> bytes list \<Rightarrow> 'e cli option" where
  "runSnapshots env readDir args =
     (if 0 < length args \<and> hd args \<noteq> ''list'' then Some ([], Some SnapshotsUsage)
      else (case parse_flags root_flag (drop 1 args) of
          Inl err \<Rightarrow> Some ([], Some (FlagError err))
        | Inr (fs, rest) \<Rightarrow> do {
            snaps \<leftarrow> local_ListSnapshots env readDir (flag_str fs ''root'');
            Some (case snaps of Inl err \<Rightarrow> ([], Some (ListError err)) | Inr paths \<Rightarrow> (paths, None))
          }))"

definition runStatus :: "'e proj_env \<Rightarrow> bytes list \<Rightarrow> 'e cli option" where
  "runStatus env args =
     (case parse_flags root_flag args of
        Inl err \<Rightarrow> Some ([], Some (FlagError err))
      | Inr (fs, rest) \<Rightarrow> do {
          target \<leftarrow> ResolveCaptureTarget env (flag_str fs ''root'');
          url \<leftarrow> PublicURL env (flag_str fs ''root'');
          Some ([''capture_root='' @ ct_root target, ''dev_command='' @ DetectDevCommand env (ct_root target),
                 ''public_url='' @ url], None)
        })"

section \<open>\<^verbatim>\<open>doctor\<close>\<close>

definition atoi_value :: "bytes \<Rightarrow> int" where
  "atoi_value s =
     (case signed_split s of (sg, ds) \<Rightarrow>
        if ds \<noteq> [] \<and> list_all is_digit ds then max (- (2 ^ 63)) (min (2 ^ 63 - 1) (sg * int (dec_val ds))) else 0)"

definition nodeMajor :: "bytes \<Rightarrow> int" where
  "nodeMajor version0 =
     (let version = trim_prefix (trim_space version0) ''v''
      in case cut version ''.'' of (major, _, _) \<Rightarrow> atoi_value major)"

text \<open>What the doctor looks at besides files, ports and inspectors: the platform, the output of
  programs, the search path, and the command lines of processes; \<open>de_quote\<close> is \<^verbatim>\<open>%q\<close>.\<close>

record doctor_env =
  de_version :: bytes
  de_os :: bytes
  de_arch :: bytes
  de_output :: "bytes \<Rightarrow> bytes list \<Rightarrow> bytes option"
  de_lookup :: "bytes \<Rightarrow> bool"
  de_cmdline :: "int \<Rightarrow> bytes option"
  de_quote :: "bytes \<Rightarrow> bytes"
  de_genv :: "bytes \<Rightarrow> bytes"
  de_windows :: bool

abbreviation dash :: bytes where "dash \<equiv> [CHR 0xE2, CHR 0x80, CHR 0x94]"

definition runCmdOutput :: "doctor_env \<Rightarrow> bytes \<Rightarrow> bytes list \<Rightarrow> bytes" where
  "runCmdOutput de name args = (case de_output de name args of None \<Rightarrow> [] | Some out \<Rightarrow> trim_space out)"

definition backend_lines :: "net_env \<Rightarrow> discovered \<Rightarrow> bytes list" where
  "backend_lines net disc =
     (''Backend port: '' @ itoa_int (di_backend disc)) #
     (if IsListening net (di_backend disc)
      then (''OK backend listening on :'' @ itoa_int (di_backend disc)) #
           (if 0 < di_pid disc then [''Backend PID: '' @ itoa_int (di_pid disc)] else [])
      else [''WARN backend not listening on :'' @ itoa_int (di_backend disc)])"

definition node_lines :: "doctor_env \<Rightarrow> bytes list" where
  "node_lines de =
     (let nodeVer = runCmdOutput de ''node'' [''-v''] in
      if nodeVer = [] then [''WARN node not found '' @ dash @ '' attach capture requires Node >=18'']
      else [''Node: '' @ nodeVer,
            (if 18 \<le> nodeMajor nodeVer then ''OK inbound attach capture supported (diagnostics_channel)''
             else ''WARN Node >=18 required for inbound attach capture'')])"

definition looks_like_next :: "unicode \<Rightarrow> inspect_target \<Rightarrow> bool" where
  "looks_like_next u t =
     (let joined = to_lower u (it_title t @ '' '' @ it_url t)
      in contains joined ''next.js'' \<or> contains joined ''next dev'')"

definition inspector_lines :: "unicode \<Rightarrow> inspect_env \<Rightarrow> discovered \<Rightarrow> bytes list" where
  "inspector_lines u insp disc =
     (let inspectPort = (if di_inspect disc \<le> 0 then 9229 else di_inspect disc);
          port = itoa_int inspectPort
      in if InspectAvailable insp inspectPort then
           (''OK Node inspector on :'' @ port) #
           (if inspectPort = 9229
            then concat (map (\<lambda>(p, ts). if list_ex (looks_like_next u) ts
                   then [''WARN :9229 inspector target looks like Next.js '' @ dash @ '' backend should use :9230+ after BugIT dev-script patch'']
                   else []) (ListAllInspectTargets insp))
            else [])
         else [''WARN Node inspector not on :'' @ port @ '' '' @ dash @ '' BugIT will enable it on the backend during Record''])"

definition hook_lines :: "doctor_env \<Rightarrow> 'e proj_env \<Rightarrow> bytes \<Rightarrow> discovered \<Rightarrow> bytes list" where
  "hook_lines de env rootPath disc =
     [(if IsDevScriptPatched env rootPath then ''OK backend dev script patched for BugIT inspect bootstrap''
       else ''WARN backend dev script not patched '' @ dash @ '' Record once to auto-configure, then restart backend''),
      (if IsPreloadConfigured env rootPath then ''OK BugIT preload hook present (.bugit/preload.cjs)''
       else ''WARN preload hook missing '' @ dash @ '' Record once to generate it'')] @
     (if 0 < di_pid disc \<and> ProcessHasBugITPreload (de_cmdline de) (di_pid disc)
      then [''OK backend process loaded BugIT preload (direct HTTP ingest)'']
      else if IsDevScriptPatched env rootPath then [''Restart backend: '' @ RecommendedRestartCommand env rootPath]
      else [])"

definition target_line :: "doctor_env \<Rightarrow> unicode \<Rightarrow> pick_options \<Rightarrow> int \<Rightarrow> inspect_target \<Rightarrow> bytes" where
  "target_line de u opts port t =
     ''  :'' @ itoa_int port @ '' score='' @ itoa_int (ScoreTarget u t opts) @ '' title='' @ de_quote de (it_title t)
       @ '' url='' @ de_quote de (it_url t)"

definition target_lines :: "doctor_env \<Rightarrow> unicode \<Rightarrow> inspect_env \<Rightarrow> discovered \<Rightarrow> bytes list" where
  "target_lines de u insp disc =
     (let opts = \<lparr>po_port = di_backend disc, po_pid = di_pid disc, po_root = di_capture_root disc\<rparr>;
          groups = ListAllInspectTargets insp
      in [''Inspector targets (9229-9239):'']
         @ concat (map (\<lambda>(port, ts). map (target_line de u opts port) ts) groups)
         @ (if groups = [] then [''  (none '' @ dash @ '' start backend/frontend, then run doctor again)''] else [])
         @ [(case ResolveBackendInspector u insp opts of
               Inl best \<Rightarrow> ''WARN backend inspector target: no backend inspector target found (best score ''
                 @ itoa_int best @ '', need '' @ itoa_int MinBackendTargetScore @ '') '' @ dash @ '' ensure backend is Node >=18''
             | Inr b \<Rightarrow> ''OK backend inspector target on :'' @ itoa_int (bi_port b) @ '' score='' @ itoa_int (bi_score b)
                 @ '' '' @ bi_title b @ '' ('' @ bi_url b @ '')'')])"

definition replay_line :: "doctor_env \<Rightarrow> 'e proj_env \<Rightarrow> bytes" where
  "replay_line de env =
     (let bin = resolveReplayBin (de_genv de) (de_windows de) env in
      if \<not> de_lookup de bin \<and> \<not> exists_file env bin then ''WARN dre-replay not found: '' @ bin
      else ''OK dre-replay: '' @ bin)"

definition runDoctor ::
  "doctor_env \<Rightarrow> unicode \<Rightarrow> inspect_env \<Rightarrow> net_env \<Rightarrow> 'e proj_env \<Rightarrow> bytes list \<Rightarrow> 'e cli option" where
  "runDoctor de u insp net env args =
     (case parse_flags root_flag args of
        Inl err \<Rightarrow> Some ([], Some (FlagError err))
      | Inr (fs, rest) \<Rightarrow> do {
          rootPath \<leftarrow> FindCaptureRoot env (flag_str fs ''root'');
          let ly = LayoutFor rootPath;
          disc \<leftarrow> Discover u insp net env (flag_str fs ''root'');
          url \<leftarrow> PublicURL env (flag_str fs ''root'');
          Some ([''BugIT doctor '' @ de_version de, ''OS: '' @ de_os de @ '' '' @ de_arch de, ''Capture root: '' @ rootPath,
                 ''BugIT dir: '' @ ly_bugit_dir ly, ''Public URL: '' @ url]
                @ backend_lines net disc @ node_lines de @ inspector_lines u insp disc
                @ hook_lines de env rootPath disc @ target_lines de u insp disc @ [replay_line de env], None)
        })"

section \<open>Dispatch\<close>

datatype bugit_command =
  CmdCapture | CmdRecord | CmdReplay | CmdOpen | CmdSnapshot | CmdSnapshots | CmdDoctor | CmdStatus | CmdVersion

definition bugit_main :: "bytes list \<Rightarrow> (bugit_command \<times> bytes list) option" where
  "bugit_main args =
     (case args of
        [] \<Rightarrow> None
      | name # rest \<Rightarrow>
          map_option (\<lambda>c. (c, rest)) (map_of
            [(''capture'', CmdCapture), (''record'', CmdRecord), (''replay'', CmdReplay), (''open'', CmdOpen), (''snapshot'', CmdSnapshot),
             (''snapshots'', CmdSnapshots), (''doctor'', CmdDoctor), (''status'', CmdStatus), (''version'', CmdVersion)] name))"

section \<open>Lemmas\<close>

text \<open>The value that counts for a variable: its last setting.\<close>

definition setting :: "bytes \<Rightarrow> bytes list \<Rightarrow> bytes option" where
  "setting name env = map_option (drop (length name + 1)) (find (\<lambda>e. prefix (name @ ''='') e) (rev env))"

lemma find_append: "find P (xs @ ys) = (case find P xs of None \<Rightarrow> find P ys | Some x \<Rightarrow> Some x)"
  by (induction xs) auto

lemma find_filter: "(\<And>x. P x \<Longrightarrow> Q x) \<Longrightarrow> find P (filter Q xs) = find P xs"
  by (induction xs) auto

lemma setting_append: "setting name (xs @ ys) = (case setting name ys of None \<Rightarrow> setting name xs | Some v \<Rightarrow> Some v)"
  by (simp add: setting_def find_append split: option.split)

lemma prefix_of_setting:
  "c \<notin> set n \<Longrightarrow> c \<notin> set m \<Longrightarrow> prefix (n @ [c]) (m @ c # v) \<longleftrightarrow> n = m"
proof (induction n arbitrary: m)
  case Nil
  then show ?case by (cases m) auto
next
  case (Cons x n)
  then show ?case by (cases m) auto
qed

lemma setting_single:
  "CHR ''='' \<notin> set n \<Longrightarrow> CHR ''='' \<notin> set m \<Longrightarrow> setting n [m @ ''='' @ v] = (if n = m then Some v else None)"
  by (simp add: setting_def prefix_of_setting)

lemma setting_Nil [simp]: "setting n [] = None"
  by (simp add: setting_def)

lemma setting_CleanEnv:
  assumes "CHR ''='' \<notin> set name"
  shows "setting name (CleanEnv env) = (if name = ''NODE_OPTIONS'' then None else setting name env)"
proof (cases "name = ''NODE_OPTIONS''")
  case True
  have "find (\<lambda>e. prefix (''NODE_OPTIONS'' @ ''='') e) (filter P (rev env)) = None"
    if "\<And>e. P e \<Longrightarrow> \<not> (13 \<le> length e \<and> take 13 e = ''NODE_OPTIONS='')" for P
  proof -
    have "\<not> prefix ''NODE_OPTIONS='' e" if "P e" for e
      using \<open>\<And>e. P e \<Longrightarrow> \<not> (13 \<le> length e \<and> take 13 e = ''NODE_OPTIONS='')\<close> [OF that]
      by (auto simp: prefix_def)
    then show ?thesis by (auto simp: find_None_iff)
  qed
  then show ?thesis using True by (simp add: setting_def CleanEnv_def rev_filter)
next
  case False
  have "\<not> (13 \<le> length e \<and> take 13 e = ''NODE_OPTIONS='')" if "prefix (name @ ''='') e" for e
  proof
    assume "13 \<le> length e \<and> take 13 e = ''NODE_OPTIONS=''"
    then have "e = ''NODE_OPTIONS'' @ CHR ''='' # drop 13 e"
      using append_take_drop_id [of 13 e] by simp
    then have "prefix (name @ [CHR ''='']) (''NODE_OPTIONS'' @ CHR ''='' # drop 13 e)" using that by simp
    then show False using False prefix_of_setting [OF assms, of "''NODE_OPTIONS''"] by simp
  qed
  then have "find (prefix (name @ ''='')) (filter (\<lambda>e. \<not> (13 \<le> length e \<and> take 13 e = ''NODE_OPTIONS='')) (rev env)) =
      find (prefix (name @ ''='')) (rev env)"
    by (intro find_filter) blast
  then show ?thesis using False by (simp add: setting_def CleanEnv_def rev_filter)
qed

text \<open>Environments written as settings.\<close>

definition settings :: "(bytes \<times> bytes) list \<Rightarrow> bytes list" where
  "settings nvs = map (\<lambda>(n, v). n @ ''='' @ v) nvs"

lemma setting_settings:
  "CHR ''='' \<notin> set name \<Longrightarrow> \<forall>(n, v) \<in> set nvs. CHR ''='' \<notin> set n \<Longrightarrow>
   setting name (settings nvs) = map_of (rev nvs) name"
proof (induction nvs)
  case (Cons nv nvs)
  obtain n v where nv: "nv = (n, v)" by (cases nv)
  have "setting name (settings (nv # nvs)) =
      (case setting name (settings nvs) of None \<Rightarrow> setting name [n @ ''='' @ v] | Some w \<Rightarrow> Some w)"
    using setting_append [of name "[n @ ''='' @ v]" "settings nvs"] by (simp add: settings_def nv)
  also have "setting name [n @ ''='' @ v] = (if name = n then Some v else None)"
    using Cons.prems nv by (intro setting_single) auto
  finally show ?case
    using Cons by (auto simp: nv map_of_append map_add_def split: option.split)
qed (simp add: settings_def)

definition child_settings :: "int \<Rightarrow> runtime \<Rightarrow> bytes \<Rightarrow> (bytes \<times> bytes) list" where
  "child_settings internalPort rt port =
     [(''PORT'', itoa_int internalPort), (''BUGIT_RECORD_PROXY'', ''http://127.0.0.1:28082''),
      (''HTTP_PROXY'', ''http://127.0.0.1:28082''), (''HTTPS_PROXY'', ''http://127.0.0.1:28082'')] @
     (case rt of
        RuntimeNode \<Rightarrow> [(''BUGIT_NODE_INSPECT'', ''--inspect=127.0.0.1:'' @ port), (''NODE_OPTIONS'', ''--inspect=127.0.0.1:'' @ port)]
      | RuntimePython \<Rightarrow> [(''BUGIT_DEBUGPY'', ''1''), (''BUGIT_DEBUGPY_PORT'', port)]
      | _ \<Rightarrow> [])"

lemma child_env_settings:
  assumes "rt_itoa inspectPort = Some port"
  shows "child_env environ internalPort rt inspectPort = Some (CleanEnv environ @ settings (child_settings internalPort rt port))"
  by (cases rt) (simp_all add: child_env_def EnvAdjustments_def assms settings_def child_settings_def Let_def)

section \<open>Properties\<close>

text \<open>What a captured command sees of the environment.  It is told to listen on the internal
  port and to go through the recording proxy whatever the caller's environment says, the caller's
  \<^verbatim>\<open>NODE_OPTIONS\<close> never reach it, a Node program gets the inspector's port, and every variable
  that is not one of these keeps its value.\<close>

theorem child_environment:
  assumes "rt_itoa inspectPort = Some port" "CHR ''='' \<notin> set name"
  shows "\<exists>env. child_env environ internalPort rt inspectPort = Some env \<and>
    setting ''PORT'' env = Some (itoa_int internalPort) \<and>
    setting ''HTTP_PROXY'' env = Some ''http://127.0.0.1:28082'' \<and>
    setting ''NODE_OPTIONS'' env = (if rt = RuntimeNode then Some (''--inspect=127.0.0.1:'' @ port) else None) \<and>
    (name \<notin> {''PORT'', ''BUGIT_RECORD_PROXY'', ''HTTP_PROXY'', ''HTTPS_PROXY'', ''NODE_OPTIONS'', ''BUGIT_NODE_INSPECT'',
        ''BUGIT_DEBUGPY'', ''BUGIT_DEBUGPY_PORT''} \<longrightarrow> setting name env = setting name environ)"
proof -
  let ?nvs = "child_settings internalPort rt port"
  have names: "\<forall>(n, v) \<in> set ?nvs. CHR ''='' \<notin> set n" by (cases rt) (simp_all add: child_settings_def)
  have s: "setting n (CleanEnv environ @ settings ?nvs) =
      (case map_of (rev ?nvs) n of None \<Rightarrow> setting n (CleanEnv environ) | Some v \<Rightarrow> Some v)"
    if "CHR ''='' \<notin> set n" for n
    by (simp add: setting_append setting_settings [OF that names])
  have known: "map_of (rev ?nvs) ''PORT'' = Some (itoa_int internalPort)"
    "map_of (rev ?nvs) ''HTTP_PROXY'' = Some ''http://127.0.0.1:28082''"
    "map_of (rev ?nvs) ''NODE_OPTIONS'' = (if rt = RuntimeNode then Some (''--inspect=127.0.0.1:'' @ port) else None)"
    by (cases rt; simp add: child_settings_def)+
  have others: "map_of (rev ?nvs) name = None"
    if "name \<notin> {''PORT'', ''BUGIT_RECORD_PROXY'', ''HTTP_PROXY'', ''HTTPS_PROXY'', ''NODE_OPTIONS'', ''BUGIT_NODE_INSPECT'',
        ''BUGIT_DEBUGPY'', ''BUGIT_DEBUGPY_PORT''}"
    using that by (cases rt) (simp_all add: child_settings_def)
  show ?thesis
    unfolding child_env_settings [OF assms(1)]
    using s [of "''PORT''"] s [of "''HTTP_PROXY''"] s [of "''NODE_OPTIONS''"] s [OF assms(2)] others
      setting_CleanEnv [of "''NODE_OPTIONS''"] setting_CleanEnv [OF assms(2)]
    by (auto simp: known split: if_splits)
qed

lemma child_environment_witness:
  "\<exists>env. child_env [''PORT=1'', ''NODE_OPTIONS=-r x'', ''HOME=/h''] 14000 RuntimeNode 9230 = Some env \<and>
     setting ''PORT'' env = Some (itoa_int 14000) \<and> setting ''HOME'' env = Some ''/h''"
proof -
  have port: "rt_itoa 9230 = Some (itoa 9230)" by (simp add: rt_itoa_def)
  have "setting ''HOME'' [''PORT=1'', ''NODE_OPTIONS=-r x'', ''HOME=/h''] = Some ''/h''" by (simp add: setting_def)
  with child_environment [OF port, of "''HOME''" "[''PORT=1'', ''NODE_OPTIONS=-r x'', ''HOME=/h'']" 14000 RuntimeNode]
  show ?thesis by auto
qed

text \<open>The command that is captured is the one that was typed: what \<^verbatim>\<open>capture\<close> runs is a suffix of
  its arguments, empty only for automatic detection, and everything after \<^verbatim>\<open>--\<close> is passed on as it
  is, options included, unless it begins with another \<^verbatim>\<open>--\<close>.\<close>

theorem capture_runs_the_command_typed:
  "(\<forall>fs cmd. capture_args args = Inr (fs, cmd) \<longrightarrow>
      suffix cmd args \<and> (cmd = [] \<longleftrightarrow> flag_bool fs ''auto'') \<and> flag_str fs ''mode'' = ''local'') \<and>
   (typed \<noteq> [] \<and> hd typed \<noteq> ''--'' \<longrightarrow>
      (\<exists>fs. capture_args ([''--root'', root, ''--detail'', detail, ''--''] @ typed) = Inr (fs, typed) \<and>
         flag_str fs ''root'' = root \<and> flag_str fs ''detail'' = detail \<and> flag_bool fs ''save-on-exit''))"
proof (intro conjI impI allI)
  fix fs cmd
  assume c: "capture_args args = Inr (fs, cmd)"
  then obtain rest where p: "parse_flags capture_flags args = Inr (fs, rest)"
    by (auto simp: capture_args_def Let_def split: sum.splits prod.splits if_splits)
  from c p have "suffix cmd rest \<or> cmd = []"
    by (auto simp: capture_args_def Let_def suffix_drop split: if_splits)
  with parse_flags_suffix [OF p] show "suffix cmd args" by (auto intro: suffix_order.trans)
  from c p show "(cmd = []) = flag_bool fs ''auto''" "flag_str fs ''mode'' = ''local''"
    by (auto simp: capture_args_def Let_def split: if_splits)
next
  assume "typed \<noteq> [] \<and> hd typed \<noteq> ''--''"
  then show "\<exists>fs. capture_args ([''--root'', root, ''--detail'', detail, ''--''] @ typed) = Inr (fs, typed) \<and>
      flag_str fs ''root'' = root \<and> flag_str fs ''detail'' = detail \<and> flag_bool fs ''save-on-exit''"
    using parse_string_flag [of "''root''" capture_flags "''.''" root "''--detail'' # detail # ''--'' # typed"]
      parse_string_flag [of "''detail''" "update_flag ''root'' (StrFlag root) capture_flags" "''manual capture''" detail "''--'' # typed"]
    by (simp add: capture_args_def proper_name_def capture_flags_def update_flag_def flag_bool_def flag_str_def)
qed

lemma capture_runs_the_command_typed_witness:
  "\<exists>fs. capture_args ([''--root'', ''.'', ''--detail'', ''d'', ''--''] @ [''npm'', ''run'', ''--silent'']) =
     (Inr (fs, [''npm'', ''run'', ''--silent'']) :: unit cli_error + _)"
  using capture_runs_the_command_typed [where args = "[]" and typed = "[''npm'', ''run'', ''--silent'']" and root = "''.''" and detail = "''d''"]
  by auto

end
