(* ===== verification/Tool_Commands.thy ===== *)
theory Tool_Commands
  imports BugIT_Command Demo_Data Session Summary Collector
begin

text \<open>
  The other programs: the replay tool (dre-replay-cli/cmd/dre-replay), the collector's client
  (dre-collector/cmd/dre-cli), and the collector's own start-up (dre-collector/cmd/dre-collector
  with the leader election of internal/leader).  HTTP, JSON, YAML and the Kubernetes client are
  inputs.
\<close>

section \<open>The replay tool\<close>

abbreviation default_key :: bytes where "default_key \<equiv> ''dev-insecure-key-change-me''"
abbreviation default_delve :: bytes where "default_delve \<equiv> ''127.0.0.1:2345''"

definition load_flags :: flags where
  "load_flags =
     [(''dre'', StrFlag []), (''key'', StrFlag default_key), (''format'', StrFlag ''manifest''), (''config'', StrFlag []),
      (''proxy'', StrFlag []), (''delve'', StrFlag default_delve)]"

definition run_flags :: flags where
  "run_flags =
     [(''dre'', StrFlag []), (''key'', StrFlag default_key), (''config'', StrFlag []), (''proxy'', StrFlag []),
      (''binary'', StrFlag []), (''delve'', StrFlag default_delve)]"

definition debug_flags :: flags where
  "debug_flags = [(''binary'', StrFlag []), (''delve'', StrFlag default_delve)]"

datatype 'e tool_error =
  ToolFlagError flag_error | ConfigError 'e | ArchiveError archive_error | SessionFailed session_error
| BinaryRequired | DelveFailed session_error

record ide_output =
  io_manifest :: manifest
  io_graph :: vector_graph
  io_event_count :: nat
  io_vector_nodes :: nat
  io_events :: "event_summary list"
  io_flow :: bytes
  io_clock :: clock_timeline
  io_source :: source_map
  io_proxy_addr :: bytes
  io_debug_addr :: bytes
  io_delve_addr :: bytes
  io_config_path :: bytes

datatype load_output = IdeOutput ide_output | ManifestOutput manifest bytes

definition ide_of :: "snapshot \<Rightarrow> replay_config \<Rightarrow> bytes \<Rightarrow> bytes \<Rightarrow> ide_output" where
  "ide_of snap cfg delve cfgPath =
     \<lparr>io_manifest = snap_manifest snap, io_graph = snap_graph snap, io_event_count = length (snap_events snap),
      io_vector_nodes = length (vg_nodes (snap_graph snap)), io_events = SummarizeEvents (snap_events snap),
      io_flow = FlowDescription (snap_events snap), io_clock = snap_clock snap, io_source = snap_source snap,
      io_proxy_addr = rc_proxy_addr cfg, io_debug_addr = rc_debug_addr cfg, io_delve_addr = delve,
      io_config_path = cfgPath\<rparr>"

definition runLoad ::
  "(bytes \<Rightarrow> 'e + bytes) \<Rightarrow> (bytes \<Rightarrow> replay_config \<Rightarrow> replay_config \<times> 'e option) \<Rightarrow> codecs \<Rightarrow> filesystem \<Rightarrow>
     bytes list \<Rightarrow> 'e tool_error + load_output" where
  "runLoad readFile unmarshal c fs args =
     (case parse_flags load_flags args of
        Inl err \<Rightarrow> Inl (ToolFlagError err)
      | Inr (fl, rest) \<Rightarrow>
          (case config_Load readFile unmarshal (flag_str fl ''config'') of
             (_, Some err) \<Rightarrow> Inl (ConfigError err)
           | (cfg0, None) \<Rightarrow>
               (let proxy = flag_str fl ''proxy'';
                    cfg = (if proxy \<noteq> [] then cfg0\<lparr>rc_proxy_addr := proxy\<rparr> else cfg0)
                in case OpenFile c fs (flag_str fl ''dre'') (flag_str fl ''key'') of
                     Inl err \<Rightarrow> Inl (ArchiveError err)
                   | Inr snap \<Rightarrow>
                       if flag_str fl ''format'' = ''ide''
                       then Inr (IdeOutput (ide_of snap cfg (flag_str fl ''delve'') (flag_str fl ''config'')))
                       else Inr (ManifestOutput (snap_manifest snap)
                         (''events='' @ itoa (length (snap_events snap)) @ '' vector_nodes=''
                            @ itoa (length (vg_nodes (snap_graph snap))))))))"

text \<open>\<^verbatim>\<open>run\<close> serves until a signal; the result is the session that has been started.\<close>

definition runServe ::
  "(bytes \<Rightarrow> 'e + bytes) \<Rightarrow> (bytes \<Rightarrow> replay_config \<Rightarrow> replay_config \<times> 'e option) \<Rightarrow> codecs \<Rightarrow> filesystem \<Rightarrow>
     Session.start_env \<Rightarrow> tf_world \<Rightarrow> bytes list \<Rightarrow> 'e tool_error + session" where
  "runServe readFile unmarshal c fs env w args =
     (case parse_flags run_flags args of
        Inl err \<Rightarrow> Inl (ToolFlagError err)
      | Inr (fl, rest) \<Rightarrow>
          (case config_Load readFile unmarshal (flag_str fl ''config'') of
             (_, Some err) \<Rightarrow> Inl (ConfigError err)
           | (cfg, None) \<Rightarrow>
               (case OpenFile c fs (flag_str fl ''dre'') (flag_str fl ''key'') of
                  Inl err \<Rightarrow> Inl (ArchiveError err)
                | Inr snap \<Rightarrow>
                    (case session_Start env (session_New snap cfg (flag_str fl ''proxy'') (flag_str fl ''binary'')
                            (flag_str fl ''delve'') w) of
                       (Some err, s) \<Rightarrow> Inl (SessionFailed err)
                     | (None, s) \<Rightarrow> Inr s))))"

definition runDebug :: "Session.start_env \<Rightarrow> bytes list \<Rightarrow> 'e tool_error + bytes" where
  "runDebug env args =
     (case parse_flags debug_flags args of
        Inl err \<Rightarrow> Inl (ToolFlagError err)
      | Inr (fl, rest) \<Rightarrow>
          if flag_str fl ''binary'' = [] then Inl BinaryRequired
          else (case StartHeadless env (flag_str fl ''binary'') (flag_str fl ''delve'') of
              (Some err, _) \<Rightarrow> Inl (DelveFailed err)
            | (None, _) \<Rightarrow> Inr (''Delve headless on '' @ flag_str fl ''delve'')))"

datatype replay_command = CmdLoad | CmdRun | CmdDebug

definition replay_main :: "bytes list \<Rightarrow> (replay_command \<times> bytes list) option" where
  "replay_main args =
     (case args of
        [] \<Rightarrow> None
      | name # rest \<Rightarrow> map_option (\<lambda>c. (c, rest)) (map_of [(''load'', CmdLoad), (''run'', CmdRun), (''debug'', CmdDebug)] name))"

section \<open>The collector's client\<close>

definition cli_envOr :: "(bytes \<Rightarrow> bytes) \<Rightarrow> bytes \<Rightarrow> bytes \<Rightarrow> bytes" where
  "cli_envOr genv k def = (if genv k \<noteq> [] then genv k else def)"

definition trigger_flags :: "(bytes \<Rightarrow> bytes) \<Rightarrow> flags" where
  "trigger_flags genv =
     [(''collector'', StrFlag (cli_envOr genv ''DRE_COLLECTOR_HTTP'' ''http://localhost:8080'')),
      (''detail'', StrFlag ''manual trigger'')]"

text \<open>The request that \<^verbatim>\<open>trigger\<close> posts: its URL and its body, in which the detail is not escaped.\<close>

definition runTrigger :: "(bytes \<Rightarrow> bytes) \<Rightarrow> bytes list \<Rightarrow> flag_error + bytes \<times> bytes" where
  "runTrigger genv args =
     (case parse_flags (trigger_flags genv) args of
        Inl err \<Rightarrow> Inl err
      | Inr (fl, rest) \<Rightarrow> Inr (flag_str fl ''collector'' @ ''/v1/trigger'',
          ''{'' @ [CHR 0x22] @ ''detail'' @ [CHR 0x22] @ '':'' @ [CHR 0x22] @ flag_str fl ''detail'' @ [CHR 0x22] @ ''}''))"

definition download_flags :: "(bytes \<Rightarrow> bytes) \<Rightarrow> flags" where
  "download_flags genv =
     [(''collector'', StrFlag (cli_envOr genv ''DRE_COLLECTOR_HTTP'' ''http://localhost:8080'')), (''id'', StrFlag []),
      (''out'', StrFlag [])]"

datatype download_error =
  DownloadFlags flag_error | NoAnswer | BadList | NoneListed | NotListed bytes | DownloadStatus nat
| BodyLost | WriteFailed

text \<open>\<open>fetch\<close> is an HTTP GET: the status, and the body when it can be read; \<open>decode\<close> reads the list
  of snapshots.  The result is the file that is written and its contents.\<close>

definition runDownload ::
  "(bytes \<Rightarrow> bytes) \<Rightarrow> (bytes \<Rightarrow> (nat \<times> bytes option) option) \<Rightarrow> (bytes option \<Rightarrow> snapshot_info list option) \<Rightarrow>
     (bytes \<Rightarrow> bool) \<Rightarrow> bytes list \<Rightarrow> download_error + bytes \<times> bytes" where
  "runDownload genv fetch decode can_write args =
     (case parse_flags (download_flags genv) args of
        Inl err \<Rightarrow> Inl (DownloadFlags err)
      | Inr (fl, rest) \<Rightarrow>
     (let base = flag_str fl ''collector'' in
      case fetch (base @ ''/v1/snapshots'') of
        None \<Rightarrow> Inl NoAnswer
      | Some (_, body) \<Rightarrow>
     (case decode body of
        None \<Rightarrow> Inl BadList
      | Some snaps \<Rightarrow>
     (if length snaps = 0 then Inl NoneListed
      else
     (let targetID = (if flag_str fl ''id'' = [] then si_id (last snaps) else flag_str fl ''id'') in
      case find (\<lambda>s. si_id s = targetID) snaps of
        None \<Rightarrow> Inl (NotListed targetID)
      | Some snap \<Rightarrow>
     (let url = (if si_download_url snap = [] then trim_right base ''/'' @ ''/v1/snapshots/'' @ si_id snap @ ''/download''
                 else si_download_url snap) in
      case fetch url of
        None \<Rightarrow> Inl NoAnswer
      | Some (status, content) \<Rightarrow>
          if status \<noteq> 200 then Inl (DownloadStatus status)
          else (case content of
              None \<Rightarrow> Inl BodyLost
            | Some data \<Rightarrow>
                (let dest = (if flag_str fl ''out'' = [] then ''incident-'' @ si_id snap @ ''.dre'' else flag_str fl ''out'')
                 in if can_write dest then Inr (dest, data) else Inl WriteFailed))))))))"

datatype cli_command = CmdTrigger | CmdList | CmdDownload

definition cli_main :: "bytes list \<Rightarrow> (cli_command \<times> bytes list) option" where
  "cli_main args =
     (case args of
        [] \<Rightarrow> None
      | name # rest \<Rightarrow>
          map_option (\<lambda>c. (c, rest)) (map_of [(''trigger'', CmdTrigger), (''list-snapshots'', CmdList), (''download'', CmdDownload)] name))"

section \<open>The collector's start-up\<close>

record collector_settings =
  cs_data_dir :: bytes
  cs_cluster :: bytes
  cs_key :: bytes
  cs_grpc :: bytes
  cs_http :: bytes
  cs_metrics :: bytes

definition collector_settings_of :: "(bytes \<Rightarrow> bytes) \<Rightarrow> collector_settings" where
  "collector_settings_of genv =
     \<lparr>cs_data_dir = cli_envOr genv ''DRE_DATA_DIR'' ''/var/lib/dre'', cs_cluster = cli_envOr genv ''DRE_CLUSTER'' ''local'',
      cs_key = cli_envOr genv ''DRE_SNAPSHOT_KEY'' default_key, cs_grpc = cli_envOr genv ''DRE_GRPC_ADDR'' '':9090'',
      cs_http = cli_envOr genv ''DRE_HTTP_ADDR'' '':8080'', cs_metrics = cli_envOr genv ''DRE_METRICS_ADDR'' '':8081''\<rparr>"

text \<open>Readiness on the metrics port: only a collector that takes part in an election and has not
  won it is not ready.\<close>

definition metrics_readyz :: "(bytes \<Rightarrow> bytes) \<Rightarrow> bool \<Rightarrow> http_reply" where
  "metrics_readyz genv isLeader =
     (if genv ''DRE_LEADER_ELECT'' = ''1'' \<and> \<not> isLeader then Status 503 (''not leader'' @ [LF])
      else Status 200 ''ready'')"

text \<open>\<^verbatim>\<open>RunElection\<close>: run alone, or take part with an identity in the election of a lease.\<close>

datatype 'e election = Alone | NoClient 'e | Candidate bytes bytes bytes

definition RunElection :: "(bytes \<Rightarrow> bytes) \<Rightarrow> bool \<Rightarrow> 'e option \<Rightarrow> 'e election" where
  "RunElection genv in_cluster client_error =
     (if genv ''DRE_LEADER_ELECT'' \<noteq> ''1'' then Alone
      else if \<not> in_cluster then Alone
      else case client_error of
        Some err \<Rightarrow> NoClient err
      | None \<Rightarrow>
          (let ident = (if genv ''HOSTNAME'' = [] then ''dre-collector-local'' else genv ''HOSTNAME'')
           in Candidate ''dre-collector-leader'' (cli_envOr genv ''DRE_NAMESPACE'' ''dre-engine'') ident))"

section \<open>From the command line to the session\<close>

lemma replay_key_nonempty: "LoadConfig env path = (cfg, None) \<Longrightarrow> cf_snapshot_key cfg \<noteq> []"
  by (auto simp: LoadConfig_def DefaultConfig_def Let_def split: file_read.splits prod.splits option.splits if_splits)

definition replay_config_path :: "'e proj_env \<Rightarrow> layout \<Rightarrow> bytes" where
  "replay_config_path env ly = (if exists_file env (ly_replay_path ly) then ly_replay_path ly else [])"

text \<open>What the replay tool reads from the arguments that \<^verbatim>\<open>bugit replay\<close> gives it.\<close>

lemma run_flags_of_argv:
  "\<exists>args fl. replay_main ([''run'', ''--dre'', snap, ''--key'', key] @ (if cfgPath \<noteq> [] then [''--config'', cfgPath] else [])) =
       Some (CmdRun, args) \<and>
     parse_flags run_flags args = Inr (fl, []) \<and> flag_str fl ''dre'' = snap \<and> flag_str fl ''key'' = key \<and>
     flag_str fl ''config'' = cfgPath \<and> flag_str fl ''proxy'' = [] \<and> flag_str fl ''binary'' = [] \<and>
     flag_str fl ''delve'' = default_delve"
proof -
  let ?cfg = "if cfgPath \<noteq> [] then [''--config'', cfgPath] else []"
  let ?f1 = "update_flag ''dre'' (StrFlag snap) run_flags"
  let ?f2 = "update_flag ''key'' (StrFlag key) ?f1"
  let ?f3 = "if cfgPath \<noteq> [] then update_flag ''config'' (StrFlag cfgPath) ?f2 else ?f2"
  have "parse_flags run_flags ([''--dre'', snap, ''--key'', key] @ ?cfg) = parse_flags ?f1 ([''--key'', key] @ ?cfg)"
    using parse_string_flag [of "''dre''" run_flags "[]" snap "[''--key'', key] @ ?cfg"]
    by (simp add: proper_name_def run_flags_def)
  also have "\<dots> = parse_flags ?f2 ?cfg"
    using parse_string_flag [of "''key''" ?f1 default_key key ?cfg]
    by (simp add: proper_name_def run_flags_def map_of_update_flag)
  also have "\<dots> = Inr (?f3, [])"
    using parse_string_flag [of "''config''" ?f2 "[]" cfgPath "[]"]
    by (simp add: proper_name_def run_flags_def map_of_update_flag)
  finally have "parse_flags run_flags ([''--dre'', snap, ''--key'', key] @ ?cfg) = Inr (?f3, [])" .
  moreover have "flag_str ?f3 ''dre'' = snap" "flag_str ?f3 ''key'' = key" "flag_str ?f3 ''config'' = cfgPath"
    "flag_str ?f3 ''proxy'' = []" "flag_str ?f3 ''binary'' = []" "flag_str ?f3 ''delve'' = default_delve"
    by (simp_all add: flag_str_def map_of_update_flag run_flags_def)
  moreover have "replay_main ([''run'', ''--dre'', snap, ''--key'', key] @ ?cfg) =
      Some (CmdRun, [''--dre'', snap, ''--key'', key] @ ?cfg)"
    by (simp add: replay_main_def)
  ultimately show ?thesis by blast
qed

text \<open>Replaying by hand and replaying with \<^verbatim>\<open>bugit replay\<close> are the same.  When the command starts the
  replay tool on a snapshot, whatever characters its name has, the tool's own
  parser recovers the file, the key of the project's configuration and the replay configuration
  of the project when there is one; so if the file opens with that key, the session that serves is
  the one started on this snapshot, and if it does not, the tool reports why and starts nothing.\<close>

lemma replay_session:
  assumes "parse_flags replay_flags given = Inr (fl, [])"
    and "FindCaptureRoot env (path_abs env (flag_str fl ''root'')) = Some dir"
    and "chosen_snapshot env readDir (path_abs env (flag_str fl ''root'')) (flag_str fl ''dre'') = Some (Inr snap)"
    and "LoadConfig env (ly_config_path (LayoutFor dir)) = (cfg, None)"
  shows "\<exists>argv out args. runReplay genv windows exec env readDir given = Some (Some (resolveReplayBin genv windows env, argv), out) \<and>
    replay_main argv = Some (CmdRun, args) \<and>
    (\<forall>readFile unmarshal c fs senv w rcfg. config_Load readFile unmarshal (replay_config_path env (LayoutFor dir)) = (rcfg, None) \<longrightarrow>
       runServe readFile unmarshal c fs senv w args =
         (case OpenFile c fs snap (cf_snapshot_key cfg) of
            Inl err \<Rightarrow> Inl (ArchiveError err)
          | Inr s \<Rightarrow> (case session_Start senv (session_New s rcfg [] [] default_delve w) of
              (Some err, _) \<Rightarrow> Inl (SessionFailed err)
            | (None, started) \<Rightarrow> Inr started)))"
proof -
  define cfgPath where "cfgPath = replay_config_path env (LayoutFor dir)"
  let ?argv = "[''run'', ''--dre'', snap, ''--key'', cf_snapshot_key cfg] @ (if cfgPath \<noteq> [] then [''--config'', cfgPath] else [])"
  have argv: "replay_argv env (LayoutFor dir) snap = ?argv"
    by (simp add: replay_argv_def cfgPath_def replay_config_path_def assms(4) replay_key_nonempty [OF assms(4)])
  have run: "\<exists>out. runReplay genv windows exec env readDir given = Some (Some (resolveReplayBin genv windows env, ?argv), out)"
    by (simp add: runReplay_def assms(1-3) argv Let_def)
  obtain args fl where args: "replay_main ?argv = Some (CmdRun, args)" "parse_flags run_flags args = Inr (fl, [])"
    "flag_str fl ''dre'' = snap" "flag_str fl ''key'' = cf_snapshot_key cfg" "flag_str fl ''config'' = cfgPath"
    "flag_str fl ''proxy'' = []" "flag_str fl ''binary'' = []" "flag_str fl ''delve'' = default_delve"
    using run_flags_of_argv [of snap "cf_snapshot_key cfg" cfgPath] by blast
  have "runServe readFile unmarshal c fs senv w args =
         (case OpenFile c fs snap (cf_snapshot_key cfg) of
            Inl err \<Rightarrow> Inl (ArchiveError err)
          | Inr s \<Rightarrow> (case session_Start senv (session_New s rcfg [] [] default_delve w) of
              (Some err, _) \<Rightarrow> Inl (SessionFailed err)
            | (None, started) \<Rightarrow> Inr started))"
    if "config_Load readFile unmarshal cfgPath = (rcfg, None)" for readFile unmarshal c fs senv w rcfg
    using args that by (simp add: runServe_def split: sum.split prod.split option.split)
  with run args(1) show ?thesis unfolding cfgPath_def by blast
qed

lemma replay_flags_of:
  "parse_flags replay_flags [''--root'', root] = Inr (update_flag ''root'' (StrFlag root) replay_flags, [])"
  "flag_str (update_flag ''root'' (StrFlag root) replay_flags) ''root'' = root"
  "flag_str (update_flag ''root'' (StrFlag root) replay_flags) ''dre'' = []"
  using parse_string_flag [of "''root''" replay_flags "''.''" root "[]"]
  by (simp_all add: proper_name_def replay_flags_def map_of_update_flag flag_str_def)

theorem replay_arguments_reach_the_session:
  assumes "snap \<noteq> []" "FindCaptureRoot env (path_abs env root) = Some dir"
    and "LoadConfig env (ly_config_path (LayoutFor dir)) = (cfg, None)"
  shows "\<exists>argv out args.
    runReplay genv windows exec env readDir [''--dre'', snap, ''--root'', root] = Some (Some (resolveReplayBin genv windows env, argv), out) \<and>
    replay_main argv = Some (CmdRun, args) \<and>
    (\<forall>readFile unmarshal c fs senv w rcfg. config_Load readFile unmarshal (replay_config_path env (LayoutFor dir)) = (rcfg, None) \<longrightarrow>
       runServe readFile unmarshal c fs senv w args =
         (case OpenFile c fs snap (cf_snapshot_key cfg) of
            Inl err \<Rightarrow> Inl (ArchiveError err)
          | Inr s \<Rightarrow> (case session_Start senv (session_New s rcfg [] [] default_delve w) of
              (Some err, _) \<Rightarrow> Inl (SessionFailed err)
            | (None, started) \<Rightarrow> Inr started)))"
proof -
  let ?fl = "update_flag ''root'' (StrFlag root) (update_flag ''dre'' (StrFlag snap) replay_flags)"
  have fl: "parse_flags replay_flags [''--dre'', snap, ''--root'', root] = Inr (?fl, [])"
    using parse_string_flag [of "''dre''" replay_flags "[]" snap "[''--root'', root]"]
      parse_string_flag [of "''root''" "update_flag ''dre'' (StrFlag snap) replay_flags" "''.''" root "[]"]
    by (simp add: proper_name_def replay_flags_def map_of_update_flag)
  have vals: "flag_str ?fl ''dre'' = snap" "flag_str ?fl ''root'' = root"
    by (simp_all add: flag_str_def map_of_update_flag replay_flags_def)
  show ?thesis
    by (rule replay_session [OF fl, unfolded vals, OF assms(2) _ assms(3)]) (simp add: chosen_snapshot_def assms(1))
qed

lemma start_helpers_snap: "start_helpers env s = (err, s') \<Longrightarrow> se_snap s' = se_snap s"
  using start_helpers_frame(4) [of env s] by simp

lemma started_events: "session_Start env s = (None, s') \<Longrightarrow> session_Events s' = session_Events s"
  by (auto simp: session_Start_def session_Events_def Let_def start_helpers_snap split: prod.splits option.splits if_splits)

end
