(* ===== verification/Collector_Server.thy ===== *)
theory Collector_Server
  imports Agent_Forward
begin

text \<open>
  The collector as a server (\<^verbatim>\<open>Run\<close> of dre-collector/internal/server/server.go): its routes, its
  gRPC methods, and a whole run from the start to the end of the context.  A run is the sequence
  of the calls it serves; messages of the event streams are calls of their own, so that the
  messages of several streams and HTTP requests may come in any order.  The locale \<open>call_server\<close> holds what
  follows for a whole run from a contract on single calls.
\<close>

section \<open>Serving\<close>

fun serve_all :: "('q \<Rightarrow> 's \<Rightarrow> ('a \<times> 's) option) \<Rightarrow> 'q list \<Rightarrow> 's \<Rightarrow> ('a list \<times> 's) option" where
  "serve_all serve [] s = Some ([], s)"
| "serve_all serve (q # qs) s = do {
     (a, s1) \<leftarrow> serve q s;
     (as, s2) \<leftarrow> serve_all serve qs s1;
     Some (a # as, s2)
   }"

text \<open>A server that answers every proper call, keeps an invariant, moves its state only forwards, and
  answers with something that is allowed for the call.\<close>

locale call_server =
  fixes serve :: "'q \<Rightarrow> 's \<Rightarrow> ('a \<times> 's) option"
    and proper :: "'q \<Rightarrow> bool" and inv :: "'s \<Rightarrow> bool" and ahead :: "'s \<Rightarrow> 's \<Rightarrow> bool"
    and allowed :: "'q \<Rightarrow> 'a \<Rightarrow> bool"
  assumes serves: "inv s \<Longrightarrow> proper q \<Longrightarrow> \<exists>a s'. serve q s = Some (a, s') \<and> inv s' \<and> ahead s s' \<and> allowed q a"
    and ahead_refl: "ahead s s"
    and ahead_trans: "ahead s t \<Longrightarrow> ahead t u \<Longrightarrow> ahead s u"
begin

lemma serves_all:
  "inv s \<Longrightarrow> list_all proper qs \<Longrightarrow> \<exists>as s'. serve_all serve qs s = Some (as, s') \<and> inv s' \<and> ahead s s' \<and> list_all2 allowed qs as"
proof (induction qs arbitrary: s)
  case Nil
  then show ?case by (simp add: ahead_refl)
next
  case (Cons q qs)
  obtain a s1 where s1: "serve q s = Some (a, s1)" "inv s1" "ahead s s1" "allowed q a"
    using serves [OF Cons.prems(1), where q = q] Cons.prems(2) by auto
  from Cons.IH [OF s1(2)] Cons.prems(2) s1 ahead_trans [OF s1(3)] show ?case by auto
qed

end

section \<open>Routes\<close>

text \<open>A request: the path is the one the library's multiplexer has cleaned, the body is what
  reading it gives, and the clock readings are those the handlers make, for the items of a
  batch in order and for the trigger.\<close>

record http_call =
  hc_method :: bytes
  hc_path :: bytes
  hc_host :: bytes
  hc_body :: "bytes + bytes"
  hc_clock :: "nat \<Rightarrow> u64 \<times> stamps"
  hc_trigger_clock :: "instant \<times> instant"

text \<open>The JSON layer, and what a snapshot finds.\<close>

record http_env =
  he_capture :: capture_env
  he_events :: "bytes \<Rightarrow> bytes + bytes \<times> event_item list"
  he_detail :: "bytes \<Rightarrow> bytes option"
  he_trigger :: "trigger_response \<Rightarrow> bytes"
  he_list :: "snapshot_info list \<Rightarrow> bytes"

datatype route = Healthz | Readyz | EventsRoute | TriggerRoute | SnapshotsRoute | DownloadRoute

definition mux :: "bytes \<Rightarrow> route option" where
  "mux path =
     (case map_of [(''/healthz'', Healthz), (''/readyz'', Readyz), (''/v1/events'', EventsRoute), (''/v1/trigger'', TriggerRoute),
        (''/v1/snapshots'', SnapshotsRoute)] path of
        Some r \<Rightarrow> Some r
      | None \<Rightarrow> if has_prefix path ''/v1/snapshots/'' then Some DownloadRoute else None)"

definition stamp_items :: "(nat \<Rightarrow> u64 \<times> stamps) \<Rightarrow> event_item list \<Rightarrow> (event_item \<times> u64 \<times> stamps) list" where
  "stamp_items clock items = map (\<lambda>(i, item). (item, clock i)) (enumerate 0 items)"

definition serve_http :: "http_env \<Rightarrow> http_call \<Rightarrow> collector \<Rightarrow> (http_reply \<times> collector) option" where
  "serve_http he q c =
     (case mux (hc_path q) of
        None \<Rightarrow> Some (not_found, c)
      | Some Healthz \<Rightarrow> Some (Status 200 ''ok'', c)
      | Some Readyz \<Rightarrow> Some (serve_readyz c, c)
      | Some EventsRoute \<Rightarrow>
          serveIngestEvents (he_capture he) (hc_method q) (hc_body q)
            (\<lambda>data. map_sum id (\<lambda>(node, items). (node, stamp_items (hc_clock q) items)) (he_events he data)) c
      | Some TriggerRoute \<Rightarrow>
          serve_trigger (he_capture he) (he_trigger he) (hc_method q)
            (case hc_body q of Inl err \<Rightarrow> None | Inr data \<Rightarrow> he_detail he data) (hc_trigger_clock q) c
      | Some SnapshotsRoute \<Rightarrow>
          if hc_path q \<noteq> ''/v1/snapshots'' then Some (serveSnapshotDownload (hc_method q) (hc_path q) (hc_host q) c, c)
          else Some (Status 200 (he_list he (ListSnapshots c)), c)
      | Some DownloadRoute \<Rightarrow> Some (serveSnapshotDownload (hc_method q) (hc_path q) (hc_host q) c, c))"

section \<open>A run\<close>

datatype collector_call =
  HttpCall http_call | StreamMessage pb_event stamps | GrpcTrigger bytes "instant \<times> instant" | GrpcList

datatype collector_answer =
  HttpAnswer http_reply | NoAnswerYet | TriggerAnswer trigger_response | ListAnswer "snapshot_info list"

fun serve_call :: "http_env \<Rightarrow> collector_call \<Rightarrow> collector \<Rightarrow> (collector_answer \<times> collector) option" where
  "serve_call he (HttpCall q) c = map_option (apfst HttpAnswer) (serve_http he q c)"
| "serve_call he (StreamMessage m ts) c =
     map_option (Pair NoAnswerYet) (collector_ingest (he_capture he) (ToNative (Some m)) (pb_node_id m) ts c)"
| "serve_call he (GrpcTrigger detail clk) c =
     map_option (apfst TriggerAnswer) (TriggerSnapshot (he_capture he) detail clk c)"
| "serve_call he GrpcList c = Some (ListAnswer (ListSnapshots c), c)"

datatype 'e serve_error = ServeTLS "'e tls_error" | ListenFailed

text \<open>\<open>can_listen\<close> is whether the gRPC port can be taken; a failure to take the HTTP port is only
  logged, and then no HTTP call comes.  The end of the list of calls is the end of the context.\<close>

definition collector_Run ::
  "(bytes \<Rightarrow> bytes) \<Rightarrow> (bytes \<Rightarrow> bytes \<Rightarrow> 'e + 'cert) \<Rightarrow> bool \<Rightarrow> http_env \<Rightarrow> collector_call list \<Rightarrow> collector \<Rightarrow>
     ('e serve_error option \<times> collector_answer list \<times> collector) option" where
  "collector_Run genv load_pair can_listen he calls c0 =
     (let c = SetReady True c0;
          creds = (if ServerEnabled genv
                   then (case ServerCredentials genv load_pair of Inl err \<Rightarrow> Some err | Inr _ \<Rightarrow> None)
                   else None)
      in case creds of
           Some err \<Rightarrow> Some (Some (ServeTLS err), [], SetReady False c)
         | None \<Rightarrow>
             if \<not> can_listen then Some (Some ListenFailed, [], SetReady False c)
             else do {
               (answers, c') \<leftarrow> serve_all (serve_call he) calls c;
               Some (None, answers, SetReady False c')
             })"

section \<open>The contract\<close>

text \<open>What a call does to the lists and counters, and what is kept.\<close>

definition grows :: "collector \<Rightarrow> collector \<Rightarrow> bool" where
  "grows c c' =
     (prefix (cl_snapshots c) (cl_snapshots c') \<and>
      cl_exported c' + length (cl_snapshots c) = cl_exported c + length (cl_snapshots c') \<and>
      sv_ingested (cl_service c) \<le> sv_ingested (cl_service c') \<and> cl_failures c \<le> cl_failures c' \<and>
      cl_ready c' = cl_ready c \<and> cl_local c' = cl_local c \<and> ex_key (cl_exporter c') = ex_key (cl_exporter c) \<and>
      te_on_snap (sv_triggers (cl_service c')) = te_on_snap (sv_triggers (cl_service c)))"

lemma grows_refl: "grows c c"
  by (simp add: grows_def)

lemma grows_trans: "grows c d \<Longrightarrow> grows d e \<Longrightarrow> grows c e"
  by (auto simp: grows_def intro: prefix_order.trans)

lemma Export_key: "Export c env events graph redact trig e fs = (res, e', fs') \<Longrightarrow> ex_key e' = ex_key e"
  by (auto simp: Export_def Let_def split: if_splits sum.splits)

lemma fire_on_snap: "fire t detail clk e = (e', out) \<Longrightarrow> te_on_snap e' = te_on_snap e"
  by (auto simp: fire_def split: if_splits)

lemma ingestEvent_on_snap:
  "ingestEvent evt n ts sv = Some (sv', out) \<Longrightarrow> te_on_snap (sv_triggers sv') = te_on_snap (sv_triggers sv)"
  by (auto simp: ingestEvent_def Evaluate_def Let_def fire_on_snap split: Option.bind_splits if_splits option.splits)

lemma captureSnapshot_grows:
  assumes "collector_inv c"
  shows "\<exists>c'. captureSnapshot env trig c = Some c' \<and> collector_inv c' \<and> grows c c'"
proof -
  obtain evs' log where sc: "scrub_events (sv_buf (cl_service c)) = Some (evs', log)"
    using scrub_events_ok assms unfolding collector_inv_def by blast
  obtain res e' fs where ex: "Export (ce_codecs env) (ce_export env) evs' (Graph (sv_vector (cl_service c))) log trig
      (prepared_exporter c) (cl_files c) = (res, e', fs)" by (metis surj_pair)
  show ?thesis
    using Export_key [OF ex] assms
    by (cases res)
      (auto simp: captureSnapshot_def Let_def sc prepared_exporter_def [symmetric] ex grows_def collector_inv_def)
qed

lemma captureSnapshot_grows_from:
  assumes "collector_inv c" "grows b c"
  obtains c' where "captureSnapshot env trig c = Some c'" "collector_inv c'" "grows b c'"
  using captureSnapshot_grows [OF assms(1)] grows_trans [OF assms(2)] by blast

lemma collector_ingest_grows:
  assumes "collector_inv c" "event_ok evt"
  shows "\<exists>c'. collector_ingest env evt n ts c = Some c' \<and> collector_inv c' \<and> grows c c'"
proof -
  have "graph_inv (sv_vector (cl_service c))" using assms(1) by (simp add: collector_inv_def)
  with ingestEvent_total [of evt "cl_service c" n ts "[]"] assms(2)
  obtain sv out where sv: "ingestEvent evt n ts (cl_service c) = Some (sv, out)" "graph_inv (sv_vector sv)"
    "sv_buf sv = Add evt n (fst ts) (sv_buf (cl_service c))" "sv_ingested sv = sv_ingested (cl_service c) + 1"
    by (auto simp: event_ok_def)
  let ?c = "c\<lparr>cl_service := sv\<rparr>"
  have inv: "collector_inv ?c" using sv assms by (simp add: collector_inv_def Add_ok)
  have g: "grows c ?c" using sv(4) ingestEvent_on_snap [OF sv(1)] by (simp add: grows_def)
  show ?thesis
  proof (cases out)
    case None
    then show ?thesis using sv(1) inv g by (simp add: collector_ingest_def IngestNative_def)
  next
    case (Some trig)
    obtain c' where "captureSnapshot env trig ?c = Some c'" "collector_inv c'" "grows c c'"
      by (rule captureSnapshot_grows_from [OF inv g])
    then show ?thesis using sv(1) Some by (simp add: collector_ingest_def IngestNative_def)
  qed
qed

lemma TriggerSnapshot_grows:
  assumes "collector_inv c"
  shows "\<exists>resp c'. TriggerSnapshot env detail clk c = Some (resp, c') \<and> collector_inv c' \<and> grows c c'"
proof -
  obtain trg out where man: "Manual detail clk (sv_triggers (cl_service c)) = (trg, out)" by fastforce
  let ?c = "c\<lparr>cl_service := (cl_service c)\<lparr>sv_triggers := trg\<rparr>\<rparr>"
  have c: "collector_inv ?c" "grows c ?c"
    using assms fire_on_snap man by (simp_all add: collector_inv_def grows_def Manual_def)
  show ?thesis
  proof (cases out)
    case None
    then show ?thesis using c by (simp add: TriggerSnapshot_def man Let_def)
  next
    case (Some trig)
    obtain c' where "captureSnapshot env trig ?c = Some c'" "collector_inv c'" "grows c c'"
      by (rule captureSnapshot_grows_from [OF c])
    then show ?thesis using Some by (simp add: TriggerSnapshot_def man Let_def)
  qed
qed

lemma ingest_items_grow:
  "collector_inv c \<Longrightarrow> \<exists>c'. each (ingest_item env n) items c = Some c' \<and> collector_inv c' \<and> grows c c'"
proof (induction items arbitrary: c)
  case Nil
  then show ?case by (simp add: grows_refl)
next
  case (Cons x items)
  obtain item now ts where x: "x = (item, now, ts)" by (rule prod_cases3)
  obtain c1 where c1: "ingest_item env n x c = Some c1" "collector_inv c1" "grows c c1"
    using collector_ingest_grows [OF Cons.prems event_of_item_ok, of env now item n ts] by (auto simp: x ingest_item_def)
  from Cons.IH [OF c1(2)] c1 grows_trans [OF c1(3)] show ?case by auto
qed

lemma serveIngestEvents_grows:
  assumes "collector_inv c"
  shows "\<exists>r c'. serveIngestEvents env meth body unmarshal c = Some (r, c') \<and> collector_inv c' \<and> grows c c'"
proof -
  have id: "\<exists>r c'. Some (x, c) = Some (r, c') \<and> collector_inv c' \<and> grows c c'" for x :: http_reply
    using assms grows_refl by blast
  show ?thesis
  proof (cases "meth = ''POST''")
    case True
    show ?thesis
    proof (cases body)
      case (Inr data)
      show ?thesis
      proof (cases "unmarshal data")
        case (Inr p)
        then show ?thesis
          using True \<open>body = Inr data\<close> ingest_items_grow [OF assms, of env "if fst p = [] then ''local-dev'' else fst p" "snd p"]
          by (cases p) (auto simp: serveIngestEvents_def Let_def)
      qed (use True \<open>body = Inr data\<close> id in \<open>simp add: serveIngestEvents_def\<close>)
    qed (use True id in \<open>simp add: serveIngestEvents_def\<close>)
  qed (use id in \<open>simp add: serveIngestEvents_def\<close>)
qed

lemma serve_trigger_grows:
  assumes "collector_inv c"
  shows "\<exists>r c'. serve_trigger env encode meth detail clk c = Some (r, c') \<and> collector_inv c' \<and> grows c c'"
  using TriggerSnapshot_grows [OF assms, of env "case detail of None \<Rightarrow> [] | Some d \<Rightarrow> d" clk] assms grows_refl
  by (auto simp: serve_trigger_def)

lemma serve_http_grows:
  assumes "collector_inv c"
  shows "\<exists>r c'. serve_http he q c = Some (r, c') \<and> collector_inv c' \<and> grows c c'"
proof -
  have id: "\<exists>r c'. Some (x, c) = Some (r, c') \<and> collector_inv c' \<and> grows c c'" for x :: http_reply
    using assms grows_refl by blast
  show ?thesis
  proof (cases "mux (hc_path q)")
    case (Some r)
    then show ?thesis using id serve_trigger_grows [OF assms] serveIngestEvents_grows [OF assms] by (cases r) (simp_all add: serve_http_def)
  qed (use id in \<open>simp add: serve_http_def\<close>)
qed

lemma serve_call_grows:
  assumes "collector_inv c"
  shows "\<exists>a c'. serve_call he q c = Some (a, c') \<and> collector_inv c' \<and> grows c c'"
proof (cases q)
  case (HttpCall r)
  then show ?thesis using serve_http_grows [OF assms, of he r] by fastforce
next
  case (StreamMessage m ts)
  have "event_ok (ToNative (Some m))" by (simp add: event_ok_def ToNative_wf ToNative_pl_ok)
  from collector_ingest_grows [OF assms this] show ?thesis by (fastforce simp: StreamMessage)
next
  case (GrpcTrigger d clk)
  then show ?thesis using TriggerSnapshot_grows [OF assms, of "he_capture he" d clk] by fastforce
qed (simp add: assms grows_refl)

text \<open>Which answers a call may get while the collector is ready.\<close>

fun answers :: "collector_call \<Rightarrow> collector_answer \<Rightarrow> bool" where
  "answers (HttpCall q) (HttpAnswer r) =
     ((hc_path q = ''/readyz'' \<longrightarrow> r = Status 200 ''ready'') \<and>
      (hc_method q \<noteq> ''POST'' \<and> hc_path q \<in> {''/v1/events'', ''/v1/trigger''} \<longrightarrow> r = method_not_allowed) \<and>
      (mux (hc_path q) = None \<longrightarrow> r = not_found))"
| "answers (StreamMessage m ts) NoAnswerYet = True"
| "answers (GrpcTrigger d clk) (TriggerAnswer resp) = True"
| "answers GrpcList (ListAnswer infos) = True"
| "answers _ _ = False"

lemma answers_HttpCall:
  "answers (HttpCall q) a \<longleftrightarrow> (\<exists>r. a = HttpAnswer r \<and> answers (HttpCall q) (HttpAnswer r))"
  by (cases a) auto

lemma serve_call_answers:
  assumes "serve_call he q c = Some (a, c')" "cl_ready c"
  shows "answers q a"
proof (cases q)
  case (HttpCall r)
  with assms show ?thesis
    by (auto simp: serve_http_def serve_readyz_def mux_def serveIngestEvents_def serve_trigger_def split: if_splits)
qed (use assms in auto)

interpretation collector_server: call_server "serve_call he" "\<lambda>_. True" "\<lambda>c. collector_inv c \<and> cl_ready c" grows answers for he
proof
  show "\<exists>a c'. serve_call he q c = Some (a, c') \<and> (collector_inv c' \<and> cl_ready c') \<and> grows c c' \<and> answers q a"
    if "collector_inv c \<and> cl_ready c" for c q
    using that serve_call_grows [of c he q] serve_call_answers [of he q c] by (fastforce simp: grows_def)
qed (auto intro: grows_refl grows_trans)

section \<open>The messages of a stream\<close>

text \<open>Served one by one, the messages of a stream leave the service as the stream loop of the ingest
  component does, with a snapshot attempted for each trigger.\<close>

lemma captureSnapshot_service: "captureSnapshot env trig c = Some c' \<Longrightarrow> cl_service c' = cl_service c"
  by (auto simp: captureSnapshot_def Let_def split: Option.bind_splits sum.splits prod.splits)

lemma stream_messages_service:
  assumes "serve_all (serve_call he) (map (\<lambda>(m, ts). StreamMessage m ts) ms) c = Some (as, c')"
  shows "\<exists>outs. StreamEvents (map (\<lambda>(m, ts). (Msg m, ts)) ms) (cl_service c) = Some (cl_service c', outs, Open)"
  using assms
proof (induction ms arbitrary: c as)
  case (Cons x ms)
  obtain m ts where x: "x = (m, ts)" by (cases x)
  obtain c1 as1 where c1: "collector_ingest (he_capture he) (ToNative (Some m)) (pb_node_id m) ts c = Some c1"
    and rest: "serve_all (serve_call he) (map (\<lambda>(m, ts). StreamMessage m ts) ms) c1 = Some (as1, c')"
    using Cons.prems by (auto simp: x split: Option.bind_splits)
  obtain sv out where sv: "ingestEvent (ToNative (Some m)) (pb_node_id m) ts (cl_service c) = Some (sv, out)"
    and "cl_service c1 = sv"
    using c1 captureSnapshot_service
    by (fastforce simp: collector_ingest_def IngestNative_def split: Option.bind_splits option.splits)
  with Cons.IH [OF rest] show ?case by (auto simp: x)
qed simp

section \<open>Properties\<close>

text \<open>C8: The collector survives every use.  Whatever calls reach it, over HTTP or gRPC and in whatever
  order the streams and requests interleave, a run that starts serves them all without a panic;
  the graph stays closed and the buffer well formed, snapshots are only added to the list, one for
  each successful export, and the key and the hooks are never changed.  While it runs it is ready, and
  afterwards it is not; when it cannot start it has changed nothing.\<close>

theorem collector_serves_every_call:
  assumes "collector_inv c"
  shows "\<exists>err as c'. collector_Run genv load_pair can_listen he calls c = Some (err, as, c') \<and>
    collector_inv c' \<and> \<not> cl_ready c' \<and> grows (SetReady False c) c' \<and>
    (err = None \<longrightarrow> list_all2 answers calls as) \<and> (err \<noteq> None \<longrightarrow> as = [] \<and> c' = SetReady False c)"
proof -
  have r: "collector_inv (SetReady b c)" for b using assms by (simp add: collector_inv_def SetReady_def)
  obtain as c' where run: "serve_all (serve_call he) calls (SetReady True c) = Some (as, c')"
    "collector_inv c'" "grows (SetReady True c) c'" "list_all2 answers calls as"
    using collector_server.serves_all [where s = "SetReady True c" and qs = calls and he = he] r by (auto simp: SetReady_def list_all_iff)
  have "collector_inv (SetReady False c')" "grows (SetReady False c) (SetReady False c')" "\<not> cl_ready (SetReady False c')"
    using run(2,3) by (simp_all add: collector_inv_def SetReady_def grows_def)
  moreover have "SetReady False (SetReady True c) = SetReady False c" by (simp add: SetReady_def)
  ultimately show ?thesis
    using run(1,4) r grows_refl by (auto simp: collector_Run_def Let_def SetReady_def split: sum.split)
qed

definition demo_http :: http_env where
  "demo_http = \<lparr>he_capture = demo_env,
     he_events = (\<lambda>_. Inr ([], [\<lparr>it_timestamp = 0, it_fd = 1, it_is_write = 0, it_comm = [], it_payload = replicate 5000 NUL\<rparr>])),
     he_detail = Some, he_trigger = tr_id, he_list = (\<lambda>infos. concat (map si_id infos))\<rparr>"

definition call_of :: "bytes \<Rightarrow> bytes \<Rightarrow> http_call" where
  "call_of meth path = \<lparr>hc_method = meth, hc_path = path, hc_host = ''h'', hc_body = Inr [],
     hc_clock = (\<lambda>_. (0, 0, 0, 0)), hc_trigger_clock = (0, 0)\<rparr>"

lemma collector_serves_every_call_witness:
  "\<exists>a1 a2 c'. collector_Run (\<lambda>_. []) (\<lambda>_ _. Inr ()) True demo_http
      [HttpCall (call_of ''POST'' ''/v1/events''), GrpcTrigger ''why'' (0, 0), HttpCall (call_of ''GET'' ''/readyz'')] demo_collector =
    Some (None :: unit serve_error option, [a1, a2, HttpAnswer (Status 200 ''ready'')], c') \<and> collector_inv c'"
proof -
  let ?calls = "[HttpCall (call_of ''POST'' ''/v1/events''), GrpcTrigger ''why'' (0, 0), HttpCall (call_of ''GET'' ''/readyz'')]"
  obtain err as c' where run: "collector_Run (\<lambda>_. []) (\<lambda>_ _. Inr () :: unit + unit) True demo_http ?calls demo_collector = Some (err, as, c')"
    "collector_inv c'" and ok: "err = None \<longrightarrow> list_all2 answers ?calls as"
    using collector_serves_every_call [OF demo_collector_inv] by blast
  have err: "err = None" using run(1) by (auto simp: collector_Run_def ServerEnabled_def Let_def split: Option.bind_splits)
  with ok obtain a1 a2 a3 where as: "as = [a1, a2, a3]" "answers (HttpCall (call_of ''GET'' ''/readyz'')) a3"
    by (auto simp: list_all2_Cons1)
  then have "a3 = HttpAnswer (Status 200 ''ready'')" by (subst (asm) answers_HttpCall) (auto simp: call_of_def)
  then show ?thesis using run err as by blast
qed

end
