(* ===== verification/Object_Storage.thy ===== *)
theory Object_Storage
  imports Collector
begin

text \<open>
  The object stores that keep uploaded snapshots (dre-collector/internal/storage/s3.go and gcs.go).
  A store maps a bucket and a key to contents; the clients' libraries are the store itself, the
  success of a call, and the signing of URLs.
\<close>

section \<open>The uploaders\<close>

type_synonym objects = "bytes \<times> bytes \<Rightarrow> bytes option"

definition trimIncidentKey :: "bytes \<Rightarrow> bytes" where
  "trimIncidentKey key = trim_suffix (trim_prefix key ''incident-'') ''.dre''"

text \<open>What the S3 client is made with: static credentials only when a key is in the environment, and
  path-style addresses for an endpoint of one's own.\<close>

record s3_options =
  so_region :: bytes
  so_endpoint :: "bytes option"
  so_credentials :: "(bytes \<times> bytes \<times> bytes) option"
  so_path_style :: bool

record uploader =
  up_bucket :: bytes
  up_prefix :: bytes

definition s3_options_of :: "(bytes \<Rightarrow> bytes) \<Rightarrow> storage_config \<Rightarrow> s3_options" where
  "s3_options_of genv cfg =
     \<lparr>so_region = sc_s3_region cfg,
      so_endpoint = (if sc_s3_endpoint cfg \<noteq> [] then Some (sc_s3_endpoint cfg) else None),
      so_credentials = (let osAccessKey = genv ''AWS_ACCESS_KEY_ID''
         in if osAccessKey \<noteq> [] then Some (osAccessKey, genv ''AWS_SECRET_ACCESS_KEY'', genv ''AWS_SESSION_TOKEN'') else None),
      so_path_style = (sc_s3_endpoint cfg \<noteq> [])\<rparr>"

definition newS3 :: "(bytes \<Rightarrow> bytes) \<Rightarrow> (s3_options \<Rightarrow> 'e option) \<Rightarrow> storage_config \<Rightarrow> 'e + uploader" where
  "newS3 genv load cfg =
     (case load (s3_options_of genv cfg) of
        Some err \<Rightarrow> Inl err
      | None \<Rightarrow> Inr \<lparr>up_bucket = sc_s3_bucket cfg, up_prefix = sc_s3_prefix cfg\<rparr>)"

definition newGCS :: "'e option \<Rightarrow> storage_config \<Rightarrow> 'e + uploader" where
  "newGCS client_error cfg =
     (case client_error of
        Some err \<Rightarrow> Inl err
      | None \<Rightarrow> Inr \<lparr>up_bucket = sc_gcs_bucket cfg, up_prefix = sc_gcs_prefix cfg\<rparr>)"

definition full_key :: "uploader \<Rightarrow> bytes \<Rightarrow> bytes" where
  "full_key u key = ObjectKey (up_prefix u) (trimIncidentKey key)"

definition s3_Upload :: "bool \<Rightarrow> uploader \<Rightarrow> bytes \<Rightarrow> bytes \<Rightarrow> objects \<Rightarrow> bytes option \<times> objects" where
  "s3_Upload put_ok u key data s =
     (let fullKey = full_key u key
      in if \<not> put_ok then (None, s)
         else (Some (''s3://'' @ up_bucket u @ ''/'' @ fullKey), s((up_bucket u, fullKey) \<mapsto> data)))"

text \<open>A writer of the other store makes the object when it is closed.\<close>

definition gcs_Upload :: "bool \<Rightarrow> bool \<Rightarrow> uploader \<Rightarrow> bytes \<Rightarrow> bytes \<Rightarrow> objects \<Rightarrow> bytes option \<times> objects" where
  "gcs_Upload write_ok close_ok u key data s =
     (let fullKey = full_key u key
      in if \<not> write_ok then (None, s)
         else if \<not> close_ok then (None, s)
         else (Some (''gs://'' @ up_bucket u @ ''/'' @ fullKey), s((up_bucket u, fullKey) \<mapsto> data)))"

text \<open>\<open>sign\<close> is the library's signing of a request for an object.\<close>

definition s3_PresignGet :: "(bytes \<times> bytes \<Rightarrow> bytes option) \<Rightarrow> uploader \<Rightarrow> bytes \<Rightarrow> bytes option" where
  "s3_PresignGet sign u key = (case sign (up_bucket u, full_key u key) of None \<Rightarrow> None | Some url \<Rightarrow> Some url)"

definition gcs_PresignGet :: "(bytes \<times> bytes \<Rightarrow> bytes option) \<Rightarrow> uploader \<Rightarrow> bytes \<Rightarrow> bytes option" where
  "gcs_PresignGet sign u key = sign (up_bucket u, full_key u key)"

section \<open>The interface\<close>

text \<open>What both stores promise: an upload that succeeds names its object and leaves the others, one
  that fails changes nothing.  \<open>place\<close> is where the object of a snapshot is.\<close>

fun upload_all :: "('k \<Rightarrow> bytes \<Rightarrow> objects \<Rightarrow> bytes option \<times> objects) \<Rightarrow> ('k \<times> bytes) list \<Rightarrow> objects \<Rightarrow> bytes option list \<times> objects" where
  "upload_all upload [] s = ([], s)"
| "upload_all upload ((k, data) # ups) s =
     (case upload k data s of (r, s1) \<Rightarrow> (case upload_all upload ups s1 of (rs, s2) \<Rightarrow> (r # rs, s2)))"

locale object_store =
  fixes upload :: "'k \<Rightarrow> bytes \<Rightarrow> objects \<Rightarrow> bytes option \<times> objects"
    and place :: "'k \<Rightarrow> bytes \<times> bytes" and address :: "'k \<Rightarrow> bytes"
  assumes upload_ok: "upload k data s = (Some uri, s') \<Longrightarrow> s' = s(place k \<mapsto> data) \<and> uri = address k"
    and upload_failed: "upload k data s = (None, s') \<Longrightarrow> s' = s"
begin

lemma upload_all_other:
  "upload_all upload ups s = (rs, s') \<Longrightarrow> p \<notin> place ` fst ` set ups \<Longrightarrow> s' p = s p"
proof (induction ups arbitrary: s rs)
  case (Cons x ups)
  obtain k data where x: "x = (k, data)" by (cases x)
  obtain r s1 where r: "upload k data s = (r, s1)" by fastforce
  then obtain rs' where rest: "upload_all upload ups s1 = (rs', s')" using Cons.prems(1) by (auto simp: x split: prod.splits)
  have "s1 p = s p"
  proof (cases r)
    case None
    then show ?thesis using upload_failed r by blast
  next
    case (Some uri)
    then have "s1 = s(place k \<mapsto> data)" using upload_ok r by blast
    then show ?thesis using Cons.prems(2) by (simp add: x)
  qed
  with Cons.IH [OF rest] Cons.prems(2) show ?case by simp
qed simp

lemma upload_all_kept:
  assumes "upload_all upload ups s = (rs, s')" "distinct (map (place \<circ> fst) ups)" "i < length ups" "rs ! i = Some uri"
  shows "s' (place (fst (ups ! i))) = Some (snd (ups ! i)) \<and> uri = address (fst (ups ! i))"
  using assms
proof (induction ups arbitrary: s rs i)
  case (Cons x ups)
  obtain k data where x: "x = (k, data)" by (cases x)
  obtain r s1 where r: "upload k data s = (r, s1)" by fastforce
  then obtain rs' where rest: "upload_all upload ups s1 = (rs', s')" "rs = r # rs'"
    using Cons.prems(1) by (auto simp: x split: prod.splits)
  show ?case
  proof (cases i)
    case 0
    then have "s1 = s(place k \<mapsto> data)" "uri = address k" using upload_ok [of k data s uri s1] r rest(2) Cons.prems(4) by simp_all
    moreover have "place k \<notin> place ` fst ` set ups" using Cons.prems(2) by (force simp: x)
    ultimately show ?thesis using upload_all_other [OF rest(1), of "place k"] 0 by (simp add: x)
  next
    case (Suc j)
    then show ?thesis using Cons.IH [OF rest(1), of j] Cons.prems rest(2) by (simp add: x)
  qed
qed simp

end

definition place_of :: "uploader \<Rightarrow> bytes \<Rightarrow> bytes \<times> bytes" where
  "place_of u key = (up_bucket u, full_key u key)"

definition address_of :: "bytes \<Rightarrow> uploader \<Rightarrow> bytes \<Rightarrow> bytes" where
  "address_of scheme u key = scheme @ ''://'' @ up_bucket u @ ''/'' @ full_key u key"

interpretation s3: object_store "\<lambda>(put_ok, key). s3_Upload put_ok u key" "\<lambda>(put_ok, key). place_of u key"
  "\<lambda>(put_ok, key). address_of ''s3'' u key" for u
  by unfold_locales (auto simp: s3_Upload_def Let_def place_of_def address_of_def split: if_splits)

interpretation gcs: object_store "\<lambda>(write_ok, close_ok, key). gcs_Upload write_ok close_ok u key"
  "\<lambda>(write_ok, close_ok, key). place_of u key" "\<lambda>(write_ok, close_ok, key). address_of ''gs'' u key" for u
  by unfold_locales (auto simp: gcs_Upload_def Let_def place_of_def address_of_def split: if_splits)

section \<open>Keys\<close>

lemma ObjectKey_inject: "ObjectKey prfx a = ObjectKey prfx b \<longleftrightarrow> a = b"
  by (simp add: ObjectKey_def Let_def)

text \<open>An identifier that is not itself written like a file name keeps its name.\<close>

definition plain_id :: "bytes \<Rightarrow> bool" where
  "plain_id i = (\<not> has_prefix i ''incident-'' \<and> \<not> has_suffix i ''.dre'')"

lemma plain_id_kept: "plain_id i \<Longrightarrow> trimIncidentKey i = i"
  by (simp add: plain_id_def trimIncidentKey_def trim_prefix_def trim_suffix_def has_prefix_def)

lemma place_of_inject: "plain_id i \<Longrightarrow> plain_id j \<Longrightarrow> place_of u i = place_of u j \<longleftrightarrow> i = j"
  by (simp add: place_of_def full_key_def ObjectKey_inject plain_id_kept)

section \<open>Properties\<close>



end
