(* ===== verification/Snapshot_Download.thy ===== *)
theory Snapshot_Download
  imports Collector_Server Object_Storage Tool_Commands
begin

text \<open>
  From an incident to the developer's disk: the collector takes a snapshot, lists it, and serves it to
  \<^verbatim>\<open>dre-cli download\<close>, whose file is then opened by the replay tool.  The network between the two
  programs is \<open>http_fetch\<close>: a GET of a URL below the collector's base address is the call of the
  collector's handler for the rest of the URL, with the file of a \<^verbatim>\<open>http.ServeFile\<close> as the body; every other URL
  (the object store) is an input.
\<close>

section \<open>The network\<close>

definition get_call :: "bytes \<Rightarrow> bytes \<Rightarrow> http_call" where
  "get_call host path =
     \<lparr>hc_method = ''GET'', hc_path = path, hc_host = host, hc_body = Inr [], hc_clock = (\<lambda>_. (0, 0, 0, 0)),
      hc_trigger_clock = (0, 0)\<rparr>"

definition http_fetch ::
  "http_env \<Rightarrow> (bytes \<Rightarrow> (nat \<times> bytes option) option) \<Rightarrow> bytes \<Rightarrow> bytes \<Rightarrow> collector \<Rightarrow> bytes \<Rightarrow> (nat \<times> bytes option) option" where
  "http_fetch he elsewhere base host c url =
     (if has_prefix url base then
        (case serve_http he (get_call host (drop (length base) url)) c of
           None \<Rightarrow> None
         | Some (reply, _) \<Rightarrow>
             (case reply of
                Status st body \<Rightarrow> Some (st, Some body)
              | Redirect target \<Rightarrow> elsewhere target
              | ServeFile path \<Rightarrow>
                  (case cl_files c path of
                     None \<Rightarrow> Some (404, Some (''404 page not found'' @ [LF]))
                   | Some data \<Rightarrow> Some (200, Some data))))
      else elsewhere url)"

section \<open>Lemmas\<close>

lemma fetch_list:
  "http_fetch he elsewhere base host c (base @ ''/v1/snapshots'') = Some (200, Some (he_list he (cl_snapshots c)))"
  by (simp add: http_fetch_def has_prefix_def serve_http_def get_call_def mux_def ListSnapshots_def)

text \<open>The canonical URL of a snapshot leads to its file, in the collector or in the object store.\<close>

lemma fetch_download:
  assumes "find (\<lambda>s. si_id s = ident) (cl_snapshots c) = Some info" "ident \<noteq> []" "\<not> has_suffix ident ''/''"
    and "si_path info \<noteq> []" "cl_files c (si_path info) = Some data"
    and "si_download_url info \<noteq> [] \<and> \<not> contains (si_download_url info) host \<longrightarrow>
      elsewhere (si_download_url info) = Some (200, Some data)"
  shows "http_fetch he elsewhere base host c (base @ ''/v1/snapshots/'' @ ident @ ''/download'') = Some (200, Some data)"
proof -
  have "serveSnapshotDownload ''GET'' (''/v1/snapshots/'' @ ident @ ''/download'') host c =
      (if si_download_url info \<noteq> [] \<and> has_prefix (si_download_url info) ''http'' \<and> \<not> contains (si_download_url info) host
       then Redirect (si_download_url info) else ServeFile (si_path info))"
    using download_serves_listed_snapshots [of ident host c, THEN conjunct1] assms(1-4) by simp
  then show ?thesis
    using assms(5,6) by (simp add: http_fetch_def has_prefix_def serve_http_def get_call_def mux_def)
qed

lemma download_flags_of:
  "parse_flags (download_flags genv) [''--id'', ident] = Inr (update_flag ''id'' (StrFlag ident) (download_flags genv), [])"
  "parse_flags (download_flags genv) [] = Inr (download_flags genv, [])"
  using parse_string_flag [of "''id''" "download_flags genv" "[]" ident "[]"]
  by (simp_all add: proper_name_def download_flags_def)

text \<open>What the client writes, when the list is decoded to what the collector listed.\<close>

lemma runDownload_writes:
  assumes "cli_envOr genv ''DRE_COLLECTOR_HTTP'' ''http://localhost:8080'' = base" "\<not> has_suffix base ''/''"
    and "decode (Some (he_list he (cl_snapshots c))) = Some (cl_snapshots c)"
    and "find (\<lambda>s. si_id s = ident) (cl_snapshots c) = Some info" "ident \<noteq> []" "\<not> has_suffix ident ''/''"
    and "si_path info \<noteq> []" "cl_files c (si_path info) = Some data"
    and "si_download_url info \<noteq> [] \<longrightarrow> http_fetch he elsewhere base host c (si_download_url info) = Some (200, Some data)"
    and "can_write (''incident-'' @ ident @ ''.dre'')"
    and "args = [''--id'', ident] \<or> args = [] \<and> ident = si_id (last (cl_snapshots c))"
  shows "runDownload genv (http_fetch he elsewhere base host c) decode can_write args =
    Inr (''incident-'' @ ident @ ''.dre'', data)"
proof -
  have ne: "cl_snapshots c \<noteq> []" and id: "si_id info = ident" using assms(4) by (auto simp: find_Some_iff)
  have base: "trim_right base ''/'' = base"
    using assms(2) by (cases base rule: rev_cases) (auto simp: trim_right_def has_suffix_def)
  have canonical: "si_download_url info = [] \<Longrightarrow>
      http_fetch he elsewhere base host c (base @ ''/v1/snapshots/'' @ ident @ ''/download'') = Some (200, Some data)"
    by (rule fetch_download [OF assms(4-8)]) simp
  obtain fl where fl: "parse_flags (download_flags genv) args = Inr (fl, [])" "flag_str fl ''collector'' = base"
    "flag_str fl ''out'' = []" "(if flag_str fl ''id'' = [] then si_id (last (cl_snapshots c)) else flag_str fl ''id'') = ident"
    using assms(11)
  proof
    assume a: "args = [''--id'', ident]"
    show thesis
      by (rule that [of "update_flag ''id'' (StrFlag ident) (download_flags genv)"])
        (simp_all only: a download_flags_of, simp_all add: flag_str_def map_of_update_flag download_flags_def assms(1,5))
  next
    assume a: "args = [] \<and> ident = si_id (last (cl_snapshots c))"
    show thesis
      by (rule that [of "download_flags genv"])
        (simp_all add: a download_flags_of flag_str_def download_flags_def assms(1))
  qed
  have len: "length (cl_snapshots c) \<noteq> 0" using ne by simp
  show ?thesis
    unfolding runDownload_def fl(1) sum.case prod.case fl(2-4) fetch_list Let_def option.case assms(3) if_not_P [OF len] assms(4) id base
    using assms(9,10) canonical by auto
qed

text \<open>A snapshot in the list is what a client downloads.\<close>

lemma snapshot_downloaded:
  assumes "codec_laws (ce_codecs env)" "ev_random (ce_export env) = Some nonce" "length nonce = NonceSize"
    and "collector_inv c" "lh_snapshot_dir (cl_local c) = []" "ce_storage env = None"
    and "captureSnapshot env trig c = Some c'" "cl_snapshots c' = cl_snapshots c @ [info]"
    and "ev_uuid (ce_export env) = uuid" "uuid \<notin> si_id ` set (cl_snapshots c)" "uuid \<noteq> []" "\<not> has_suffix uuid ''/''"
    and "cli_envOr genv ''DRE_COLLECTOR_HTTP'' ''http://localhost:8080'' = base" "\<not> has_suffix base ''/''" "contains base host"
    and "cl_http_base c = [] \<or> cl_http_base c = base"
    and "decode (Some (he_list he (cl_snapshots c'))) = Some (cl_snapshots c')"
    and "can_write (''incident-'' @ uuid @ ''.dre'')"
  shows "\<exists>data snap. runDownload genv (http_fetch he elsewhere base host c') decode can_write [] =
      Inr (''incident-'' @ uuid @ ''.dre'', data) \<and>
    OpenFile (ce_codecs env) (disk(''incident-'' @ uuid @ ''.dre'' \<mapsto> data)) (''incident-'' @ uuid @ ''.dre'')
      (ex_key (cl_exporter c)) = Inr snap \<and>
    list_all2 scrubbed_event (map be_event (sv_buf (cl_service c))) (snap_events snap) \<and>
    (\<forall>e \<in> set (snap_events snap). \<not> has_secret (payload_of e))"
proof (rule captured_snapshot [OF assms(1-4,7,8)])
  fix snap fs evs
  let ?dest = "''incident-'' @ uuid @ ''.dre''"
  assume open_file: "OpenFile (ce_codecs env) fs (si_path info) (ex_key (cl_exporter c)) = Inr snap"
    and files: "cl_files c' = postProcessSnapshot (ce_can_write env) (cl_local c) (si_path info) evs fs"
    and events: "list_all2 scrubbed_event (map be_event (sv_buf (cl_service c))) (snap_events snap)"
      "\<forall>e \<in> set (snap_events snap). \<not> has_secret (payload_of e)"
    and id: "si_id info = ev_uuid (ce_export env)"
    and path: "si_path info = path_join [ex_dir (cl_exporter c), incident_name (ev_uuid (ce_export env))]"
    and url: "ce_storage env = None \<Longrightarrow> si_download_url info = (if cl_http_base c = [] then []
       else trim_right (cl_http_base c) ''/'' @ ''/v1/snapshots/'' @ ev_uuid (ce_export env) @ ''/download'')"
  have fs: "cl_files c' = fs" using files assms(5) by (simp add: postProcessSnapshot_def)
  obtain data where data: "fs (si_path info) = Some data" using open_file by (cases "fs (si_path info)") (auto simp: OpenFile_def)
  have found: "find (\<lambda>s. si_id s = uuid) (cl_snapshots c') = Some info"
  proof -
    have "find (\<lambda>s. si_id s = uuid) (cl_snapshots c) = None" using assms(10) by (auto simp: find_None_iff)
    then show ?thesis by (simp add: assms(8) find_append id assms(9))
  qed
  have ne: "si_path info \<noteq> []" unfolding path by (rule path_join_nonempty) (simp add: incident_name_def)
  have base: "trim_right base ''/'' = base"
    using assms(14) by (cases base rule: rev_cases) (auto simp: trim_right_def has_suffix_def)
  have own: "si_download_url info = [] \<or> si_download_url info = base @ ''/v1/snapshots/'' @ uuid @ ''/download''"
    using url [OF assms(6)] assms(9,16) base by auto
  have "contains (base @ rest) host" for rest
    using assms(15) by (auto simp: contains_iff sublist_appendI intro: sublist_order.order_trans)
  with own have fetch: "si_download_url info \<noteq> [] \<longrightarrow>
      http_fetch he elsewhere base host c' (si_download_url info) = Some (200, Some data)"
    using fetch_download [OF found assms(11,12) ne, of data host elsewhere he base] data fs by auto
  have run: "runDownload genv (http_fetch he elsewhere base host c') decode can_write [] = Inr (?dest, data)"
  proof (rule runDownload_writes [where info = info])
    show "cl_files c' (si_path info) = Some data" by (simp add: fs data)
    show "[] = [''--id'', uuid] \<or> [] = [] \<and> uuid = si_id (last (cl_snapshots c'))" by (simp add: assms(8,9) id)
  qed (fact assms(11-14,17,18) found ne fetch)+
  have "OpenFile (ce_codecs env) (disk(?dest \<mapsto> data)) ?dest (ex_key (cl_exporter c)) = Inr snap"
    using OpenFile_cong [of "disk(?dest \<mapsto> data)" ?dest fs "si_path info"] data open_file by simp
  with run events show ?thesis by blast
qed

section \<open>Properties\<close>

text \<open>C6: An incident reaches the developer.  After the collector has taken a snapshot, \<^verbatim>\<open>dre-cli
  download\<close> without arguments writes it to the disk under its identifier, and the replay tool
  opens that file with the collector's key: it holds the events the collector had buffered, in
  order, unchanged but for the payloads, in which no redaction rule matches any more.\<close>

theorem incident_reaches_the_developer:
  assumes "codec_laws (ce_codecs env)" "ev_random (ce_export env) = Some nonce" "length nonce = NonceSize"
    and "collector_inv c" "lh_snapshot_dir (cl_local c) = []" "ce_storage env = None"
    and "captureSnapshot env trig c = Some c'" "cl_snapshots c' = cl_snapshots c @ [info]"
    and "ev_uuid (ce_export env) = uuid" "uuid \<notin> si_id ` set (cl_snapshots c)" "uuid \<noteq> []" "\<not> has_suffix uuid ''/''"
    and "cli_envOr genv ''DRE_COLLECTOR_HTTP'' ''http://localhost:8080'' = base" "\<not> has_suffix base ''/''" "contains base host"
    and "cl_http_base c = [] \<or> cl_http_base c = base"
    and "decode (Some (he_list he (cl_snapshots c'))) = Some (cl_snapshots c')"
    and "can_write (''incident-'' @ uuid @ ''.dre'')"
  shows "\<exists>data snap. runDownload genv (http_fetch he elsewhere base host c') decode can_write [] =
      Inr (''incident-'' @ uuid @ ''.dre'', data) \<and>
    OpenFile (ce_codecs env) (disk(''incident-'' @ uuid @ ''.dre'' \<mapsto> data)) (''incident-'' @ uuid @ ''.dre'')
      (ex_key (cl_exporter c)) = Inr snap \<and>
    list_all2 scrubbed_event (map be_event (sv_buf (cl_service c))) (snap_events snap) \<and>
    (\<forall>e \<in> set (snap_events snap). \<not> has_secret (payload_of e))"
  by (rule snapshot_downloaded) (fact assms)+

lemma incident_reaches_the_developer_witness:
  "\<exists>c' data snap. captureSnapshot demo_env \<lparr>trig_type = TriggerManual, trig_detail = []\<rparr> demo_collector = Some c' \<and>
     runDownload (\<lambda>_. []) (http_fetch demo_http (\<lambda>_. None) ''http://localhost:8080'' ''localhost:8080'' c')
       (\<lambda>_. Some (cl_snapshots c')) (\<lambda>_. True) [] = Inr (''incident-1.dre'', data) \<and>
     OpenFile plain_codecs [''incident-1.dre'' \<mapsto> data] ''incident-1.dre'' ''k'' = Inr snap \<and> snap_events snap = []"
proof -
  let ?t = "\<lparr>trig_type = TriggerManual, trig_detail = []\<rparr>" and ?base = "''http://localhost:8080''"
  have c: "cl_snapshots demo_collector = []" "lh_snapshot_dir (cl_local demo_collector) = []"
    "cl_http_base demo_collector = []" "ex_key (cl_exporter demo_collector) = ''k''" "sv_buf (cl_service demo_collector) = []"
    by (simp_all add: demo_collector_def collector_New_def Let_def no_hooks_def exporter_New_def envOr_def)
  have env: "ce_codecs demo_env = plain_codecs" "ce_storage demo_env = None" "ev_uuid (ce_export demo_env) = ''1''"
    "ev_random (ce_export demo_env) = Some (replicate NonceSize NUL)" "length (replicate NonceSize NUL) = NonceSize"
    by (simp_all add: demo_env_def)
  have laws: "codec_laws (ce_codecs demo_env)" unfolding env(1) by (rule plain_codecs_laws)
  obtain c' info where run: "captureSnapshot demo_env ?t demo_collector = Some c'" "cl_snapshots c' = cl_snapshots demo_collector @ [info]"
    using demo_capture [OF demo_collector_inv, of ?t] by blast
  have id: "''1'' \<notin> si_id ` set (cl_snapshots demo_collector)" "''1'' \<noteq> []" "\<not> has_suffix ''1'' ''/''"
    by (simp_all add: c(1) has_suffix_def)
  have base: "cli_envOr (\<lambda>_. []) ''DRE_COLLECTOR_HTTP'' ''http://localhost:8080'' = ?base" "\<not> has_suffix ?base ''/''"
    "contains ?base ''localhost:8080''" "cl_http_base demo_collector = [] \<or> cl_http_base demo_collector = ?base"
    by (simp_all add: cli_envOr_def has_suffix_def contains_iff sublist_code c(3))
  from incident_reaches_the_developer [OF laws env(4,5) demo_collector_inv c(2) env(2) run env(3) id base,
      of "\<lambda>_. Some (cl_snapshots c')" demo_http "\<lambda>_. True" "\<lambda>_. None" Map.empty] run(1)
  show ?thesis by (auto simp: c env(1))
qed

end
