(* ===== verification/Sample_To_Disk.thy ===== *)
theory Sample_To_Disk
  imports Snapshot_Download
begin

text \<open>
  The whole way of a failure, from the samples of the kernel on several nodes to a file on the
  developer's disk: the agents' loops and forwarders (\<open>Agent_Forward\<close>), the calls that the collector serves
  (\<open>Collector_Server\<close>), the trigger, the export, and the download (\<open>Snapshot_Download\<close>).  The streams of
  the agents reach the collector interleaved: \<open>arr\<close> is the order of arrival, each event with its node
  and the collector's clock readings.
\<close>

section \<open>Streams\<close>

definition sampled :: "ioevent \<Rightarrow> bool" where
  "sampled e = (wf_event e \<and> pl_ok e \<and> zero_tail e \<and> IsWrite e = 0)"

definition messages :: "(ioevent \<times> bytes \<times> stamps) list \<Rightarrow> (pb_event \<times> stamps) list" where
  "messages arr = map (\<lambda>(e, node, ts). (IOEventFromNative e node, ts)) arr"

definition stream_calls :: "(pb_event \<times> stamps) list \<Rightarrow> collector_call list" where
  "stream_calls ms = map (\<lambda>(m, ts). StreamMessage m ts) ms"

definition arrivals :: "(ioevent \<times> bytes \<times> stamps) list \<Rightarrow> arrival list" where
  "arrivals arr = map (\<lambda>(e, node, ts). (e, node, fst ts)) arr"

text \<open>The events of one node, and the messages that carry its name.\<close>

definition events_of :: "bytes \<Rightarrow> (ioevent \<times> bytes \<times> stamps) list \<Rightarrow> ioevent list" where
  "events_of node arr = map fst (filter (\<lambda>(e, n, ts). n = node) arr)"

definition messages_of :: "bytes \<Rightarrow> (pb_event \<times> stamps) list \<Rightarrow> pb_event list" where
  "messages_of node ms = filter (\<lambda>m. pb_node_id m = node) (map fst ms)"

text \<open>An agent on \<open>node\<close> whose ring buffer holds \<open>es\<close> sends \<open>ms\<close>.\<close>

definition agent_sends :: "client \<Rightarrow> ioevent list \<Rightarrow> pb_event list \<Rightarrow> bool" where
  "agent_sends cl es ms =
     (\<exists>rs. loader_Run True (map (Sample \<circ> Encode) es) run_start = (rs, False) \<and>
       RunForwarder (\<lambda>c. (None :: unit option, c)) [True] (map (\<lambda>e. FwdEvent e True) (rs_out rs)) cl = Some ([ms], cl, False))"

section \<open>Lemmas\<close>

lemma messages_of_events:
  "messages_of node (messages arr) = map (\<lambda>e. IOEventFromNative e node) (events_of node arr)"
  by (induction arr) (auto simp: messages_of_def messages_def events_of_def IOEventFromNative_def Let_def)

lemma agents_send_the_stream:
  assumes "list_all (\<lambda>(e, node, ts). sampled e) arr"
  shows "agent_sends cl (events_of (fc_node cl) arr) (messages_of (fc_node cl) (messages arr))"
proof -
  have "list_all (\<lambda>e. wf_event e \<and> IsWrite e = 0) (events_of (fc_node cl) arr)"
    using assms by (auto simp: events_of_def sampled_def list_all_iff)
  from reads_become_messages [OF this, of cl] show ?thesis
    unfolding agent_sends_def messages_of_events by auto
qed

lemma sampled_native: "sampled e \<Longrightarrow> ToNative (Some (IOEventFromNative e node)) = e"
  by (simp add: sampled_def message_keeps_event)

lemma node_of_message: "pb_node_id (IOEventFromNative e node) = node"
  by (simp add: IOEventFromNative_def Let_def)

lemma received_all: "received (map (\<lambda>(m, ts). (Msg m, ts)) ms) = ms"
  by (induction ms) auto

lemma arrivals_received:
  "list_all (\<lambda>(e, node, ts). sampled e) arr \<Longrightarrow> map arrival_of (messages arr) = arrivals arr"
  by (induction arr) (auto simp: messages_def arrivals_def arrival_of_def sampled_native node_of_message)

text \<open>What a stream leaves in the collector, whatever snapshots it triggers on the way.\<close>

lemma stream_served:
  assumes "collector_inv c" "cl_ready c" "list_all (\<lambda>(e, node, ts). sampled e) arr"
    and "serve_all (serve_call he) (stream_calls (messages arr)) c = Some (as, c')"
  shows "collector_inv c'" "grows c c'" "sv_buf (cl_service c') = Add_all (arrivals arr) (sv_buf (cl_service c))"
proof -
  obtain as2 c2 where "serve_all (serve_call he) (stream_calls (messages arr)) c = Some (as2, c2)"
    "collector_inv c2" "grows c c2"
    using collector_server.serves_all [of c "stream_calls (messages arr)" he] assms(1,2) by (auto simp: list_all_iff)
  then show "collector_inv c'" "grows c c'" using assms(4) by simp_all
  obtain outs where st: "StreamEvents (map (\<lambda>(m, ts). (Msg m, ts)) (messages arr)) (cl_service c) =
      Some (cl_service c', outs, Open :: unit stream_result)"
    using stream_messages_service [OF assms(4) [unfolded stream_calls_def]] by blast
  have "graph_inv (sv_vector (cl_service c))" using assms(1) by (simp add: collector_inv_def)
  from StreamEvents_total [OF this, of "map (\<lambda>(m, ts). (Msg m :: unit recv, ts)) (messages arr)"]
  show "sv_buf (cl_service c') = Add_all (arrivals arr) (sv_buf (cl_service c))"
    by (simp add: st received_all arrivals_received [OF assms(3)])
qed

lemma captureSnapshot_base: "captureSnapshot env trig c = Some c' \<Longrightarrow> cl_http_base c' = cl_http_base c"
  by (auto simp: captureSnapshot_def Let_def split: Option.bind_splits sum.splits prod.splits)

lemma stream_base:
  "serve_all (serve_call he) (stream_calls ms) c = Some (as, c') \<Longrightarrow> cl_http_base c' = cl_http_base c"
proof (induction ms arbitrary: c as)
  case (Cons x ms)
  obtain m ts where x: "x = (m, ts)" by (cases x)
  obtain c1 as1 where step: "collector_ingest (he_capture he) (ToNative (Some m)) (pb_node_id m) ts c = Some c1"
    and rest: "serve_all (serve_call he) (stream_calls ms) c1 = Some (as1, c')"
    using Cons.prems by (auto simp: x stream_calls_def split: Option.bind_splits)
  from step have "cl_http_base c1 = cl_http_base c"
    by (auto simp: collector_ingest_def dest!: captureSnapshot_base split: Option.bind_splits option.splits)
  with Cons.IH [OF rest] show ?case by simp
qed (simp add: stream_calls_def)

text \<open>An error response in the stream makes a snapshot, of the window that it closes.\<close>

lemma failure_captured:
  assumes "collector_inv c" "sampled e" "te_on_snap (sv_triggers (cl_service c))"
    and "rule \<in> set (te_rules5xx (sv_triggers (cl_service c)))" "sublist rule (payload_of e)"
    and "te_cooldown (sv_triggers (cl_service c)) \<le> since (te_last_fire (sv_triggers (cl_service c))) (fst (snd ts))"
    and "ev_mkdir_ok (ce_export env)" "ev_write_ok (ce_export env)" "ev_random (ce_export env) = Some nonce"
  obtains trig sv c' info where "collector_ingest env e node ts c = Some c'"
    "captureSnapshot env trig (c\<lparr>cl_service := sv\<rparr>) = Some c'" "collector_inv (c\<lparr>cl_service := sv\<rparr>)"
    "sv_buf sv = Add e node (fst ts) (sv_buf (cl_service c))" "cl_snapshots c' = cl_snapshots c @ [info]"
proof -
  have ok: "wf_event e" "pl_ok e" "IsWrite e = 0" using assms(2) by (simp_all add: sampled_def)
  have g: "graph_inv (sv_vector (cl_service c))" using assms(1) by (simp add: collector_inv_def)
  obtain sv out where step: "ingestEvent e node ts (cl_service c) = Some (sv, out)"
    "graph_inv (sv_vector sv)" "sv_buf sv = Add e node (fst ts) (sv_buf (cl_service c))"
    using ingestEvent_total [OF ok(1,2) g] by blast
  obtain r where "first_match (payload_of e) (te_rules5xx (sv_triggers (cl_service c))) = Some r"
    using first_match_None_iff assms(4,5) by fastforce
  then have "\<exists>e'. Evaluate e node (snd ts) (sv_triggers (cl_service c)) =
      Some (e', Some \<lparr>trig_type = TriggerHTTP5xx, trig_detail = matched r node\<rparr>)"
    using assms(3,6) ok by (simp add: Evaluate_def payload_slice_Some fire_def)
  then obtain trig where out: "out = Some trig"
    using step(1) by (auto simp: ingestEvent_def Let_def split: Option.bind_splits)
  have inv: "collector_inv (c\<lparr>cl_service := sv\<rparr>)"
    using step(2,3) assms(1) Add_ok [of "sv_buf (cl_service c)" e] ok by (simp add: collector_inv_def event_ok_def)
  obtain c' info where made: "captureSnapshot env trig (c\<lparr>cl_service := sv\<rparr>) = Some c'"
    "cl_snapshots c' = cl_snapshots c @ [info]"
    using captureSnapshot_made [OF inv assms(7-9), of trig] by auto
  have "collector_ingest env e node ts c = Some c'"
    using step(1) made(1) by (simp add: collector_ingest_def IngestNative_def out)
  from that [OF this made(1) inv step(3) made(2)] show thesis .
qed

lemma Add_all_snoc: "Add_all (as @ [(e, node, t)]) buf = Add e node t (Add_all as buf)"
  by (simp add: Add_all_def)

lemma dropWhile_last: "\<not> P x \<Longrightarrow> dropWhile P (xs @ [x]) \<noteq> [] \<and> last (dropWhile P (xs @ [x])) = x"
  by (induction xs) auto

lemma Add_last: "Add e node t buf \<noteq> [] \<and> be_event (last (Add e node t buf)) = e"
  using dropWhile_last [of "\<lambda>ev. be_at ev \<le> t - WindowDuration" "\<lparr>be_event = e, be_node = node, be_at = t\<rparr>" buf]
  by (simp add: Add_eq WindowDuration_def)

section \<open>Properties\<close>


text \<open>A silent read on one node, and then an error response on another.\<close>

definition quiet_read :: ioevent where
  "quiet_read = zero_event\<lparr>Fd := 4\<rparr>"

lemma demo_sampled: "sampled quiet_read" "sampled error_event"
  by (simp_all add: sampled_def quiet_read_def error_event_def wf_event_def pl_ok_def zero_tail_def zero_event_def size_defs)

lemma quiet_stays_quiet:
  assumes "graph_inv (sv_vector (cl_service c))" "te_rules5xx (sv_triggers (cl_service c)) = [''HTTP/1.1 5'', ''HTTP/1.0 5'']"
    "\<not> te_trigger4xx (sv_triggers (cl_service c))"
  shows "\<exists>sv. collector_ingest env quiet_read node ts c = Some (c\<lparr>cl_service := sv\<rparr>) \<and> sv_triggers sv = sv_triggers (cl_service c)"
proof -
  have ok: "wf_event quiet_read" "pl_ok quiet_read" "IsWrite quiet_read = 0"
    using demo_sampled(1) by (simp_all add: sampled_def)
  have "payload_of quiet_read = []" by (simp add: quiet_read_def zero_event_def)
  with payload_slice_Some [OF ok(1,2)] have empty: "payload_slice quiet_read = Some []" by metis
  have "Evaluate quiet_read node (snd ts) (sv_triggers (cl_service c)) = Some (sv_triggers (cl_service c), None)"
    using assms(2,3) ok(3) by (simp add: Evaluate_def empty contains_iff)
  then show ?thesis
    using parseVectorHeader_total [OF ok(1,2), of node "sv_vector (cl_service c)"]
    by (auto simp: collector_ingest_def IngestNative_def ingestEvent_def Let_def split: Option.bind_splits)
qed


end
