(* ===== verification/Daemon_Service.thy ===== *)
theory Daemon_Service
  imports Collector_Server Local_Capture Hooks
begin

text \<open>
  The daemon of local capture while it runs: the events its recorders hand it and the snapshots it
  is asked for, in any order, until its context is done.  It keeps the key and the hooks that
  \<^verbatim>\<open>StartDaemon\<close> gave its collector, so that what it saves is found under the project's latest link and opens with
  the project's key.
\<close>

section \<open>The daemon as a server\<close>

datatype daemon_call =
  SinkEvent "u64 \<times> stamps" "source_ref option" ioevent | SnapshotRequest "instant \<times> instant" bytes | ContextDone

fun serve_daemon :: "http_layer \<Rightarrow> daemon_call \<Rightarrow> daemon \<Rightarrow> (bytes option \<times> daemon) option" where
  "serve_daemon hl (SinkEvent clk frame evt) d = map_option (Pair None) (eventSink hl clk frame evt d)"
| "serve_daemon hl (SnapshotRequest clk detail) d = triggerSnapshot hl clk detail d"
| "serve_daemon hl ContextDone d = Some (None, d\<lparr>dm_done := True\<rparr>)"

fun proper_call :: "daemon_call \<Rightarrow> bool" where
  "proper_call (SinkEvent clk frame evt) = event_ok evt"
| "proper_call _ = True"

fun daemon_answers :: "daemon_call \<Rightarrow> bytes option \<Rightarrow> bool" where
  "daemon_answers (SnapshotRequest clk detail) a = (a \<noteq> Some [])"
| "daemon_answers _ a = (a = None)"

definition hooks_of :: "'e start_env \<Rightarrow> bytes \<Rightarrow> local_hooks" where
  "hooks_of env root = daemon_hooks env (LayoutFor root) root"

definition daemon_inv :: "'e start_env \<Rightarrow> bytes \<Rightarrow> daemon \<Rightarrow> bool" where
  "daemon_inv env root d =
     (dm_layout d = LayoutFor root \<and> collector_inv (dm_collector d) \<and> te_on_snap (sv_triggers (cl_service (dm_collector d))) \<and>
      ex_key (cl_exporter (dm_collector d)) = cf_snapshot_key (dm_cfg d) \<and>
      (cl_local (dm_collector d))\<lparr>lh_source_map := None\<rparr> = (hooks_of env root)\<lparr>lh_source_map := None\<rparr>)"

definition later :: "daemon \<Rightarrow> daemon \<Rightarrow> bool" where
  "later d d' =
     (dm_layout d' = dm_layout d \<and> dm_cfg d' = dm_cfg d \<and> (dm_done d \<longrightarrow> dm_done d') \<and>
      prefix (cl_snapshots (dm_collector d)) (cl_snapshots (dm_collector d')))"

section \<open>Lemmas\<close>

lemma later_refl: "later d d"
  by (simp add: later_def)

lemma later_trans: "later d e \<Longrightarrow> later e f \<Longrightarrow> later d f"
  by (auto simp: later_def intro: prefix_order.trans)

lemma daemon_inv_grows:
  assumes "daemon_inv env root d" "collector_inv c'" "grows (dm_collector d) c'"
  shows "daemon_inv env root (d\<lparr>dm_collector := c'\<rparr>) \<and> later d (d\<lparr>dm_collector := c'\<rparr>)"
  using assms by (simp add: daemon_inv_def grows_def later_def)

lemma daemon_inv_set_ref:
  assumes "daemon_inv env root d"
  shows "daemon_inv env root (set_ref i ref d) \<and> later d (set_ref i ref d)"
  using assms
  by (auto simp: daemon_inv_def later_def set_ref_def SetLocalHooks_def SetSourceMap_def Let_def collector_inv_def)

lemma postEvent_kept:
  assumes "daemon_inv env root d" "event_ok evt"
  shows "\<exists>err d'. postEvent hl clk evt d = Some (err, d') \<and> daemon_inv env root d' \<and> later d d'"
proof -
  have inv: "collector_inv (dm_collector d)" using assms(1) by (simp add: daemon_inv_def)
  obtain item where item: "post_item evt = Some item"
    using assms(2) by (auto simp: post_item_def payload_slice_Some event_ok_def)
  show ?thesis
  proof (cases "dm_done d")
    case False
    let ?body = "Inr (hl_encode hl (''local-dev'', [item])) :: bytes + bytes"
    let ?un = "\<lambda>data. case hl_decode hl data of Inl e \<Rightarrow> Inl e | Inr (node, items) \<Rightarrow> Inr (node, map (\<lambda>it. (it, clk)) items)"
    obtain r c' where "serveIngestEvents (hl_env hl) ''POST'' ?body ?un (dm_collector d) = Some (r, c')"
      "collector_inv c'" "grows (dm_collector d) c'"
      using serveIngestEvents_grows [OF inv] by blast
    with daemon_inv_grows [OF assms(1)] show ?thesis by (simp add: postEvent_def item Let_def False)
  qed (use assms(1) later_refl in \<open>simp add: postEvent_def item Let_def\<close>)
qed

lemma note_source_kept:
  assumes "daemon_inv env root d" "event_ok evt"
  shows "\<exists>d'. note_source frame evt d = Some d' \<and> daemon_inv env root d' \<and> later d d'"
proof -
  obtain bad where "isHTTPError evt = Some bad"
    using isHTTPError_total [of evt] assms(2) by (auto simp: event_ok_def)
  then show ?thesis
    using assms(1) later_refl daemon_inv_set_ref [OF assms(1)] by (auto simp: note_source_def split: option.split)
qed

lemma triggerSnapshot_kept:
  assumes "daemon_inv env root d"
  shows "\<exists>path d'. triggerSnapshot hl clk detail d = Some (path, d') \<and> daemon_inv env root d' \<and> later d d' \<and> path \<noteq> Some []"
proof -
  have inv: "collector_inv (dm_collector d)" using assms by (simp add: daemon_inv_def)
  have ne: "ly_latest_snapshot (LayoutFor r) \<noteq> []" for r by (simp add: LayoutFor_def Let_def path_join_nonempty)
  show ?thesis
  proof (cases "dm_done d")
    case False
    let ?detail = "if detail = [] then ''manual capture'' else detail"
    let ?body = "''{'' @ [CHR 0x22] @ ''detail'' @ [CHR 0x22] @ '':'' @ hl_quote hl ?detail @ ''}''"
    obtain r c' where c': "serve_trigger (hl_env hl) (hl_response hl) ''POST'' (hl_detail hl ?body) clk (dm_collector d) = Some (r, c')"
      "collector_inv c'" "grows (dm_collector d) c'"
      using serve_trigger_grows [OF inv] by blast
    from daemon_inv_grows [OF assms c'(2,3)] have "daemon_inv env root (d\<lparr>dm_collector := c'\<rparr>)" "later d (d\<lparr>dm_collector := c'\<rparr>)"
      by simp_all
    moreover from this(1) have "dm_layout (d\<lparr>dm_collector := c'\<rparr>) = LayoutFor root" by (simp add: daemon_inv_def)
    ultimately show ?thesis
      using c'(1) ne by (auto simp: triggerSnapshot_def Let_def False)
  qed (use assms later_refl in \<open>simp add: triggerSnapshot_def Let_def\<close>)
qed

interpretation daemon_server: call_server "serve_daemon hl" proper_call "daemon_inv env root" later daemon_answers for hl env root
proof
  show "\<exists>a d'. serve_daemon hl q d = Some (a, d') \<and> daemon_inv env root d' \<and> later d d' \<and> daemon_answers q a"
    if "daemon_inv env root d" "proper_call q" for d q
  proof (cases q)
    case (SinkEvent clk frame evt)
    then have ok: "event_ok evt" and inv: "daemon_inv env root d" using that by simp_all
    obtain err d1 where d1: "postEvent hl clk evt d = Some (err, d1)" "daemon_inv env root d1" "later d d1"
      using postEvent_kept [OF inv ok, of hl clk] by blast
    obtain d2 where "note_source frame evt d1 = Some d2" "daemon_inv env root d2" "later d1 d2"
      using note_source_kept [OF d1(2) ok, of frame] by blast
    with d1 show ?thesis by (auto simp: SinkEvent eventSink_def intro: later_trans)
  next
    case (SnapshotRequest clk detail)
    then show ?thesis using triggerSnapshot_kept [OF that(1), of hl clk detail] by auto
  qed (use that(1) in \<open>auto simp: daemon_inv_def later_def\<close>)
qed (auto intro: later_refl later_trans)

end
