(* ===== verification/Capture_Replay.thy ===== *)
theory Capture_Replay
  imports Daemon_Service Tool_Commands
begin

text \<open>
  From a capture to its replay: the daemon starts, records, and is asked for a snapshot; the snapshot is
  under the project's latest link, and \<^verbatim>\<open>bugit replay\<close> in the project starts the replay tool on it with the
  key that the collector had.
\<close>

section \<open>The start of the daemon\<close>

lemma collector_New_fresh:
  "collector_inv (collector_New genv load dir cluster key fs)"
  "ex_key (cl_exporter (collector_New genv load dir cluster key fs)) = key"
  "te_on_snap (sv_triggers (cl_service (collector_New genv load dir cluster key fs)))"
  by (simp_all add: collector_New_def Let_def collector_inv_def graph_inv_new exporter_New_def trigger_New_def
      SetTrigger4xx_def SetRules5xx_def split: sum.split)

lemma SetLocalHooks_frame:
  "collector_inv (SetLocalHooks h c) = collector_inv c" "ex_key (cl_exporter (SetLocalHooks h c)) = ex_key (cl_exporter c)"
  "cl_service (SetLocalHooks h c) = cl_service c" "cl_local (SetLocalHooks h c) = h"
  by (simp_all add: SetLocalHooks_def SetSourceMap_def collector_inv_def)

lemma daemon_inv_start:
  assumes "dm_layout d = LayoutFor dir" "ex_key (cl_exporter c) = cf_snapshot_key (dm_cfg d)" "collector_inv c"
    and "te_on_snap (sv_triggers (cl_service c))" "dm_collector d = SetLocalHooks (daemon_hooks env (LayoutFor dir) dir) c"
  shows "daemon_inv env dir d"
  using assms by (simp add: daemon_inv_def hooks_of_def SetLocalHooks_frame)

lemma StartDaemon_made:
  assumes "StartDaemon env root skip = Some (addrs, cfg, Inr d)"
  obtains dir getenv rec out where "FindCaptureRoot (st_proj env) root = Some dir" "cf_snapshot_key cfg \<noteq> []"
    "d = \<lparr>dm_layout = LayoutFor dir, dm_cfg = cfg,
       dm_collector = SetLocalHooks (daemon_hooks env (LayoutFor dir) dir)
         (collector_New getenv (st_rules env) (ly_data_path (LayoutFor dir)) ''local'' (cf_snapshot_key cfg) (st_files env)),
       dm_done = False, dm_record = rec, dm_outbound = out\<rparr>"
proof -
  obtain dir where dir: "FindCaptureRoot (st_proj env) root = Some dir"
    using assms by (auto simp: StartDaemon_def split: Option.bind_splits)
  obtain err pe where ly: "EnsureLayout dir (st_proj env) = (LayoutFor dir, err, pe)"
    by (cases "EnsureLayout dir (st_proj env)") (auto simp: EnsureLayout_def Let_def split: option.splits)
  obtain cfg0 e0 where load: "LoadConfig pe (ly_config_path (LayoutFor dir)) = (cfg0, e0)" by (metis surj_pair)
  obtain e1 pe2 where save: "SaveConfig (ly_config_path (LayoutFor dir)) (PrepareConfig pe dir cfg0) pe = (e1, pe2)" by (metis surj_pair)
  have ok: "err = None" "e0 = None" "e1 = None"
    using assms by (auto simp: StartDaemon_def dir ly load save Let_def split: option.splits)
  have key: "cf_snapshot_key (PrepareConfig pe dir cfg0) \<noteq> []"
    using replay_key_nonempty load ok(2) by (simp add: PrepareConfig_def Let_def)
  show thesis
    using assms key that [OF dir]
    by (auto simp: StartDaemon_def dir ly load save ok Let_def split: prod.splits if_splits)
qed

lemma StartDaemon_starts:
  assumes "no_failures (st_proj env)" "FindCaptureRoot (st_proj env) root = Some dir" "st_ready env"
  shows "\<exists>addrs cfg d. StartDaemon env root True = Some (addrs, cfg, Inr d)"
proof -
  obtain pe where ly: "EnsureLayout dir (st_proj env) = (LayoutFor dir, None, pe)" "no_failures pe"
    using no_failures_Ensure [OF assms(1)] by blast
  obtain cfg0 where load: "LoadConfig pe (ly_config_path (LayoutFor dir)) = (cfg0, None)"
    using no_failures_Load [OF ly(2)] by blast
  obtain data where "pe_yaml_out pe (PrepareConfig pe dir cfg0) = Inr data" "pe_mkdir pe (path_dir (ly_config_path (LayoutFor dir))) = None"
    using ly(2) unfolding no_failures_def by blast
  then obtain pe2 where "SaveConfig (ly_config_path (LayoutFor dir)) (PrepareConfig pe dir cfg0) pe = (None, pe2)"
    using no_failures_write [OF ly(2)] by (auto simp: SaveConfig_def)
  then show ?thesis using assms(3) by (simp add: StartDaemon_def assms(2) ly(1) load Let_def split: prod.split)
qed

lemma StartDaemon_ready:
  assumes "StartDaemon env root skip = Some (addrs, cfg, Inr d)"
  shows "\<exists>dir. FindCaptureRoot (st_proj env) root = Some dir \<and> daemon_inv env dir d \<and> \<not> dm_done d \<and> dm_cfg d = cfg \<and>
    cf_snapshot_key cfg \<noteq> []"
  by (rule StartDaemon_made [OF assms])
    (auto intro!: daemon_inv_start collector_New_fresh)

section \<open>A snapshot on request\<close>

lemma latest_link_written:
  assumes "lh_snapshot_dir h \<noteq> []" "lh_latest_link h \<noteq> []" "fs path = Some data"
    and "\<And>w evs fs. lh_replay_writer h = Some w \<Longrightarrow>
      w (lh_replay_path h) (lh_project_root h) evs fs (lh_latest_link h) = fs (lh_latest_link h)"
  shows "postProcessSnapshot (\<lambda>_. True) h path evs fs (lh_latest_link h) = Some data"
proof (cases "lh_replay_writer h")
  case None
  then show ?thesis using assms(1-3) by (simp add: postProcessSnapshot_def copy_file_def Let_def)
next
  case (Some w)
  from assms(1-3) assms(4) [OF Some] show ?thesis
    by (simp add: postProcessSnapshot_def copy_file_def Let_def Some)
qed

lemma latest_not_replay: "ly_latest_snapshot (LayoutFor r) \<noteq> ly_replay_path (LayoutFor r)"
  unfolding LayoutFor_def Let_def layout.simps
  by (rule different_names) (simp_all add: file_name_def dot_def dotdot_def suffix_def)

lemma hooks_latest:
  assumes "lh\<lparr>lh_source_map := None\<rparr> = (hooks_of env dir)\<lparr>lh_source_map := None\<rparr>" "fs path = Some data"
  shows "postProcessSnapshot (\<lambda>_. True) lh path evs fs (ly_latest_snapshot (LayoutFor dir)) = Some data"
proof -
  have h: "lh_snapshot_dir lh = ly_snapshots_path (LayoutFor dir)" "lh_latest_link lh = ly_latest_snapshot (LayoutFor dir)"
    "lh_replay_path lh = ly_replay_path (LayoutFor dir)" "lh_replay_writer lh = Some (replay_writer env)"
    using assms(1) by (cases lh; simp add: hooks_of_def daemon_hooks_def)+
  show ?thesis
    unfolding h(2) [symmetric]
  proof (rule latest_link_written)
    show "lh_snapshot_dir lh \<noteq> []" "lh_latest_link lh \<noteq> []"
      unfolding h by (simp_all add: LayoutFor_def Let_def path_join_nonempty)
  qed (use assms(2) in \<open>auto simp: h replay_writer_keeps latest_not_replay\<close>)
qed

lemma request_saves:
  assumes "codec_laws (ce_codecs (hl_env hl))" "ev_random (ce_export (hl_env hl)) = Some nonce" "length nonce = NonceSize"
    and "ev_mkdir_ok (ce_export (hl_env hl))" "ev_write_ok (ce_export (hl_env hl))" "ce_can_write (hl_env hl) = (\<lambda>_. True)"
    and "daemon_inv senv dir d" "\<not> dm_done d"
  shows "\<exists>d' snap. triggerSnapshot hl clk detail d = Some (Some (ly_latest_snapshot (LayoutFor dir)), d') \<and> dm_layout d' = LayoutFor dir \<and>
    dm_cfg d' = dm_cfg d \<and>
    OpenFile (ce_codecs (hl_env hl)) (cl_files (dm_collector d')) (ly_latest_snapshot (LayoutFor dir)) (cf_snapshot_key (dm_cfg d)) = Inr snap \<and>
    list_all2 scrubbed_event (map be_event (sv_buf (cl_service (dm_collector d)))) (snap_events snap) \<and>
    (\<forall>e \<in> set (snap_events snap). \<not> has_secret (payload_of e))"
proof -
  let ?c = "dm_collector d" and ?env = "hl_env hl" and ?latest = "ly_latest_snapshot (LayoutFor dir)"
  let ?detail = "if detail = [] then ''manual capture'' else detail"
  let ?body = "''{'' @ [CHR 0x22] @ ''detail'' @ [CHR 0x22] @ '':'' @ hl_quote hl ?detail @ ''}''"
  define trig where "trig = \<lparr>trig_type = TriggerManual, trig_detail = (case hl_detail hl ?body of None \<Rightarrow> [] | Some x \<Rightarrow> x)\<rparr>"
  define c1 where "c1 = ?c\<lparr>cl_service := (cl_service ?c)\<lparr>sv_triggers := (sv_triggers (cl_service ?c))\<lparr>te_last_fire := Some (snd clk)\<rparr>\<rparr>\<rparr>"
  have inv: "collector_inv c1" using assms(7) by (simp add: daemon_inv_def collector_inv_def c1_def)
  obtain c2 info where made: "captureSnapshot ?env trig c1 = Some c2" "cl_snapshots c2 = cl_snapshots c1 @ [info]"
    using captureSnapshot_made [OF inv assms(4,5,2)] by blast
  have trg: "\<exists>resp. TriggerSnapshot ?env (trig_detail trig) clk ?c = Some (resp, c2)"
    using assms(7) made(1)
    by (simp add: TriggerSnapshot_def Manual_def fire_def daemon_inv_def trig_def c1_def [symmetric] Let_def)
  show ?thesis
  proof (rule captured_snapshot [OF assms(1-3) inv made])
    fix snap fs evs
    assume snap: "OpenFile (ce_codecs ?env) fs (si_path info) (ex_key (cl_exporter c1)) = Inr snap"
      and files: "cl_files c2 = postProcessSnapshot (ce_can_write ?env) (cl_local c1) (si_path info) evs fs"
      and events: "list_all2 scrubbed_event (map be_event (sv_buf (cl_service c1))) (snap_events snap)"
        "\<forall>e \<in> set (snap_events snap). \<not> has_secret (payload_of e)"
    obtain data where data: "fs (si_path info) = Some data"
      using snap by (cases "fs (si_path info)") (auto simp: OpenFile_def)
    have latest: "cl_files c2 ?latest = Some data"
      unfolding files assms(6) by (rule hooks_latest [where env = senv and fs = fs and path = "si_path info", OF _ data]) (use assms(7) in \<open>simp add: daemon_inv_def c1_def\<close>)
    have "OpenFile (ce_codecs ?env) (cl_files c2) ?latest (cf_snapshot_key (dm_cfg d)) = Inr snap"
      using OpenFile_cong [of "cl_files c2" ?latest fs "si_path info"] data latest snap assms(7)
      by (simp add: daemon_inv_def c1_def)
    moreover have "triggerSnapshot hl clk detail d = Some (Some ?latest, d\<lparr>dm_collector := c2\<rparr>)"
      using trg latest assms(7,8) by (auto simp: triggerSnapshot_def serve_trigger_def trig_def Let_def latest_there_def daemon_inv_def)
    ultimately show ?thesis
      using events assms(7) by (intro exI [of _ "d\<lparr>dm_collector := c2\<rparr>"] exI [of _ snap]) (simp add: c1_def daemon_inv_def)
  qed
qed

section \<open>The context\<close>

lemma serve_daemon_done:
  "serve_daemon hl q d = Some (a, d') \<Longrightarrow> dm_done d' = (dm_done d \<or> q = ContextDone)"
  by (cases q)
    (auto simp: eventSink_def postEvent_def note_source_def set_ref_def triggerSnapshot_def Let_def
      split: Option.bind_splits if_splits option.splits)

lemma serve_all_done:
  "serve_all (serve_daemon hl) qs d = Some (as, d') \<Longrightarrow> dm_done d' = (dm_done d \<or> ContextDone \<in> set qs)"
  by (induction qs arbitrary: d as) (auto split: Option.bind_splits dest!: serve_daemon_done)

section \<open>Properties\<close>

text \<open>A command line in the project after the capture: it finds the project, reads the configuration
  the daemon has saved, and sees the latest link.\<close>

definition in_project :: "'e proj_env \<Rightarrow> bytes \<Rightarrow> layout \<Rightarrow> config \<Rightarrow> bool" where
  "in_project env root ly cfg =
     (FindCaptureRoot env (path_abs env root) = Some (ly_root ly) \<and> LoadConfig env (ly_config_path ly) = (cfg, None) \<and>
      exists_file env (ly_latest_snapshot ly))"

lemma replay_of_latest:
  assumes "in_project env root (LayoutFor dir) cfg"
  shows "chosen_snapshot env readDir (path_abs env root) [] = Some (Inr (ly_latest_snapshot (LayoutFor dir)))"
proof -
  have "ly_root (LayoutFor dir) = dir" by (simp add: LayoutFor_def Let_def)
  then show ?thesis using assms by (simp add: chosen_snapshot_def LatestSnapshot_def in_project_def)
qed

text \<open>C4: A saved capture is replayed.  Whatever the recorders have handed to a daemon that started, and whatever
  snapshots it was asked for before, the next request saves: the answer is the project's latest
  link, whose file opens with the project's key and holds the events that are buffered, in order and
  without credentials.  \<^verbatim>\<open>bugit replay\<close> in the project then runs the replay tool with
  arguments from which the tool starts its session on exactly these events.\<close>

theorem saved_capture_is_replayed:
  assumes "codec_laws (ce_codecs (hl_env hl))" "ev_random (ce_export (hl_env hl)) = Some nonce" "length nonce = NonceSize"
    and "ev_mkdir_ok (ce_export (hl_env hl))" "ev_write_ok (ce_export (hl_env hl))" "ce_can_write (hl_env hl) = (\<lambda>_. True)"
    and "StartDaemon senv workspace skip = Some (addrs, cfg, Inr d0)"
    and "list_all proper_call calls" "ContextDone \<notin> set calls"
  shows "\<exists>as d d' snap. serve_all (serve_daemon hl) calls d0 = Some (as, d) \<and> list_all2 daemon_answers calls as \<and>
    triggerSnapshot hl clk detail d = Some (Some (ly_latest_snapshot (dm_layout d0)), d') \<and>
    OpenFile (ce_codecs (hl_env hl)) (cl_files (dm_collector d')) (ly_latest_snapshot (dm_layout d0)) (cf_snapshot_key cfg) = Inr snap \<and>
    list_all2 scrubbed_event (map be_event (sv_buf (cl_service (dm_collector d)))) (snap_events snap) \<and>
    (\<forall>e \<in> set (snap_events snap). \<not> has_secret (payload_of e)) \<and>
    (in_project env root (dm_layout d0) cfg \<longrightarrow>
      (\<exists>argv out args. runReplay genv windows exec env readDir [''--root'', root] =
          Some (Some (resolveReplayBin genv windows env, argv), out) \<and> replay_main argv = Some (CmdRun, args) \<and>
        (config_Load readFile unmarshal (replay_config_path env (dm_layout d0)) = (rcfg, None) \<longrightarrow>
          runServe readFile unmarshal (ce_codecs (hl_env hl)) (cl_files (dm_collector d')) sv w args =
            (case session_Start sv (session_New snap rcfg [] [] default_delve w) of
               (Some err, _) \<Rightarrow> Inl (SessionFailed err)
             | (None, started) \<Rightarrow> Inr started))))"
proof -
  obtain dir where start: "daemon_inv senv dir d0" "\<not> dm_done d0" "dm_cfg d0 = cfg"
    using StartDaemon_ready [OF assms(7)] by blast
  obtain as d where run: "serve_all (serve_daemon hl) calls d0 = Some (as, d)" "daemon_inv senv dir d" "later d0 d"
    "list_all2 daemon_answers calls as"
    using daemon_server.serves_all [OF start(1) assms(8)] by blast
  have live: "\<not> dm_done d" using serve_all_done [OF run(1)] start(2) assms(9) by simp
  let ?latest = "ly_latest_snapshot (LayoutFor dir)"
  have ly: "dm_layout d0 = LayoutFor dir" "dm_cfg d = cfg" using start(1,3) run(3) by (simp_all add: daemon_inv_def later_def)
  obtain d' snap where saved: "triggerSnapshot hl clk detail d = Some (Some ?latest, d')" "dm_layout d' = LayoutFor dir" "dm_cfg d' = cfg"
    "OpenFile (ce_codecs (hl_env hl)) (cl_files (dm_collector d')) ?latest (cf_snapshot_key cfg) = Inr snap"
    "list_all2 scrubbed_event (map be_event (sv_buf (cl_service (dm_collector d)))) (snap_events snap)"
    "\<forall>e \<in> set (snap_events snap). \<not> has_secret (payload_of e)"
    using request_saves [OF assms(1-6) run(2) live, of clk detail] unfolding ly(2) by blast
  have "\<exists>argv out args. runReplay genv windows exec env readDir [''--root'', root] =
      Some (Some (resolveReplayBin genv windows env, argv), out) \<and> replay_main argv = Some (CmdRun, args) \<and>
    (config_Load readFile unmarshal (replay_config_path env (LayoutFor dir)) = (rcfg, None) \<longrightarrow>
      runServe readFile unmarshal (ce_codecs (hl_env hl)) (cl_files (dm_collector d')) sv w args =
        (case session_Start sv (session_New snap rcfg [] [] default_delve w) of
           (Some err, _) \<Rightarrow> Inl (SessionFailed err)
         | (None, started) \<Rightarrow> Inr started))"
    if env: "in_project env root (LayoutFor dir) cfg"
  proof -
    have facts: "FindCaptureRoot env (path_abs env root) = Some dir" "LoadConfig env (ly_config_path (LayoutFor dir)) = (cfg, None)"
      using env by (simp_all add: in_project_def LayoutFor_def Let_def)
    obtain argv out args where "runReplay genv windows exec env readDir [''--root'', root] =
        Some (Some (resolveReplayBin genv windows env, argv), out)" "replay_main argv = Some (CmdRun, args)"
      and serve: "config_Load readFile unmarshal (replay_config_path env (LayoutFor dir)) = (rcfg, None) \<Longrightarrow>
        runServe readFile unmarshal (ce_codecs (hl_env hl)) (cl_files (dm_collector d')) sv w args =
         (case OpenFile (ce_codecs (hl_env hl)) (cl_files (dm_collector d')) ?latest (cf_snapshot_key cfg) of
            Inl err \<Rightarrow> Inl (ArchiveError err)
          | Inr s \<Rightarrow> (case session_Start sv (session_New s rcfg [] [] default_delve w) of
              (Some err, _) \<Rightarrow> Inl (SessionFailed err)
            | (None, started) \<Rightarrow> Inr started))"
      using replay_session [OF replay_flags_of(1), unfolded replay_flags_of(2,3), OF facts(1)
        replay_of_latest [OF env] facts(2)] by blast
    then show ?thesis
      using serve saved(4) by simp
  qed
  then show ?thesis using run(1,4) saved unfolding ly by blast
qed

text \<open>The project of the example after the capture: the configuration and the latest link are there.\<close>

definition after_capture :: "bytes \<Rightarrow> config \<Rightarrow> unit proj_env" where
  "after_capture dir cfg = empty_env\<lparr>
     pe_read := (\<lambda>p. if p = ly_config_path (LayoutFor dir) \<or> p = ly_latest_snapshot (LayoutFor dir) then Contents [] else NotExist),
     pe_yaml := (\<lambda>_ _. (cfg, None))\<rparr>"

lemma path_abs_after: "path_abs (after_capture dir cfg) w = path_abs empty_env w"
  by (simp add: after_capture_def path_abs_def empty_env_def)

lemma after_capture_facts:
  assumes "cf_snapshot_key cfg \<noteq> []"
  shows "FindCaptureRoot (after_capture dir cfg) w = Some (path_abs empty_env w)"
    "LoadConfig (after_capture dir cfg) (ly_config_path (LayoutFor dir)) = (cfg, None)"
    "exists_file (after_capture dir cfg) (ly_latest_snapshot (LayoutFor dir))"
    "exists_file (after_capture dir cfg) (ly_replay_path (LayoutFor dir)) = False"
proof -
  let ?env = "after_capture dir cfg"
  have pkg: "path_join [d, ''package.json''] \<noteq> ly_config_path (LayoutFor dir)"
    "path_join [d, ''package.json''] \<noteq> ly_latest_snapshot (LayoutFor dir)" for d
    unfolding LayoutFor_def Let_def layout.simps ConfigName_def
    by (rule different_names; simp add: file_name_def dot_def dotdot_def suffix_def)+
  then have n: "hasDevPackageJSON ?env d = False" "exists_file ?env (path_join [d, ''package.json'']) = False" for d
    by (simp_all add: after_capture_def hasDevPackageJSON_def exists_file_def)
  have abs: "path_abs ?env w = path_abs empty_env w" by (rule path_abs_after)
  from walk_up_ends [OF path_abs_rooted, of ?env ?env w] obtain r where
    "walk_up ?env (path_abs ?env w) = Some r" "\<forall>d. r = Some d \<longrightarrow> hasDevPackageJSON ?env d"
    by (auto simp: after_capture_def empty_env_def has_prefix_def)
  then show "FindCaptureRoot ?env w = Some (path_abs empty_env w)" using n abs by (cases r) (simp_all add: FindCaptureRoot_def)
  have "ly_replay_path (LayoutFor dir) \<noteq> ly_config_path (LayoutFor dir)"
    unfolding LayoutFor_def Let_def layout.simps ConfigName_def
    by (rule different_names) (simp_all add: file_name_def dot_def dotdot_def suffix_def)
  then show "exists_file ?env (ly_replay_path (LayoutFor dir)) = False"
    using latest_not_replay [of dir] by (simp add: after_capture_def exists_file_def empty_env_def)
qed (use assms in \<open>simp_all add: LoadConfig_def after_capture_def exists_file_def Let_def\<close>)

lemma demo_starts: "\<exists>addrs cfg d. StartDaemon demo_start ''/w'' True = Some (addrs, cfg, Inr d)"
proof (rule StartDaemon_starts)
  show "FindCaptureRoot (st_proj demo_start) ''/w'' = Some (path_abs empty_env ''/w'')"
    by (simp add: demo_start_def empty_env_root)
qed (simp_all add: demo_start_def no_failures_def empty_env_def)

lemma saved_capture_is_replayed_witness:
  "\<exists>addrs cfg d0 as d d' snap argv out args started.
     StartDaemon demo_start ''/w'' True = Some (addrs, cfg, Inr d0) \<and>
     serve_all (serve_daemon demo_layer) [SinkEvent (9, 0, 0, 0) None demo_error, SnapshotRequest (1, 1) ''first''] d0 = Some (as, d) \<and>
     triggerSnapshot demo_layer (2, 2) [] d = Some (Some (ly_latest_snapshot (dm_layout d0)), d') \<and>
     runReplay (\<lambda>_. []) False (\<lambda>_ _. True) (after_capture (path_abs empty_env ''/w'') cfg) (\<lambda>_. Inl ()) [''--root'', ''/w''] =
       Some (Some argv, out) \<and> replay_main (snd argv) = Some (CmdRun, args) \<and>
     runServe (\<lambda>_. Inl ()) (\<lambda>_ c. (c, None)) plain_codecs (cl_files (dm_collector d')) local_env
       \<lparr>w_env = Map.empty, w_files = Map.empty\<rparr> args = Inr started \<and>
     list_all2 scrubbed_event (map be_event (sv_buf (cl_service (dm_collector d)))) (session_Events started)"
proof -
  let ?dir = "path_abs empty_env ''/w''" and ?w = "\<lparr>w_env = Map.empty, w_files = Map.empty\<rparr> :: tf_world"
  let ?calls = "[SinkEvent (9, 0, 0, 0) None demo_error, SnapshotRequest (1, 1) ''first'']"
  obtain addrs cfg d0 where start: "StartDaemon demo_start ''/w'' True = Some (addrs, cfg, Inr d0)"
    using demo_starts by blast
  have d0: "dm_layout d0 = LayoutFor ?dir" "cf_snapshot_key cfg \<noteq> []"
    using StartDaemon_ready [OF start] by (auto simp: daemon_inv_def demo_start_def empty_env_root)
  note after = after_capture_facts [OF d0(2)]
  have env: "ce_codecs (hl_env demo_layer) = plain_codecs" "ev_random (ce_export (hl_env demo_layer)) = Some (replicate NonceSize NUL)"
    "length (replicate NonceSize NUL) = NonceSize" "ev_mkdir_ok (ce_export (hl_env demo_layer))"
    "ev_write_ok (ce_export (hl_env demo_layer))" "ce_can_write (hl_env demo_layer) = (\<lambda>_. True)"
    by (simp_all add: demo_layer_def demo_env_def)
  have calls: "list_all proper_call ?calls" "ContextDone \<notin> set ?calls"
    using demo_error_facts by (simp_all add: event_ok_def)
  have laws: "codec_laws (ce_codecs (hl_env demo_layer))" unfolding env(1) by (rule plain_codecs_laws)
  have dir: "?dir = ''/w''" "path_abs empty_env ?dir = ?dir" by (code_simp, code_simp)
  have seen: "in_project (after_capture ?dir cfg) ''/w'' (dm_layout d0) cfg"
    using after by (simp add: in_project_def d0(1) path_abs_after dir) (simp add: LayoutFor_def Let_def)
  have load: "config_Load (\<lambda>_. Inl () :: unit + bytes) (\<lambda>_ c. (c, None)) (replay_config_path (after_capture ?dir cfg) (dm_layout d0)) = (default_config, None)"
    by (simp add: d0(1) replay_config_path_def after(4) config_Load_def)
  have serves: "\<exists>started. session_Start local_env (session_New snap default_config [] [] default_delve ?w) = (None, started)
      \<and> session_Events started = snap_events snap" for snap
  proof -
    obtain started where "session_Start local_env (session_New snap default_config [] [] default_delve ?w) = (None, started)"
      by (simp add: session_Start_def session_New_def default_config_def Let_def multi_Start_def NewMulti_def multi_listen_def
          local_env_def dbg_Start_def start_helpers_def)
    with started_events [OF this] show ?thesis by (simp add: session_Events_def session_New_def)
  qed
  note replayed = saved_capture_is_replayed [where env = "after_capture ?dir cfg" and root = "''/w''" and hl = demo_layer
      and clk = "(2, 2)" and detail = "[]" and readDir = "\<lambda>_. Inl ()" and genv = "\<lambda>_. []" and windows = False
      and exec = "\<lambda>_ _. True" and readFile = "\<lambda>_. Inl () :: unit + bytes" and unmarshal = "\<lambda>_ c. (c, None)" and rcfg = default_config
      and sv = local_env and w = ?w, OF laws env(2-6) start calls]
  then obtain as d d' snap where r: "serve_all (serve_daemon demo_layer) ?calls d0 = Some (as, d)"
      "triggerSnapshot demo_layer (2, 2) [] d = Some (Some (ly_latest_snapshot (dm_layout d0)), d')"
      "list_all2 scrubbed_event (map be_event (sv_buf (cl_service (dm_collector d)))) (snap_events snap)"
    and "\<exists>argv out args. runReplay (\<lambda>_. []) False (\<lambda>_ _. True) (after_capture ?dir cfg) (\<lambda>_. Inl ()) [''--root'', ''/w''] =
        Some (Some (resolveReplayBin (\<lambda>_. []) False (after_capture ?dir cfg), argv), out) \<and> replay_main argv = Some (CmdRun, args) \<and>
      runServe (\<lambda>_. Inl ()) (\<lambda>_ c. (c, None)) plain_codecs (cl_files (dm_collector d')) local_env ?w args =
        (case session_Start local_env (session_New snap default_config [] [] default_delve ?w) of
           (Some err, _) \<Rightarrow> Inl (SessionFailed err)
         | (None, started) \<Rightarrow> Inr started)"
    by (elim exE conjE) (use seen load in \<open>simp add: env(1)\<close>)
  then obtain argv out args where run: "runReplay (\<lambda>_. []) False (\<lambda>_ _. True) (after_capture ?dir cfg) (\<lambda>_. Inl ()) [''--root'', ''/w''] =
        Some (Some (resolveReplayBin (\<lambda>_. []) False (after_capture ?dir cfg), argv), out)" "replay_main argv = Some (CmdRun, args)"
    and serve: "runServe (\<lambda>_. Inl ()) (\<lambda>_ c. (c, None)) plain_codecs (cl_files (dm_collector d')) local_env ?w args =
        (case session_Start local_env (session_New snap default_config [] [] default_delve ?w) of
           (Some err, _) \<Rightarrow> Inl (SessionFailed err)
         | (None, started) \<Rightarrow> Inr started)" by blast
  obtain started where s: "session_Start local_env (session_New snap default_config [] [] default_delve ?w) = (None, started)"
    "session_Events started = snap_events snap" using serves by blast
  have run': "replay_main (snd (resolveReplayBin (\<lambda>_. []) False (after_capture ?dir cfg), argv)) = Some (CmdRun, args)"
    using run(2) by simp
  have serve': "runServe (\<lambda>_. Inl ()) (\<lambda>_ c. (c, None)) plain_codecs (cl_files (dm_collector d')) local_env ?w args = Inr started"
    using serve s(1) by simp
  show ?thesis using start r(1,2) run(1) run' serve' r(3) unfolding s(2) [symmetric] by blast
qed

end
