(* ===== verification/Attach_Record.thy ===== *)
theory Attach_Record
  imports Capture_Replay CDP_Session Discovery
begin

text \<open>
  Recording a program that is already running: \<^verbatim>\<open>StartAttachTap\<close> (pkg/captureattach/attach_tap.go, with
  its adapters network_tap.go and server_tap.go) and \<^verbatim>\<open>RunAttachRecord\<close>
  (dre-collector/pkg/localcapture/attach.go).  The inspector's answers, the events it reports and the
  clock are inputs; the tap hands what it sees to a sink, which is an update of the caller's state.
\<close>

section \<open>Attaching\<close>

record attach_options =
  ao_port :: int
  ao_ws :: bytes
  ao_target :: backend_inspector
  ao_backend :: int
  ao_pid :: int
  ao_root :: bytes
  ao_comm :: bytes
  ao_no_preload :: bool

record attach_tap =
  at_session :: cdp
  at_target :: backend_inspector
  at_tap :: tap

definition evalRemoteBool :: "message \<Rightarrow> bool" where
  "evalRemoteBool result =
     (case jget result ''value'' of
        Some (JBool v) \<Rightarrow> v
      | _ \<Rightarrow> (case jobj (jget result ''result'') of
                None \<Rightarrow> False
              | Some nested \<Rightarrow> (case jget nested ''value'' of Some (JBool v) \<Rightarrow> v | _ \<Rightarrow> False)))"

text \<open>An event of the inspector, with what the sink reads (its clock, the debugger's frame) when it gets
  the event that the tap makes of it.\<close>

type_synonym 'x seen = "u64 \<times> cdp_event \<times> 'x"

definition tap_feed ::
  "(u64 \<times> cdp_event \<Rightarrow> tap \<Rightarrow> tap) \<Rightarrow> ('x \<Rightarrow> ioevent \<Rightarrow> 'd \<Rightarrow> 'd option) \<Rightarrow> 'x seen \<Rightarrow> tap \<times> 'd \<Rightarrow> (tap \<times> 'd) option" where
  "tap_feed handle sink = (\<lambda>(now, ev, x) (t, d).
     (let t' = handle (now, ev) t in do {
        d' \<leftarrow> each (sink x) (drop (length (tp_events t)) (tp_events t')) d;
        Some (t', d')
      }))"

text \<open>\<^verbatim>\<open>waitPing\<close> over a tap that handles events while it waits.\<close>

fun ping_loop ::
  "('v \<Rightarrow> tap \<times> 'd \<Rightarrow> (tap \<times> 'd) option) \<Rightarrow> instant \<Rightarrow> (instant \<times> 'v list \<times> bool) list \<Rightarrow> tap \<times> 'd \<Rightarrow>
     (ping_result \<times> tap \<times> 'd) option" where
  "ping_loop feed deadline [] st = Some (PingTimeout, st)"
| "ping_loop feed deadline ((now, evs, done) # turns) st = do {
     st' \<leftarrow> each feed evs st;
     if now < deadline then
       (if tp_ping_seen (fst st') then Some (Pinged, st')
        else if done then Some (ping_result.Cancelled, st')
        else ping_loop feed deadline turns st')
     else Some (PingTimeout, st')
   }"

text \<open>What the inspector does: whether it can be dialled, what polling for a target finds, the
  result of each call, and the turns of the waiting loop.\<close>

record 'x attach_env =
  ae_unicode :: unicode
  ae_dial :: "bytes \<Rightarrow> bool"
  ae_polls :: "(bool \<times> inspect_env) list"
  ae_result :: "cdp_call \<Rightarrow> message option"
  ae_deadline :: instant
  ae_turns :: "(instant \<times> 'x seen list \<times> bool) list"
  ae_handle :: "u64 \<times> cdp_event \<Rightarrow> tap \<Rightarrow> tap"

datatype attach_error =
  SinkRequired | EmptyURL | NoTarget connect_result | DialRefused bytes | SetupFailed setup_error

definition ConnectCDPURL :: "(bytes \<Rightarrow> bool) \<Rightarrow> bytes \<Rightarrow> attach_error + cdp" where
  "ConnectCDPURL dial wsURL =
     (if wsURL = [] then Inl EmptyURL else if dial wsURL then Inr connected else Inl (DialRefused wsURL))"

definition attach_dial :: "'x attach_env \<Rightarrow> attach_options \<Rightarrow> attach_error + cdp" where
  "attach_dial env opts =
     (let dial = ConnectCDPURL (ae_dial env)
      in if ao_ws opts \<noteq> [] then dial (ao_ws opts)
         else let pick = \<lparr>po_port = ao_backend opts, po_pid = ao_pid opts, po_root = ao_root opts\<rparr>;
                  port = (if ao_port opts \<le> 0 then 9229 else ao_port opts)
              in case ConnectCDP (ae_unicode env) port pick (ae_polls env) of
                   DialTarget url \<Rightarrow> dial url
                 | failed \<Rightarrow> Inl (NoTarget failed))"

definition registerHandlers :: "cdp \<Rightarrow> cdp" where
  "registerHandlers s =
     cdp_On ''Runtime.bindingCalled'' (cdp_On ''Network.responseReceived'' (cdp_On ''Network.requestWillBeSent'' s))"

definition attach_setup :: "'x attach_env \<Rightarrow> attach_options \<Rightarrow> ping_result \<Rightarrow> setup_env" where
  "attach_setup env opts ping =
     \<lparr>su_fails = (\<lambda>c. ae_result env c = None),
      su_true = (\<lambda>c. case ae_result env c of None \<Rightarrow> False | Some result \<Rightarrow> evalRemoteBool result),
      su_ping = ping, su_disable_preload = ao_no_preload opts\<rparr>"

text \<open>The result: the error and the session that is closed, or the tap; and the state of the sink.\<close>

definition StartAttachTap ::
  "'x attach_env \<Rightarrow> attach_options \<Rightarrow> ('x \<Rightarrow> ioevent \<Rightarrow> 'd \<Rightarrow> 'd option) option \<Rightarrow> 'd \<Rightarrow>
     ((attach_error \<times> cdp option + attach_tap) \<times> 'd) option" where
  "StartAttachTap env opts sink d =
     (case sink of
        None \<Rightarrow> Some (Inl (SinkRequired, None), d)
      | Some snk \<Rightarrow>
     (case attach_dial env opts of
        Inl err \<Rightarrow> Some (Inl (err, None), d)
      | Inr session0 \<Rightarrow>
          (let session = registerHandlers session0;
               t = tap_new (ao_comm opts);
               feed = tap_feed (ae_handle env) snk
           in do {
             (ping, t1, d1) \<leftarrow> ping_loop feed (ae_deadline env) (ae_turns env) (t, d);
             let (made, err) = tap_setup (attach_setup env opts ping);
             let waited = (SendPing \<in> set made \<and> err \<noteq> Some (CallFailed SendPing));
             let (t2, d2) = (if waited then (t1, d1) else (t, d));
             Some (case err of
                 Some e \<Rightarrow> (Inl (SetupFailed e, Some (cdp_Close session)), d2)
               | None \<Rightarrow> (Inr \<lparr>at_session = session, at_target = ao_target opts, at_tap = t2\<rparr>, d2))
           })))"

definition attach_Target :: "attach_tap \<Rightarrow> backend_inspector" where
  "attach_Target a = at_target a"

definition attach_InboundCount :: "attach_tap \<Rightarrow> nat" where
  "attach_InboundCount a = tp_inbound (at_tap a)"

definition attach_Close :: "attach_tap \<Rightarrow> attach_tap" where
  "attach_Close a = a\<lparr>at_session := cdp_Close (at_session a)\<rparr>"

text \<open>The adapters: a tap that may be missing.\<close>

definition StartNetworkTap ::
  "'x attach_env \<Rightarrow> int \<Rightarrow> bytes \<Rightarrow> ('x \<Rightarrow> ioevent \<Rightarrow> 'd \<Rightarrow> 'd option) option \<Rightarrow> 'd \<Rightarrow>
     ((attach_error \<times> cdp option + attach_tap option) \<times> 'd) option" where
  "StartNetworkTap env inspectPort comm sink d =
     (if sink = None then Some (Inl (SinkRequired, None), d)
      else do {
        (r, d') \<leftarrow> StartAttachTap env
            \<lparr>ao_port = inspectPort, ao_ws = [], ao_target = no_inspector, ao_backend = 0, ao_pid = 0, ao_root = [],
             ao_comm = comm, ao_no_preload = False\<rparr> sink d;
        Some (map_sum id Some r, d')
      })"

definition StartServerTap ::
  "'x attach_env \<Rightarrow> attach_options \<Rightarrow> ('x \<Rightarrow> ioevent \<Rightarrow> 'd \<Rightarrow> 'd option) option \<Rightarrow> 'd \<Rightarrow>
     ((attach_error \<times> cdp option + attach_tap option) \<times> 'd) option" where
  "StartServerTap env opts sink d = map_option (apfst (map_sum id Some)) (StartAttachTap env opts sink d)"

definition wrapped_Close :: "attach_tap option \<Rightarrow> attach_tap option" where
  "wrapped_Close a = (case a of None \<Rightarrow> None | Some t \<Rightarrow> Some (attach_Close t))"

definition wrapped_InboundCount :: "attach_tap option \<Rightarrow> nat" where
  "wrapped_InboundCount a = (case a of None \<Rightarrow> 0 | Some t \<Rightarrow> attach_InboundCount t)"

definition network_handleResponse ::
  "(int \<Rightarrow> bytes) \<Rightarrow> u64 \<Rightarrow> (int \<times> bytes \<times> bytes) option \<Rightarrow> attach_tap option \<Rightarrow> attach_tap option" where
  "network_handleResponse table now resp a =
     (case a of None \<Rightarrow> None | Some t \<Rightarrow> Some (t\<lparr>at_tap := handleOutboundResponse table now resp (at_tap t)\<rparr>))"

section \<open>Recording\<close>

text \<open>While it records, the tap reports what it sees, and the preload hook in the program posts to the
  collector.  What a post reads: the handler's clock and the debugger's frame.\<close>

type_synonym post_reads = "(u64 \<times> stamps) \<times> source_ref option"

datatype attach_event = FromTap "post_reads seen" | FromPreload http_call

record 'e attach_run =
  ar_start :: "'e Local_Capture.start_env"
  ar_files :: "'e proj_env"
  ar_hooks :: "'e hook_env"
  ar_signal :: "int \<Rightarrow> bool"
  ar_view :: prepare_view
  ar_targets :: inspect_env
  ar_cmdline :: "int \<Rightarrow> bytes option"
  ar_attach :: "post_reads attach_env"
  ar_bridge :: "node_bridge \<Rightarrow> call_end"
  ar_http :: http_layer
  ar_server :: http_env
  ar_events :: "attach_event list"
  ar_clock1 :: "instant \<times> instant"
  ar_clock2 :: "instant \<times> instant"

datatype 'e backend_error = NotPrepared "'e prepare_error" | NotResolved int

datatype 'e attach_failure =
  NoDaemon "'e start_failure" | NoBackend "'e backend_error" | NoTap attach_error | SnapshotFailed

text \<open>The lines it prints, without the texts of errors.\<close>

datatype 'e attach_notice =
  PreloadSync 'e | EnablingInspector int | InspectorWarning enable_warning | PreloadMode int | TapWarning attach_error
| BridgeWarning call_end | AttachedTo int int bytes bytes | RestartThenRecord bytes | NothingCaptured "bytes option"

text \<open>The sink: \<open>dbg\<close> is whether the daemon has its debugger; a post that succeeds is counted.\<close>

definition attach_sink :: "http_layer \<Rightarrow> bool \<Rightarrow> post_reads \<Rightarrow> ioevent \<Rightarrow> daemon \<times> nat \<Rightarrow> (daemon \<times> nat) option" where
  "attach_sink hl dbg = (\<lambda>(clk, frame) evt (d, n). do {
     (err, d') \<leftarrow> PostIOEvent hl clk (if dbg then frame else None) evt d;
     Some (d', if err = None then n + 1 else n)
   })"

fun attach_step ::
  "http_layer \<Rightarrow> http_env \<Rightarrow> bool \<Rightarrow> (u64 \<times> cdp_event \<Rightarrow> tap \<Rightarrow> tap) \<Rightarrow> attach_event \<Rightarrow>
     attach_tap option \<times> daemon \<times> nat \<Rightarrow> (attach_tap option \<times> daemon \<times> nat) option" where
  "attach_step hl he dbg handle (FromTap x) (None, s) = Some (None, s)"
| "attach_step hl he dbg handle (FromTap x) (Some a, s) = do {
     (t, s') \<leftarrow> tap_feed handle (attach_sink hl dbg) x (at_tap a, s);
     Some (Some (a\<lparr>at_tap := t\<rparr>), s')
   }"
| "attach_step hl he dbg handle (FromPreload q) (a, d, n) = do {
     (reply, c) \<leftarrow> serve_http he q (dm_collector d);
     Some (a, d\<lparr>dm_collector := c\<rparr>, n)
   }"

definition found_backend ::
  "'e attach_run \<Rightarrow> discovered \<Rightarrow> 'e proj_env \<Rightarrow> ('e backend_error + backend_inspector) \<times> 'e attach_notice list \<times> 'e proj_env" where
  "found_backend r disc env =
     (let u = ae_unicode (ar_attach r);
          pick = \<lparr>po_port = di_backend disc, po_pid = di_pid disc, po_root = di_capture_root disc\<rparr>
      in if 0 < di_pid disc then
           (case PrepareBackendInspector u (ar_hooks r) (ar_signal r) (ar_view r) (di_capture_root disc) (di_pid disc) pick env of
              (res, warning, env') \<Rightarrow>
                (map_sum NotPrepared id res,
                 EnablingInspector (di_pid disc) # (case warning of None \<Rightarrow> [] | Some w \<Rightarrow> [InspectorWarning w]), env'))
         else (map_sum NotResolved id (ResolveBackendInspector u (ar_targets r) pick), [], env))"

definition tap_options :: "discovered \<Rightarrow> backend_inspector \<Rightarrow> bytes \<Rightarrow> bool \<Rightarrow> attach_options" where
  "tap_options disc insp comm preload =
     \<lparr>ao_port = bi_port insp, ao_ws = bi_ws insp, ao_target = insp, ao_backend = di_backend disc, ao_pid = di_pid disc,
      ao_root = di_capture_root disc, ao_comm = comm, ao_no_preload = preload\<rparr>"

text \<open>The tap of the recording, when one is attached: the failure that ends it, or the tap, whether the
  daemon gets a debugger, and the notices.\<close>

definition record_tap ::
  "'e attach_run \<Rightarrow> discovered \<Rightarrow> 'e proj_env \<Rightarrow> bool \<Rightarrow> 'e backend_error + backend_inspector \<Rightarrow> daemon \<Rightarrow>
     ((attach_error + attach_tap option \<times> bool \<times> 'e attach_notice list) \<times> daemon \<times> nat) option" where
  "record_tap r disc env preload found d =
     (let rt = Detect env (di_capture_root disc);
          comm = (if rt = RuntimeUnknown then ''app'' else runtime_name rt)
      in case found of
           Inl err \<Rightarrow>
             Some (Inr (None, False,
               if IsDevScriptPatched env (di_capture_root disc)
               then [RestartThenRecord (RecommendedRestartCommand env (di_capture_root disc))] else []), d, 0)
         | Inr insp \<Rightarrow> do {
             (res, s) \<leftarrow> StartAttachTap (ar_attach r) (tap_options disc insp comm preload)
                 (Some (attach_sink (ar_http r) False)) (d, 0);
             Some (case res of
                 Inl (err, _) \<Rightarrow> (if preload then Inr (None, False, [TapWarning err]) else Inl err, s)
               | Inr a \<Rightarrow>
                   (let node = (rt = RuntimeNode);
                        bridge = ar_bridge r (NewNodeBridgeWS (bi_ws insp));
                        target = attach_Target a
                    in (Inr (Some a, node,
                          (if node \<and> (\<forall>fs. bridge \<noteq> Answer fs) then [BridgeWarning bridge] else [])
                          @ [AttachedTo (di_backend disc) (bi_port insp) (bi_title target) (bi_url target)]), s)))
           })"

text \<open>The result: the path, the failure, the notices, and the daemon at the end.\<close>

definition RunAttachRecord ::
  "'e attach_run \<Rightarrow> bytes \<Rightarrow> discovered \<Rightarrow> bool \<Rightarrow> bytes \<Rightarrow>
     (bytes \<times> 'e attach_failure option \<times> 'e attach_notice list \<times> (attach_tap option \<times> daemon \<times> nat) option) option" where
  "RunAttachRecord r workspace disc saveOnExit detail = do {
     (addrs, cfg, started) \<leftarrow> StartDaemon (ar_start r) workspace True;
     case started of
       Inl failure \<Rightarrow> Some ([], Some (NoDaemon failure), [], None)
     | Inr d \<Rightarrow> do {
         let root = di_capture_root disc;
         let (sync, env1) = SyncPreloadHook (ar_hooks r) root (cf_collector_http cfg) (ar_files r);
         let n1 = (case sync of None \<Rightarrow> [] | Some err \<Rightarrow> [PreloadSync err]);
         let (found, n2, env2) = found_backend r disc env1;
         let preload = ProcessHasBugITPreload (ar_cmdline r) (di_pid disc);
         case (found, preload) of
           (Inl err, False) \<Rightarrow> Some ([], Some (NoBackend err), n1 @ n2, Some (None, d, 0))
         | _ \<Rightarrow> do {
             let n3 = (if isl found then [PreloadMode (di_backend disc)] else []);
             (res, d1, n) \<leftarrow> record_tap r disc env2 preload found d;
             case res of
               Inl err \<Rightarrow> Some ([], Some (NoTap err), n1 @ n2 @ n3, Some (None, d1, n))
             | Inr (a, dbg, n4) \<Rightarrow> do {
                 (a', d2, count) \<leftarrow> each (attach_step (ar_http r) (ar_server r) dbg (ae_handle (ar_attach r))) (ar_events r) (a, d1, n);
                 let n5 = (if wrapped_InboundCount a' = 0 \<and> count = 0
                     then [NothingCaptured (if IsDevScriptPatched env2 root \<and> \<not> preload
                             then Some (RecommendedRestartCommand env2 root) else None)] else []);
                 ((path, failed), d3) \<leftarrow> RunAttachRecord_end (ar_http r) (ar_clock1 r) (ar_clock2 r) saveOnExit detail d2;
                 Some (path, if failed then Some SnapshotFailed else None, n1 @ n2 @ n3 @ n4 @ n5, Some (wrapped_Close a', d3, count))
               }
           }
       }
   }"

section \<open>Lemmas\<close>

lemma PostIOEvent_done: "PostIOEvent hl clk ref e d = Some (err, d') \<Longrightarrow> dm_done d' = dm_done d"
  by (auto simp: PostIOEvent_def postEvent_def note_source_def set_ref_def Let_def
      split: Option.bind_splits if_splits option.splits)

text \<open>An event of the inspector whose message survives JSON, and what the tap makes of it.\<close>

definition seen_ok :: "(bytes \<Rightarrow> binding_msg option) \<Rightarrow> (int \<Rightarrow> bytes) \<Rightarrow> 'x seen \<Rightarrow> bool" where
  "seen_ok unmarshal table = (\<lambda>(now, ev, x).
     now \<noteq> 0 \<and> list_all (\<lambda>(w, p). json_text (take MaxPayloadLen p) = take MaxPayloadLen p) (tap_message unmarshal table ev))"

definition postable :: "ioevent \<Rightarrow> bool" where
  "postable e = (wf_event e \<and> pl_ok e \<and> textual e)"

lemma tap_emit_postable:
  assumes "ascii (tp_comm t)" "now \<noteq> 0" "json_text (take MaxPayloadLen p) = take MaxPayloadLen p"
  shows "\<exists>e. tap_emit now w p t = t\<lparr>tp_next_fd := tp_next_fd t + 1, tp_events := tp_events t @ [e]\<rparr> \<and> postable e"
  using assms build_event_ok build_event_textual by (auto simp: tap_emit_def Let_def postable_def)

lemma tap_handle_postable:
  assumes "ascii (tp_comm t)" "seen_ok unmarshal table (now, ev, x)"
  shows "\<exists>new. tp_events (tap_handle unmarshal table (now, ev) t) = tp_events t @ new \<and> list_all postable new \<and>
    tp_comm (tap_handle unmarshal table (now, ev) t) = tp_comm t"
proof -
  have emit: "\<exists>new. tp_events (tap_emit now w p s) = tp_events t @ new \<and> list_all postable new \<and> tp_comm (tap_emit now w p s) = tp_comm t"
    if "(w, p) \<in> set (tap_message unmarshal table ev)" "tp_comm s = tp_comm t" "tp_events s = tp_events t" for w p s
    using tap_emit_postable [of s now p w] that assms by (fastforce simp: seen_ok_def list_all_iff)
  have same: "\<exists>new. tp_events t = tp_events t @ new \<and> list_all postable new" by (intro exI [of _ "[]"]) simp
  show ?thesis
  proof (cases ev)
    case (RequestWillBeSent req)
    then show ?thesis using emit same by (cases req) (auto simp: handleOutboundRequest_def)
  next
    case (ResponseReceived resp)
    then show ?thesis using emit same by (cases resp) (auto simp: handleOutboundResponse_def Let_def)
  next
    case (BindingCalled s)
    then show ?thesis
      using emit same by (auto simp: handleBindingCalled_def ParseBindingMessage_def split: option.split)
  qed
qed

definition recorded ::
  "(u64 \<times> cdp_event \<Rightarrow> tap \<Rightarrow> tap) \<Rightarrow> bytes \<Rightarrow> 'x seen list \<Rightarrow> tap \<times> daemon \<times> nat \<Rightarrow> bool" where
  "recorded handle comm ys = (\<lambda>(t, d, n).
     t = fold (\<lambda>(now, ev, x). handle (now, ev)) ys (tap_new comm) \<and> n = length (tp_events t) \<and> tp_comm t = tp_comm (tap_new comm) \<and>
     collector_inv (dm_collector d) \<and> \<not> dm_done d \<and>
     (\<exists>arrivals. map fst arrivals = tp_events t \<and> list_all (\<lambda>a. fst (snd a) = ''local-dev'') arrivals \<and>
       sv_buf (cl_service (dm_collector d)) = Add_all arrivals []))"

lemma posts_stored:
  assumes "http_laws hl" "list_all postable es" "collector_inv (dm_collector d)" "\<not> dm_done d"
  shows "\<exists>d'. each (attach_sink hl dbg ((now, ts), ref)) es (d, n) = Some (d', n + length es) \<and>
    collector_inv (dm_collector d') \<and> \<not> dm_done d' \<and>
    sv_buf (cl_service (dm_collector d')) = fold (\<lambda>e. Add e ''local-dev'' (fst ts)) es (sv_buf (cl_service (dm_collector d)))"
  using assms(2-4)
proof (induction es arbitrary: d n)
  case (Cons e es)
  have e: "wf_event e" "pl_ok e" "textual e" using Cons.prems(1) by (simp_all add: postable_def)
  obtain d1 where d1: "PostIOEvent hl (now, ts) (if dbg then ref else None) e d = Some (None, d1)" "collector_inv (dm_collector d1)"
    "sv_buf (cl_service (dm_collector d1)) = Add e ''local-dev'' (fst ts) (sv_buf (cl_service (dm_collector d)))"
    using ingest_event_stored [OF assms(1) Cons.prems(2,3) e] by blast
  have "\<not> dm_done d1" using PostIOEvent_done [OF d1(1)] Cons.prems(3) by simp
  from Cons.IH [OF _ d1(2) this, of "n + 1"] Cons.prems(1) d1(1,3) show ?case by (simp add: attach_sink_def)
qed simp

lemma tap_feed_recorded:
  assumes "http_laws hl" "ascii (tp_comm (tap_new comm))" "seen_ok unmarshal table x"
    and "recorded (tap_handle unmarshal table) comm ys s"
  shows "\<exists>s'. tap_feed (tap_handle unmarshal table) (attach_sink hl dbg) x s = Some s' \<and>
    recorded (tap_handle unmarshal table) comm (ys @ [x]) s'"
proof -
  obtain now ev hnow ts ref where x: "x = (now, ev, (hnow, ts), ref)" by (metis surj_pair)
  obtain t d n where s: "s = (t, d, n)" by (metis surj_pair)
  note r = assms(4) [unfolded recorded_def s prod.case]
  let ?t = "tap_handle unmarshal table (now, ev) t"
  obtain new where new: "tp_events ?t = tp_events t @ new" "list_all postable new" "tp_comm ?t = tp_comm t"
    using tap_handle_postable [of t unmarshal table now ev] assms(2,3) r unfolding x by metis
  obtain d' where d': "each (attach_sink hl dbg ((hnow, ts), ref)) new (d, n) = Some (d', n + length new)"
    "collector_inv (dm_collector d')" "\<not> dm_done d'"
    "sv_buf (cl_service (dm_collector d')) = fold (\<lambda>e. Add e ''local-dev'' (fst ts)) new (sv_buf (cl_service (dm_collector d)))"
    using posts_stored [OF assms(1) new(2)] r by blast
  obtain arrivals where arr: "map fst arrivals = tp_events t" "list_all (\<lambda>a. fst (snd a) = ''local-dev'') arrivals"
    "sv_buf (cl_service (dm_collector d)) = Add_all arrivals []"
    using r by blast
  define more where "more = map (\<lambda>e. (e, ''local-dev'', fst ts)) new"
  have "Add_all more b = fold (\<lambda>e. Add e ''local-dev'' (fst ts)) new b" for b
    by (simp add: Add_all_def more_def fold_map comp_def)
  then have buf: "sv_buf (cl_service (dm_collector d')) = Add_all (arrivals @ more) []"
    using d'(4) arr(3) by (simp add: Add_all_def)
  have "recorded (tap_handle unmarshal table) comm (ys @ [x]) (?t, d', n + length new)"
    unfolding recorded_def prod.case
  proof (intro conjI exI [of _ "arrivals @ more"])
    show "?t = fold (\<lambda>(now, ev, x). tap_handle unmarshal table (now, ev)) (ys @ [x]) (tap_new comm)"
      using r by (simp add: x)
    have "n = length (tp_events t)" "tp_comm t = tp_comm (tap_new comm)" using r by blast+
    then show "n + length new = length (tp_events ?t)" "tp_comm ?t = tp_comm (tap_new comm)"
      by (simp_all only: new length_append)
    show "map fst (arrivals @ more) = tp_events ?t" using arr(1) new(1) by (simp add: more_def comp_def)
    show "list_all (\<lambda>a. fst (snd a) = ''local-dev'') (arrivals @ more)" using arr(2) by (auto simp: more_def list_all_iff)
  qed (fact d'(2,3) buf)+
  moreover have "tap_feed (tap_handle unmarshal table) (attach_sink hl dbg) x s = Some (?t, d', n + length new)"
    by (simp add: tap_feed_def x s new(1) d'(1))
  ultimately show ?thesis by blast
qed

lemma each_recorded:
  assumes "http_laws hl" "ascii (tp_comm (tap_new comm))" "list_all (seen_ok unmarshal table) xs"
    and "recorded (tap_handle unmarshal table) comm ys s"
  shows "\<exists>s'. each (tap_feed (tap_handle unmarshal table) (attach_sink hl dbg)) xs s = Some s' \<and>
    recorded (tap_handle unmarshal table) comm (ys @ xs) s'"
  using assms(3,4)
proof (induction xs arbitrary: ys s)
  case (Cons x xs)
  then obtain s1 where s1: "tap_feed (tap_handle unmarshal table) (attach_sink hl dbg) x s = Some s1"
    "recorded (tap_handle unmarshal table) comm (ys @ [x]) s1"
    using tap_feed_recorded [OF assms(1,2), of unmarshal table x ys s dbg] by auto
  from Cons.IH [OF _ s1(2)] Cons.prems(1) s1(1) show ?case by simp
qed simp

lemma ping_loop_recorded:
  assumes "http_laws hl" "ascii (tp_comm (tap_new comm))"
    and "list_all (\<lambda>turn. list_all (seen_ok unmarshal table) (fst (snd turn))) turns"
    and "recorded (tap_handle unmarshal table) comm ys s"
  shows "\<exists>p s' during. ping_loop (tap_feed (tap_handle unmarshal table) (attach_sink hl dbg)) deadline turns s = Some (p, s') \<and>
    recorded (tap_handle unmarshal table) comm (ys @ during) s' \<and> prefix during (concat (map (fst \<circ> snd) turns))"
  using assms(3,4)
proof (induction turns arbitrary: ys s)
  case Nil
  then show ?case by (intro exI [of _ PingTimeout] exI [of _ s] exI [of _ "[]"]) simp
next
  case (Cons turn turns)
  obtain now evs stop where turn: "turn = (now, evs, stop)" by (metis surj_pair)
  have "list_all (seen_ok unmarshal table) evs" using Cons.prems(1) by (simp add: turn)
  then obtain s1 where s1: "each (tap_feed (tap_handle unmarshal table) (attach_sink hl dbg)) evs s = Some s1"
    "recorded (tap_handle unmarshal table) comm (ys @ evs) s1"
    using each_recorded [OF assms(1,2) _ Cons.prems(2)] by blast
  show ?case
  proof (cases "now < deadline \<and> \<not> tp_ping_seen (fst s1) \<and> \<not> stop")
    case True
    obtain p s' during where "ping_loop (tap_feed (tap_handle unmarshal table) (attach_sink hl dbg)) deadline turns s1 = Some (p, s')"
      "recorded (tap_handle unmarshal table) comm ((ys @ evs) @ during) s'" "prefix during (concat (map (fst \<circ> snd) turns))"
      using Cons.IH [OF _ s1(2)] Cons.prems(1) by (simp only: list.pred_inject) blast
    then show ?thesis using True s1(1)
      by (intro exI [of _ p] exI [of _ s'] exI [of _ "evs @ during"]) (simp add: turn comp_def)
  next
    case False
    then show ?thesis using s1 by (intro exI [of _ "fst (the (ping_loop (tap_feed (tap_handle unmarshal table) (attach_sink hl dbg)) deadline (turn # turns) s))"]
        exI [of _ s1] exI [of _ evs]) (auto simp: turn)
  qed
qed

lemma run_calls_all: "run_calls env cs = (made, None) \<Longrightarrow> made = cs"
  by (induction cs arbitrary: made) (auto split: if_splits prod.splits)

lemma tap_setup_all: "tap_setup env = (made, None) \<Longrightarrow> SendPing \<in> set made"
  unfolding tap_setup_def by (drule run_calls_all) simp

lemma StartAttachTap_recorded:
  assumes "http_laws hl" "ascii (tp_comm (tap_new (ao_comm opts)))" "ae_handle env = tap_handle unmarshal table"
    and "list_all (\<lambda>turn. list_all (seen_ok unmarshal table) (fst (snd turn))) (ae_turns env)"
    and "recorded (tap_handle unmarshal table) (ao_comm opts) ([] :: post_reads seen list) (tap_new (ao_comm opts), s)"
    and "StartAttachTap env opts (Some (attach_sink hl dbg)) s = Some (Inr a, s')"
  shows "\<exists>during. prefix during (concat (map (fst \<circ> snd) (ae_turns env))) \<and>
    recorded (tap_handle unmarshal table) (ao_comm opts) during (at_tap a, s')"
proof -
  obtain p t1 s1 during where wait: "ping_loop (tap_feed (ae_handle env) (attach_sink hl dbg)) (ae_deadline env) (ae_turns env)
      (tap_new (ao_comm opts), s) = Some (p, t1, s1)"
    and rec: "recorded (tap_handle unmarshal table) (ao_comm opts) during (t1, s1)" "prefix during (concat (map (fst \<circ> snd) (ae_turns env)))"
    using ping_loop_recorded [OF assms(1,2,4,5), of dbg "ae_deadline env"] unfolding assms(3) by (metis append_Nil surj_pair)
  obtain made err where su: "tap_setup (attach_setup env opts p) = (made, err)" by (metis surj_pair)
  have "at_tap a = t1 \<and> s' = s1"
    using assms(6) tap_setup_all su
    by (auto simp: StartAttachTap_def wait Let_def split: sum.splits option.splits if_splits)
  with rec show ?thesis by blast
qed

lemma comm_ascii: "ascii (tp_comm (tap_new (if rt = RuntimeUnknown then ''app'' else runtime_name rt)))"
  by (cases rt) (simp_all add: tap_new_def runtime_name_def byte_of_def)

text \<open>Once its context is done the daemon saves nothing.\<close>

lemma attach_end_saves_nothing:
  "RunAttachRecord_end hl clk1 clk2 saveOnExit detail d = Some (([], saveOnExit), d\<lparr>dm_done := True\<rparr>)"
  by (simp add: RunAttachRecord_end_def snap_when_def triggerSnapshot_def path_of_opt_def)

lemma attach_steps:
  "each (attach_step hl he dbg handle) (map FromTap xs) (Some a, s) =
     map_option (\<lambda>(t, s'). (Some (a\<lparr>at_tap := t\<rparr>), s')) (each (tap_feed handle (attach_sink hl dbg)) xs (at_tap a, s))"
proof (induction xs arbitrary: a s)
  case (Cons x xs)
  show ?case
    using Cons.IH by (cases "tap_feed handle (attach_sink hl dbg) x (at_tap a, s)") auto
qed simp

lemma attach_steps_none: "each (attach_step hl he dbg handle) (map FromTap xs) (None, s) = Some (None, s)"
  by (induction xs) simp_all

lemma record_tap_attached:
  assumes "record_tap r disc env preload found d = Some (Inr (Some a, dbg, n4), s)"
  shows "\<exists>opts. StartAttachTap (ar_attach r) opts (Some (attach_sink (ar_http r) False)) (d, 0) = Some (Inr a, s) \<and>
    ascii (tp_comm (tap_new (ao_comm opts)))"
proof (cases found)
  case (Inr insp)
  let ?rt = "Detect env (di_capture_root disc)"
  let ?opts = "tap_options disc insp (if ?rt = RuntimeUnknown then ''app'' else runtime_name ?rt) preload"
  have "ascii (tp_comm (tap_new (ao_comm ?opts)))" using comm_ascii by (simp add: tap_options_def)
  moreover have "StartAttachTap (ar_attach r) ?opts (Some (attach_sink (ar_http r) False)) (d, 0) = Some (Inr a, s)"
    using assms by (auto simp: record_tap_def Inr Let_def split: Option.bind_splits sum.splits if_splits)
  ultimately show ?thesis by blast
qed (use assms in \<open>simp add: record_tap_def Let_def\<close>)

text \<open>A recording that ends with a tap: what it was made of.\<close>

lemma RunAttachRecord_ended:
  assumes "RunAttachRecord r workspace disc saveOnExit detail = Some (path, failure, notices, Some (Some a, d, n))"
    and "ar_events r = map FromTap xs"
  obtains addrs cfg d0 opts a0 s0 dbg t d1 where "StartDaemon (ar_start r) workspace True = Some (addrs, cfg, Inr d0)"
    "StartAttachTap (ar_attach r) opts (Some (attach_sink (ar_http r) False)) (d0, 0) = Some (Inr a0, s0)"
    "ascii (tp_comm (tap_new (ao_comm opts)))"
    "each (tap_feed (ae_handle (ar_attach r)) (attach_sink (ar_http r) dbg)) xs (at_tap a0, s0) = Some (t, d1, n)"
    "at_tap a = t" "d = d1\<lparr>dm_done := True\<rparr>" "path = []" "failure = (if saveOnExit then Some SnapshotFailed else None)"
proof -
  obtain addrs cfg d0 where start: "StartDaemon (ar_start r) workspace True = Some (addrs, cfg, Inr d0)"
    using assms(1) by (auto simp: RunAttachRecord_def split: Option.bind_splits sum.splits)
  obtain sync env1 where sync: "SyncPreloadHook (ar_hooks r) (di_capture_root disc) (cf_collector_http cfg) (ar_files r) = (sync, env1)"
    by (metis surj_pair)
  obtain found n2 env2 where found: "found_backend r disc env1 = (found, n2, env2)" by (metis surj_pair)
  let ?preload = "ProcessHasBugITPreload (ar_cmdline r) (di_pid disc)"
  have live: "\<not> (isl found \<and> \<not> ?preload)"
    using assms(1) by (cases found; cases ?preload) (auto simp: RunAttachRecord_def start sync found Let_def)
  obtain res d1 m where tap: "record_tap r disc env2 ?preload found d0 = Some (res, d1, m)"
    using assms(1) live
    by (cases found; cases ?preload) (auto simp: RunAttachRecord_def start sync found Let_def split: Option.bind_splits)
  obtain b dbg n4 where res: "res = Inr (b, dbg, n4)"
    using assms(1) live tap
    by (cases found; cases ?preload; cases res) (auto simp: RunAttachRecord_def start sync found Let_def)
  obtain b' d2 count where steps: "each (attach_step (ar_http r) (ar_server r) dbg (ae_handle (ar_attach r))) (map FromTap xs) (b, d1, m) = Some (b', d2, count)"
    "wrapped_Close b' = Some a" "d = d2\<lparr>dm_done := True\<rparr>" "count = n" "path = []" "failure = (if saveOnExit then Some SnapshotFailed else None)"
    using assms(1) live tap
    by (cases found; cases ?preload)
      (auto simp: RunAttachRecord_def start sync found res assms(2) attach_end_saves_nothing Let_def split: Option.bind_splits)
  from steps(1,2) obtain a0 where b: "b = Some a0"
    by (cases b) (simp_all add: attach_steps_none wrapped_Close_def)
  obtain opts where opts: "StartAttachTap (ar_attach r) opts (Some (attach_sink (ar_http r) False)) (d0, 0) = Some (Inr a0, d1, m)"
    "ascii (tp_comm (tap_new (ao_comm opts)))"
    using record_tap_attached tap unfolding res b by blast
  obtain t where "each (tap_feed (ae_handle (ar_attach r)) (attach_sink (ar_http r) dbg)) xs (at_tap a0, d1, m) = Some (t, d2, n)"
    "b' = Some (a0\<lparr>at_tap := t\<rparr>)"
    using steps(1,4) by (auto simp: b attach_steps)
  moreover from this(2) steps(2) have "at_tap a = t" by (auto simp: wrapped_Close_def attach_Close_def)
  ultimately show thesis using that [OF start opts] steps(3,5,6) by blast
qed

lemma collector_New_empty: "sv_buf (cl_service (collector_New genv load dir cluster key fs)) = []"
  by (simp add: collector_New_def Let_def)

lemma recorded_start:
  assumes "StartDaemon env workspace skip = Some (addrs, cfg, Inr d)"
  shows "recorded handle comm [] (tap_new comm, d, 0)"
proof (rule StartDaemon_made [OF assms])
  fix dir getenv rec out
  assume d: "d = \<lparr>dm_layout = LayoutFor dir, dm_cfg = cfg,
       dm_collector = SetLocalHooks (daemon_hooks env (LayoutFor dir) dir)
         (collector_New getenv (st_rules env) (ly_data_path (LayoutFor dir)) ''local'' (cf_snapshot_key cfg) (st_files env)),
       dm_done = False, dm_record = rec, dm_outbound = out\<rparr>"
  show ?thesis
    using collector_New_fresh(1) by (simp add: recorded_def d SetLocalHooks_frame tap_new_def Add_all_def collector_New_empty)
qed

section \<open>Properties\<close>


text \<open>A backend on port 9230 that pings and then sends one request.\<close>

definition demo_backend :: inspect_target where
  "demo_backend = \<lparr>it_id = ''a'', it_type = ''node'', it_title = ''1 server.js'', it_url = [], it_desc = [], it_ws = ''ws''\<rparr>"

definition demo_disc :: discovered where
  "demo_disc = \<lparr>di_workspace = ''/w'', di_capture_root = [], di_backend = 1, di_frontend = 0, di_pid = 0, di_inspect = 0\<rparr>"

definition demo_ping :: "bytes \<Rightarrow> binding_msg option" where
  "demo_ping s = Some \<lparr>bm_dir = 0, bm_payload = [], bm_ping = True\<rparr>"

definition demo_attach :: "unit attach_run" where
  "demo_attach =
     \<lparr>ar_start = demo_start, ar_files = empty_env, ar_hooks = demo_hooks, ar_signal = (\<lambda>_. True),
      ar_view = \<lparr>pv_first = demo_inspect, pv_before = demo_inspect, pv_enable = demo_inspect, pv_turns = [], pv_end = demo_inspect\<rparr>,
      ar_targets = \<lparr>ie_get = (\<lambda>p. if p = 9230 then Some (200, Some []) else None), ie_json = (\<lambda>_. Some [demo_backend])\<rparr>,
      ar_cmdline = (\<lambda>_. None),
      ar_attach = \<lparr>ae_unicode = plain_unicode, ae_dial = (\<lambda>_. True), ae_polls = [],
        ae_result = (\<lambda>_. Some [(''value'', JBool True)]), ae_deadline = 9,
        ae_turns = [(0, [(1, BindingCalled ''ping'', (0, 0, 0, 0), None)], False)], ae_handle = tap_handle demo_ping (\<lambda>_. [])\<rparr>,
      ar_bridge = (\<lambda>_. DialError), ar_http = demo_layer, ar_server = demo_http,
      ar_events = [FromTap (5, RequestWillBeSent (Some (''GET'', ''/a'')), (7, 0, 0, 0), None)], ar_clock1 = (0, 0), ar_clock2 = (1, 1)\<rparr>"

lemma demo_backend_found:
  "ResolveBackendInspector plain_unicode (ar_targets demo_attach) \<lparr>po_port = 1, po_pid = 0, po_root = []\<rparr> =
     Inr (inspector_of 9230 demo_backend 28)"
proof -
  have score: "ScoreTarget plain_unicode demo_backend \<lparr>po_port = 1, po_pid = 0, po_root = []\<rparr> = 28"
    by (simp add: ScoreTarget_def demo_backend_def isDisqualifiedTarget_def normalizePathForMatch_def
      to_lower_def map_runes_def plain_unicode_def contains_def itoa_int_def itoa.simps digit_char_def points_def
      path_base_def dot_def has_suffix_def replace_all_def split.simps trim_prefix_def has_prefix_def
      byte_of_def encode_rune_def ascii_lower_def Let_def)
  show ?thesis
    by (simp add: ResolveBackendInspector_def scan_range_def InspectorPortMin_def InspectorPortMax_def targets_on_def
        ListInspectTargets_def demo_attach_def upto.simps better_def score Let_def no_inspector_def inspector_of_def
        MinBackendTargetScore_def)
     (simp add: demo_backend_def)
qed

lemma demo_tap_starts:
  "\<exists>a. record_tap demo_attach demo_disc env False (Inr (inspector_of 9230 demo_backend 28)) d =
     Some (Inr (Some a, Detect env [] = RuntimeNode, [AttachedTo 1 9230 ''1 server.js'' []] ), d, 0) \<or>
   record_tap demo_attach demo_disc env False (Inr (inspector_of 9230 demo_backend 28)) d =
     Some (Inr (Some a, Detect env [] = RuntimeNode, [BridgeWarning DialError, AttachedTo 1 9230 ''1 server.js'' []]), d, 0)"
  by (simp add: record_tap_def Let_def StartAttachTap_def tap_options_def inspector_of_def demo_backend_def demo_disc_def
      demo_attach_def attach_dial_def ConnectCDPURL_def tap_feed_def handleBindingCalled_def demo_ping_def tap_setup_def attach_setup_def
      evalRemoteBool_def jget_def attach_Target_def)


end
