(* ===== verification/Life_Cycle.thy ===== *)
theory Life_Cycle
  imports Attach_Record Agent_Forward Bypass_Monitor Demo_Data
begin

text \<open>
  How the programs start and end: the listeners of the recording proxies (pkg/recordproxy/proxy.go),
  the parts that the daemon of local capture starts and stops (dre-collector/pkg/localcapture/daemon.go),
  the agent's \<^verbatim>\<open>main\<close> (dre-agent/cmd/dre-agent/main.go), the collector's
  (dre-collector/cmd/dre-collector/main.go) and the list command of dre-cli.
\<close>

section \<open>The listeners of the recording proxies\<close>

text \<open>A proxy's server: \<open>px_server\<close> is the field \<^verbatim>\<open>httpServer\<close>, whether it is set and whether it is
  still open.  \<open>px_bound\<close> is the address the listener got.\<close>

datatype http_server = NoServer | Serving | ServerClosed

record proxy =
  px_listen :: bytes
  px_target :: bytes
  px_bound :: bytes
  px_server :: http_server

datatype 'e proxy_error = BadTarget 'e | NoListener 'e

definition recorder_Start ::
  "(bytes \<Rightarrow> 'e option) \<Rightarrow> (bytes \<Rightarrow> 'e + bytes) \<Rightarrow> proxy \<Rightarrow> 'e proxy_error option \<times> proxy" where
  "recorder_Start parse_url listen p =
     (case parse_url (''http://'' @ px_target p) of
        Some err \<Rightarrow> (Some (BadTarget err), p)
      | None \<Rightarrow>
          (case listen (px_listen p) of
             Inl err \<Rightarrow> (Some (NoListener err), p)
           | Inr addr \<Rightarrow> (None, p\<lparr>px_bound := addr, px_server := Serving\<rparr>)))"

definition BoundAddr :: "proxy \<Rightarrow> bytes" where
  "BoundAddr p = px_bound p"

definition proxy_Stop :: "proxy \<Rightarrow> proxy" where
  "proxy_Stop p = (if px_server p = NoServer then p else p\<lparr>px_server := ServerClosed\<rparr>)"

text \<open>The forward proxy listens in the background: its \<^verbatim>\<open>Start\<close> never fails.\<close>

definition outbound_Start :: "proxy \<Rightarrow> proxy" where
  "outbound_Start p = p\<lparr>px_server := Serving\<rparr>"

definition outbound_serve ::
  "(http_req \<Rightarrow> bytes) \<Rightarrow> (http_resp \<Rightarrow> bytes) \<Rightarrow> (http_req \<Rightarrow> forward_outcome) \<Rightarrow> (bytes \<Rightarrow> connect_outcome) \<Rightarrow>
     bytes \<Rightarrow> bytes \<Rightarrow> u64 \<times> nat \<Rightarrow> u64 \<times> nat \<Rightarrow> http_req \<Rightarrow> outbound \<Rightarrow> (nat \<times> bytes option) \<times> outbound" where
  "outbound_serve request_text response_text roundTrip dial meth host t1 t2 r p =
     (if meth = ''CONNECT''
      then (case handleConnect t1 host (dial host) p of (status, p') \<Rightarrow> ((status, None), p'))
      else handleHTTP request_text response_text roundTrip t1 t2 r p)"

text \<open>The tunnel: chunks that arrive from either side, and the end of a side.  Both connections are closed at
  the first end; what has arrived by then has been passed on.\<close>

datatype side = Client | Target
datatype tunnel_event = Chunk side bytes | Eof side

fun pipe :: "tunnel_event list \<Rightarrow> (side \<times> bytes) list \<times> bool" where
  "pipe [] = ([], False)"
| "pipe (Eof s # es) = ([], True)"
| "pipe (Chunk s data # es) = (let (passed, closed) = pipe es in ((s, data) # passed, closed))"

definition atoi_clamped :: "bytes \<Rightarrow> int" where
  "atoi_clamped s =
     (case signed_split s of (sg, ds) \<Rightarrow>
        if ds \<noteq> [] \<and> list_all is_digit ds then max (- (2 ^ 63)) (min (2 ^ 63 - 1) (sg * int (dec_val ds))) else 0)"

definition ParseHostPort :: "bytes \<Rightarrow> bytes \<times> int" where
  "ParseHostPort addr = (case SplitHostPort addr of None \<Rightarrow> (addr, 80) | Some (h, ps) \<Rightarrow> (h, atoi_clamped ps))"

text \<open>An address that is printed from a host name or an IPv4 address and a port is read back.\<close>

lemma ParseHostPort_printed:
  assumes "set host \<inter> {CHR '':'', CHR ''['', CHR '']''} = {}" "n < 2 ^ 63"
  shows "ParseHostPort (host @ '':'' @ itoa n) = (host, int n)"
proof -
  have no: "c \<notin> set (itoa n)" if "\<not> is_digit c" for c using that by (rule not_digit_notin_itoa)
  have "last_index (host @ '':'' @ itoa n) '':'' = Some (length host)"
    using last_index_char [OF no, of "CHR '':''" host] by (simp add: is_digit_def)
  moreover have "\<not> (host @ '':'' @ itoa n \<noteq> [] \<and> hd (host @ '':'' @ itoa n) = CHR ''['')"
    using assms(1) by (cases host) auto
  moreover have "\<not> contains (host @ '':'' @ itoa n) ''[''" "\<not> contains (host @ '':'' @ itoa n) '']''" "\<not> contains host '':''"
    using assms(1) no [of "CHR ''[''"] no [of "CHR '']''"]
    by (auto simp: contains_def index_of_char is_digit_def)
  ultimately have "SplitHostPort (host @ '':'' @ itoa n) = Some (host, itoa n)"
    by (simp add: SplitHostPort_def)
  moreover have "atoi_clamped (itoa n) = int n"
    using assms(2) itoa_digits [of n] by (simp add: atoi_clamped_def signed_split_digits list_all_iff)
  ultimately show ?thesis by (simp add: ParseHostPort_def)
qed

section \<open>The parts of the daemon\<close>

text \<open>\<open>pt_collector\<close>: the goroutine of the collector runs; it returns when its context is cancelled.\<close>

record parts =
  pt_cancelled :: bool
  pt_collector :: bool
  pt_record :: "proxy option"
  pt_outbound :: "proxy option"
  pt_debugger :: "node_bridge option"

text \<open>The polling of \<^verbatim>\<open>waitReady\<close>: the clock and the answer of each turn.\<close>

fun waitReady :: "instant \<Rightarrow> (instant \<times> nat option) list \<Rightarrow> bool" where
  "waitReady deadline [] = False"
| "waitReady deadline ((now, status) # turns) =
     (if now < deadline then (if status = Some 200 then True else waitReady deadline turns) else False)"

definition waitReady_url :: "bytes \<Rightarrow> bytes" where
  "waitReady_url base = trim_right base ''/'' @ ''/healthz''"

definition captureSourceRef :: "node_bridge option \<Rightarrow> (node_bridge \<Rightarrow> call_end + source_ref option) \<Rightarrow> source_ref option" where
  "captureSourceRef debugger topFrame =
     (case debugger of
        None \<Rightarrow> None
      | Some n \<Rightarrow> (case topFrame n of Inl err \<Rightarrow> None | Inr ref \<Rightarrow> ref))"

record 'e part_env =
  pe_polls :: "(instant \<times> nat option) list"
  pe_deadline :: instant
  pe_url :: "bytes \<Rightarrow> 'e option"
  pe_listen :: "bytes \<Rightarrow> 'e + bytes"
  pe_connected :: bool

datatype 'e part_error = NeverReady | RecorderNotStarted "'e proxy_error"

text \<open>The second half of \<^verbatim>\<open>StartDaemon\<close>, from the collector on: what is running, and the failure.\<close>

definition start_parts ::
  "'e part_env \<Rightarrow> config \<Rightarrow> bytes \<Rightarrow> runtime \<Rightarrow> bool \<Rightarrow> 'e part_error option \<times> parts" where
  "start_parts env cfg captureRoot rt skipProxy =
     (let p0 = \<lparr>pt_cancelled = False, pt_collector = True, pt_record = None, pt_outbound = None, pt_debugger = None\<rparr>;
          cancel = (\<lambda>p. p\<lparr>pt_cancelled := True, pt_collector := False\<rparr>)
      in if \<not> waitReady (pe_deadline env) (pe_polls env) then (Some NeverReady, cancel p0)
         else if skipProxy then (None, p0)
         else
           (let targetAddr = ''127.0.0.1:'' @ itoa_int (InternalPort (cf_app_port cfg));
                rec0 = \<lparr>px_listen = cf_record_proxy cfg, px_target = targetAddr, px_bound = [], px_server = NoServer\<rparr>
            in case recorder_Start (pe_url env) (pe_listen env) rec0 of
                 (Some err, rec1) \<Rightarrow> (Some (RecorderNotStarted err), cancel (p0\<lparr>pt_record := Some rec1\<rparr>))
               | (None, rec1) \<Rightarrow>
                   (let out = outbound_Start \<lparr>px_listen = ''127.0.0.1:28082'', px_target = [], px_bound = [], px_server = NoServer\<rparr>;
                        pick = \<lparr>po_port = cf_app_port cfg, po_pid = 0, po_root = captureRoot\<rparr>;
                        dbg = (if rt = RuntimeNode
                               then Some ((NewNodeBridge (cf_inspect_port cfg) pick)\<lparr>nb_conn := pe_connected env\<rparr>) else None)
                    in (None, p0\<lparr>pt_record := Some rec1, pt_outbound := Some out, pt_debugger := dbg\<rparr>))))"

definition daemon_Stop :: "parts \<Rightarrow> parts" where
  "daemon_Stop p =
     p\<lparr>pt_cancelled := True, pt_record := map_option proxy_Stop (pt_record p),
       pt_outbound := map_option proxy_Stop (pt_outbound p), pt_debugger := map_option bridge_Close (pt_debugger p),
       pt_collector := False\<rparr>"

text \<open>What is still open.\<close>

definition at_rest :: "parts \<Rightarrow> bool" where
  "at_rest p =
     (pt_cancelled p \<and> \<not> pt_collector p \<and> (\<forall>x. pt_record p = Some x \<longrightarrow> px_server x \<noteq> Serving) \<and>
      (\<forall>x. pt_outbound p = Some x \<longrightarrow> px_server x \<noteq> Serving) \<and> (\<forall>n. pt_debugger p = Some n \<longrightarrow> \<not> nb_conn n))"

lemma stop_twice: "proxy_Stop (proxy_Stop x) = proxy_Stop x" "bridge_Close (bridge_Close n) = bridge_Close n"
  by (simp_all add: proxy_Stop_def bridge_Close_def)

lemma daemon_Stop_twice: "daemon_Stop (daemon_Stop p) = daemon_Stop p"
  by (simp add: daemon_Stop_def option.map_comp comp_def stop_twice)

lemma stopped: "px_server (proxy_Stop x) \<noteq> Serving" "\<not> nb_conn (bridge_Close n)"
  by (simp_all add: proxy_Stop_def bridge_Close_def)

lemma daemon_Stop_rests: "at_rest (daemon_Stop p)"
  using stopped by (auto simp: at_rest_def daemon_Stop_def)

lemma failed_start_rests: "start_parts env cfg captureRoot rt skipProxy = (Some err, p) \<Longrightarrow> at_rest p"
  by (auto simp: at_rest_def start_parts_def recorder_Start_def Let_def split: if_splits option.splits sum.splits prod.splits)

text \<open>A tunnel passes on what arrives before the first end, and nothing after it.\<close>

lemma pipe_until_first_end:
  "fst (pipe es) = map (\<lambda>e. case e of Chunk s data \<Rightarrow> (s, data) | Eof s \<Rightarrow> (s, []))
     (takeWhile (\<lambda>e. case e of Chunk s data \<Rightarrow> True | Eof s \<Rightarrow> False) es)"
  by (induction es rule: pipe.induct) (auto split: prod.split)

section \<open>The agent\<close>

text \<open>\<^verbatim>\<open>main\<close> of the agent.  What it meets: the kernel and the ring buffer or the mock's clock, the
  ticks of the bypass monitor, the HTTP client of the marker handler, the connection of the forwarder
  with the streams that open, and which of the sends succeed.\<close>

record 'e agent_env =
  ag_genv :: "bytes \<Rightarrow> bytes"
  ag_bpf :: "'e bpf_env"
  ag_start :: instant
  ag_ticks :: "tick list"
  ag_base :: u64
  ag_mock :: "mock_in list"
  ag_reads :: "ring_read list"
  ag_encode :: "bytes \<times> bytes \<Rightarrow> bytes"
  ag_post :: "bytes \<Rightarrow> bytes \<Rightarrow> 'e + nat"
  ag_connect :: "client \<Rightarrow> 'e option \<times> client"
  ag_opens :: "bool list"
  ag_sent :: "nat \<Rightarrow> bool"

record 'e agent_result =
  gr_load_error :: "'e bpf_error option"
  gr_triggers :: "'e admin_error option list"
  gr_streams :: "pb_event list list"
  gr_logged :: "(u64 \<times> u64 \<times> u32) list"
  gr_client :: client
  gr_kernel :: kernel

definition marker_handler :: "'e agent_env \<Rightarrow> bytes \<Rightarrow> ioevent \<Rightarrow> 'e admin_error option list" where
  "marker_handler env base evt =
     (case marker_request evt of
        None \<Rightarrow> []
      | Some (reason, detail) \<Rightarrow> [admin_TriggerSnapshot base (ag_encode env) (ag_post env) reason detail])"

definition agent_main :: "'e agent_env \<Rightarrow> kernel \<Rightarrow> 'e agent_result option" where
  "agent_main env k =
     (let cfg = agent_Load (ag_genv env);
          ((err, l0), k1) = loader_Load (ag_genv env) (ag_bpf env) NewLoader k;
          l1 = SetMarkerHandler l0;
          run = agent_Run (ag_genv env) (ag_base env) l1 (ag_mock env) (ag_reads env);
          (l2, k2) = MonitorBypass (ag_genv env) (ag_start env) (ag_ticks env) (l1, k1);
          ins = map (\<lambda>(i, evt). FwdEvent evt (ag_sent env i)) (enumerate 0 (rs_out run)) @ [FwdDone];
          triggers = concat (map (marker_handler env (ac_http cfg)) (rs_markers run));
          c = client_New (ac_collector cfg) (ac_node cfg)
      in do {
        (streams, logged, c') \<leftarrow> (if ac_mock cfg then Some ([], fst (MockForwarder ins), c)
          else do { (ss, c1, returned) \<leftarrow> RunForwarder (ag_connect env) (ag_opens env) ins c; Some (ss, [], c1) });
        Some \<lparr>gr_load_error = err, gr_triggers = triggers, gr_streams = streams, gr_logged = logged,
          gr_client = client_Close c', gr_kernel = snd (loader_Close l2 k2)\<rparr>
      })"

text \<open>The event of the tests: it says 15 bytes, and its payload has 12.\<close>

definition emitSyntheticEvent :: "u64 \<Rightarrow> u64 \<Rightarrow> ioevent" where
  "emitSyntheticEvent pid now =
     zero_event\<lparr>PidTgid := pid, TimestampNs := now, Fd := 1, PayloadLen := 15, IsWrite := 1,
       Comm := go_copy (Comm zero_event) ''dre-agent'', Payload := go_copy (Payload zero_event) ''HTTP/1.1 500''\<rparr>"

lemma synthetic_payload: "payload_of (emitSyntheticEvent pid now) = ''HTTP/1.1 500'' @ replicate 3 NUL"
  by (simp add: emitSyntheticEvent_def zero_event_def go_copy_def size_defs)

text \<open>The monitor writes the bypass map and nothing else of the kernel.\<close>

lemma monitor_links:
  "kn_links (snd (MonitorBypass genv start ticks (l, k))) = kn_links k \<and> ld_coll (fst (MonitorBypass genv start ticks (l, k))) = ld_coll l"
proof -
  have bypass: "kn_links (snd (loader_SetBypass ok b l k)) = kn_links k" "ld_coll (fst (loader_SetBypass ok b l k)) = ld_coll l" for ok b l k
    by (auto simp: loader_SetBypass_def coll_SetBypass_def split: option.split)
  have "kn_links (snd (snd (monitor_tick t s))) = kn_links (snd (snd s)) \<and> ld_coll (fst (snd (monitor_tick t s))) = ld_coll (fst (snd s))" for t s
    using bypass by (cases s) (simp add: monitor_tick_def Let_def split: prod.split)
  then have "kn_links (snd (snd (fold monitor_tick ts s))) = kn_links (snd (snd s)) \<and>
      ld_coll (fst (snd (fold monitor_tick ts s))) = ld_coll (fst (snd s))" for ts s
    by (induction ts arbitrary: s) simp_all
  then show ?thesis by (simp add: MonitorBypass_def)
qed

lemma client_Close_conn: "\<not> fc_conn (client_Close c)"
  by (simp add: client_Close_def)

lemma loader_takes_off:
  assumes "loader_Load genv env NewLoader k = ((err, l), k1)" "ld_coll l' = ld_coll l" "kn_links k2 = kn_links k1"
  shows "kn_links (snd (loader_Close l' k2)) = kn_links k"
proof (cases "LoadCollection env k")
  case (Pair r k0)
  show ?thesis
    using LoadCollection_opened [where env = env and k = k] Pair assms
    by (cases r) (auto simp: loader_Load_def loader_Close_def NewLoader_def coll_Close_def opened_def split: if_splits option.splits prod.splits)
qed

text \<open>The events that the probes' loop hands on have the wire's form; when their lengths fit, the
  forwarder sends them without a panic, however the streams break.\<close>

lemma emit_scenario_subset: "set (fst (emit_scenario es ins)) \<subseteq> set es"
  by (induction es ins rule: emit_scenario.induct) (auto split: list.splits mock_in.splits prod.splits)

lemma mock_events_ok: "list_all (\<lambda>e. wf_event e \<and> pl_ok e) (runMockAgent genv base ins)"
proof -
  have health: "list_all (\<lambda>e. wf_event e \<and> pl_ok e) (emitHealthTicks ins)" for ins
    using health_event_ok by (induction ins rule: emitHealthTicks.induct) simp_all
  moreover have "list_all (\<lambda>e. wf_event e \<and> pl_ok e) (fst (emit_scenario (checkout_events base) ins))"
    using checkout_events_ok [of base] emit_scenario_subset by (metis list_all_iff subsetD)
  ultimately show ?thesis
    by (auto simp: runMockAgent_def emitCheckoutScenario_def split: prod.split option.split)
qed

lemma run_events_ok:
  assumes "list_all pl_ok (ring_events rs)"
  shows "list_all (\<lambda>e. wf_event e \<and> pl_ok e) (rs_out (agent_Run genv base l mock rs))"
proof -
  have "wf_event e" if "e \<in> set (ring_events rs)" for e using that by (auto simp: ring_events_def)
  then show ?thesis
    using mock_events_ok assms by (auto simp: agent_Run_def loader_Run_general run_start_def list_all_iff)
qed

lemma forwardable_events:
  "list_all (\<lambda>e. wf_event e \<and> pl_ok e) es \<Longrightarrow> forwardable (map (\<lambda>(i, evt). FwdEvent evt (sent i)) (enumerate n es) @ [FwdDone])"
  by (induction es arbitrary: n) (simp_all add: forwardable_def)

lemma forward_loop_total: "forwardable ins \<Longrightarrow> \<exists>res. forward_loop opens ins c = Some res"
proof (induction opens arbitrary: ins c)
  case (Cons op opens)
  obtain sent c1 e where r: "runStream ins c = Some (sent, c1, e)"
      "case e of Broken rest \<Rightarrow> forwardable rest | _ \<Rightarrow> True"
    using runStream_spec [OF Cons.prems, of c] by (force split: fwd_end.splits)
  show ?case
  proof (cases op)
    case True
    show ?thesis
    proof (cases e)
      case (Broken rest)
      with r(2) have "forwardable rest" by simp
      from Cons.IH [OF this, of c1] show ?thesis by (auto simp: True r(1) Broken)
    qed (simp_all add: True r(1) del: split_paired_Ex)
  next
    case False
    then show ?thesis using Cons.IH [OF Cons.prems, of c] by simp
  qed
qed (simp del: split_paired_Ex)

section \<open>The collector\<close>

text \<open>\<^verbatim>\<open>main\<close> of the collector: what it serves while it is the leader (\<open>wins\<close>: the election, when it
  takes part in one, is won), the readiness that its metrics port shows meanwhile, and its end.  \<open>make_store\<close> is
  the construction of the object store.\<close>

datatype 'e main_error = StorageFailed 'e | ElectionFailed 'e

definition collector_main ::
  "(bytes \<Rightarrow> bytes) \<Rightarrow> (storage_config \<Rightarrow> 'e option) \<Rightarrow> (bytes \<Rightarrow> 'e + bytes list) \<Rightarrow> (bytes \<Rightarrow> bytes \<Rightarrow> 'e + 'cert) \<Rightarrow> bool \<Rightarrow>
     bool \<Rightarrow> 'e option \<Rightarrow> bool \<Rightarrow> http_env \<Rightarrow> collector_call list \<Rightarrow> filesystem \<Rightarrow>
     ('e main_error option \<times> http_reply \<times> collector_answer list \<times> collector option) option" where
  "collector_main genv make_store load load_pair can_listen in_cluster client_error wins he calls fs =
     (let cfg = ConfigFromEnv genv; cs = collector_settings_of genv in
      case (if NewFromConfig cfg = NoStorage then None else make_store cfg) of
        Some err \<Rightarrow> Some (Some (StorageFailed err), metrics_readyz genv False, [], None)
      | None \<Rightarrow>
          (let c = collector_New genv load (cs_data_dir cs) (cs_cluster cs) (cs_key cs) fs;
               lead = do {
                 (err, answers, c') \<leftarrow> collector_Run genv load_pair can_listen he calls c;
                 Some (None, metrics_readyz genv True, answers, Some c')
               }
           in case RunElection genv in_cluster client_error of
                Alone \<Rightarrow> lead
              | NoClient err \<Rightarrow> Some (Some (ElectionFailed err), metrics_readyz genv False, [], Some c)
              | Candidate lease namespace ident \<Rightarrow>
                  if wins then lead else Some (None, metrics_readyz genv False, [], Some c)))"

text \<open>A replica that is not the leader answers nothing, and says so.\<close>

lemma only_the_leader_serves:
  "collector_main genv make_store load load_pair can_listen in_cluster client_error wins he calls fs = Some (err, ready, given, c) \<Longrightarrow>
    given \<noteq> [] \<Longrightarrow>
    err = None \<and> ready = Status 200 ''ready'' \<and> (RunElection genv in_cluster client_error = Alone \<or> wins)"
  by (auto simp: collector_main_def collector_Run_def metrics_readyz_def Let_def
      split: option.splits election.splits if_splits sum.splits Option.bind_splits)

text \<open>\<^verbatim>\<open>dre-cli list-snapshots\<close>: the answer of the collector as it is, indented by \<open>indent\<close>; what
  cannot be decoded prints as \<^verbatim>\<open>null\<close>.\<close>

definition runList ::
  "(bytes \<Rightarrow> bytes) \<Rightarrow> (bytes \<Rightarrow> (nat \<times> bytes option) option) \<Rightarrow> (bytes option \<Rightarrow> bytes option) \<Rightarrow> bytes list \<Rightarrow>
     download_error + bytes" where
  "runList genv fetch indent args =
     (case parse_flags [(''collector'', StrFlag (cli_envOr genv ''DRE_COLLECTOR_HTTP'' ''http://localhost:8080''))] args of
        Inl err \<Rightarrow> Inl (DownloadFlags err)
      | Inr (fl, rest) \<Rightarrow>
          (case fetch (flag_str fl ''collector'' @ ''/v1/snapshots'') of
             None \<Rightarrow> Inl NoAnswer
           | Some (_, body) \<Rightarrow> Inr (case indent body of None \<Rightarrow> ''null'' @ [LF] | Some out \<Rightarrow> out)))"

section \<open>The metrics ports\<close>

text \<open>\<open>page\<close> is what the metrics library prints.\<close>

definition serveMetrics :: "bytes \<Rightarrow> bytes \<Rightarrow> http_reply" where
  "serveMetrics page path =
     (if path = ''/metrics'' then Status 200 page
      else if path = ''/healthz'' then Status 200 ''ok''
      else not_found)"

definition serveMetricsAndReadiness :: "(bytes \<Rightarrow> bytes) \<Rightarrow> bool \<Rightarrow> bytes \<Rightarrow> bytes \<Rightarrow> http_reply" where
  "serveMetricsAndReadiness genv isLeader page path =
     (if path = ''/metrics'' then Status 200 page
      else if path = ''/healthz'' then Status 200 ''ok''
      else if path = ''/readyz'' then metrics_readyz genv isLeader
      else not_found)"

text \<open>A replica that waits for the lease is alive but takes no traffic.\<close>

lemma waiting_replica_is_alive:
  "genv ''DRE_LEADER_ELECT'' = ''1'' \<Longrightarrow>
    serveMetricsAndReadiness genv False page ''/healthz'' = Status 200 ''ok'' \<and>
    serveMetricsAndReadiness genv False page ''/readyz'' = Status 503 (''not leader'' @ [LF])"
  by (simp add: serveMetricsAndReadiness_def metrics_readyz_def)

section \<open>Properties\<close>


definition demo_agent :: "bytes agent_env" where
  "demo_agent =
     \<lparr>ag_genv = (\<lambda>_. []), ag_bpf = refusing_kernel, ag_start = 0, ag_ticks = [], ag_base = 0,
      ag_mock = [], ag_reads = [], ag_encode = snd, ag_post = (\<lambda>_ _. Inr 200), ag_connect = Pair None, ag_opens = [], ag_sent = (\<lambda>_. True)\<rparr>"


text \<open>An agent that could not attach its probes invents traffic: although mock mode is off, the collector is sent
  a health check every two seconds that no program has made.\<close>

lemma taken_all_sent: "taken (map (\<lambda>(i, evt). FwdEvent evt True) (enumerate n es) @ [FwdDone]) = map (\<lambda>e. (e, True)) es"
  by (induction es arbitrary: n) simp_all

theorem unattached_agent_invents_traffic:
  assumes "ag_genv env ''DRE_MOCK_MODE'' \<noteq> ''1''" "ag_genv env ''DRE_MOCK_SCENARIO'' \<noteq> ''checkout_500''"
    and "be_objs (ag_bpf env) = Inl err" "ag_genv env ''DRE_SKIP_BPF'' \<noteq> ''1''"
    and "ag_mock env = map MockReady ticks" "ag_connect env = Pair None" "ag_opens env = [True]" "ag_sent env = (\<lambda>_. True)"
  shows "\<exists>res. agent_main env k = Some res \<and> gr_load_error res = Some (LoadObjects err) \<and>
    map msg_id (concat (gr_streams res)) = map (\<lambda>t. (1000, t, 3, 1)) ticks"
proof -
  let ?l = "SetMarkerHandler NewLoader" and ?es = "map health_event ticks"
  let ?ins = "map (\<lambda>(i, evt). FwdEvent evt True) (enumerate 0 ?es) @ [FwdDone]"
  let ?c = "client_New (ac_collector (agent_Load (ag_genv env))) (ac_node (agent_Load (ag_genv env)))"
  have load: "loader_Load (ag_genv env) (ag_bpf env) NewLoader k = ((Some (LoadObjects err), NewLoader), k)"
    using assms(3,4) by (simp add: loader_Load_def LoadCollection_def)
  have run: "rs_out (agent_Run (ag_genv env) (ag_base env) ?l (ag_mock env) (ag_reads env)) = ?es"
    using assms(2,5) by (simp add: agent_Run_def runMockAgent_def emitHealthTicks_eq NewLoader_def SetMarkerHandler_def)
  have "list_all (\<lambda>e. wf_event e \<and> pl_ok e) ?es" using health_event_ok by (simp add: list_all_iff)
  from forwardable_events [OF this, of "\<lambda>_. True" 0] have ins: "forwardable ?ins" .
  have none: "failures ?ins < length (filter id [True])" by (simp add: failures_def taken_all_sent)
  obtain streams c' where sent: "forward_loop [True] ?ins ?c = Some (streams, c', told_to_stop ?ins)"
    "map msg_id (concat streams) = sent_ids ?ins"
    using forward_loop_spec [OF ins none, of ?c] by blast
  have "sent_ids ?ins = map (\<lambda>t. (1000, t, 3, 1)) ticks"
    by (simp add: sent_ids_def taken_all_sent comp_def event_id_def health_event_def zero_event_def)
  with sent assms(1) show ?thesis
    by (simp add: agent_main_def load run assms(6-8) RunForwarder_def agent_Load_def Let_def split: prod.split del: split_paired_Ex)
qed

end
