(* ===== verification/Discovery_Windows.thy ===== *)
theory Discovery_Windows
  imports Discovery
begin

text \<open>
  The Windows files of pkg/discover (pid_windows.go, process_cmdline_windows.go): the owner of a port is
  read from what \<^verbatim>\<open>netstat -ano\<close> prints, the command line of a process from PowerShell or WMIC.
  The outputs of these programs are inputs.
\<close>

section \<open>The owner of a port\<close>

definition listening_line :: "unicode \<Rightarrow> bytes \<Rightarrow> bytes \<Rightarrow> bytes \<Rightarrow> bool" where
  "listening_line u want host line =
     (contains line want \<and> contains (to_upper u line) ''LISTENING'' \<and>
      (contains line host \<or> contains line ''0.0.0.0'' \<or> contains line ''[::]''))"

fun netstat_pid :: "unicode \<Rightarrow> bytes \<Rightarrow> bytes \<Rightarrow> bytes list \<Rightarrow> int" where
  "netstat_pid u want host [] = 0"
| "netstat_pid u want host (line0 # ls) =
     (let line = trim_space line0 in
      if \<not> listening_line u want host line then netstat_pid u want host ls
      else let flds = Go_Strings.fields line in
        if length flds = 0 then netstat_pid u want host ls
        else case atoi (last flds) of
               Some pid \<Rightarrow> if 0 < pid then pid else netstat_pid u want host ls
             | None \<Rightarrow> netstat_pid u want host ls)"

definition windows_PIDListeningOn :: "unicode \<Rightarrow> bytes option \<Rightarrow> bytes \<Rightarrow> int \<Rightarrow> int" where
  "windows_PIDListeningOn u netstat host port =
     (case netstat of
        None \<Rightarrow> 0
      | Some out \<Rightarrow> netstat_pid u ('':'' @ itoa_int port) host (split out [LF]))"

section \<open>The command line of a process\<close>

definition windows_ProcessCommandLine :: "(bytes list \<Rightarrow> bytes option) \<Rightarrow> int \<Rightarrow> bytes" where
  "windows_ProcessCommandLine run pid =
     (if pid \<le> 0 then []
      else
        let first = (case run [''powershell'', ''-NoProfile'', ''-Command'',
               ''(Get-CimInstance Win32_Process -Filter '' @ [CHR 0x22] @ ''ProcessId='' @ itoa_int pid @ [CHR 0x22] @ '').CommandLine''] of
             None \<Rightarrow> [] | Some out \<Rightarrow> trim_space out)
        in if first \<noteq> [] then first
           else case run [''wmic'', ''process'', ''where'', ''ProcessId='' @ itoa_int pid, ''get'', ''CommandLine'', ''/value''] of
             None \<Rightarrow> []
           | Some out \<Rightarrow>
               (case find (\<lambda>line. has_prefix line ''CommandLine='') (map trim_space (split out [LF])) of
                  None \<Rightarrow> []
                | Some line \<Rightarrow> trim_prefix line ''CommandLine=''))"

section \<open>Lemmas\<close>

lemma contains_prefix: "contains s (p @ q) \<Longrightarrow> contains s p"
  unfolding contains_iff by (metis sublist_appendI sublist_order.order_trans append_Nil)

text \<open>The port is looked for as a prefix of what follows a colon, on either side of the line: the owner
  of another port whose number begins with the same digits is reported, if its line comes first.\<close>

theorem port_prefix_finds_the_wrong_owner:
  assumes "itoa_int other = itoa_int port @ digits" "listening_line u ('':'' @ itoa_int other) host (trim_space line)"
    and "Go_Strings.fields (trim_space line) \<noteq> []" "atoi (last (Go_Strings.fields (trim_space line))) = Some pid" "0 < pid"
    and "split out [LF] = line # rest"
  shows "windows_PIDListeningOn u (Some out) host port = pid"
proof -
  have "listening_line u ('':'' @ itoa_int port) host (trim_space line)"
    using assms(2) contains_prefix [of "trim_space line" "'':'' @ itoa_int port" digits]
    by (simp add: listening_line_def assms(1))
  then show ?thesis using assms(3-6) by (simp add: windows_PIDListeningOn_def Let_def)
qed

end
