(* ===== verification/Replay_Race.thy ===== *)
theory Replay_Race
  imports Session
begin

text \<open>
  Connections of the replay proxy and seeks of the debugger at the same time
  (dre-replay-cli/internal/proxy/multi.go, dre-replay-cli/internal/orchestrator/session.go).  A connection's
  \<^verbatim>\<open>matchResponse\<close> has three critical sections: it reads the session's cursor under the session's lock, sets
  the proxy's cursor under the proxy's lock, and looks for the response under the proxy's
  lock again.  A seek holds the session's lock over two: it moves the cursor, and it sets the
  proxy's.  The sections of all connections and of the seek interleave.
\<close>

section \<open>Critical sections\<close>

text \<open>Where a connection is in \<^verbatim>\<open>matchResponse\<close>.\<close>

datatype phase = Free | HasRead int | HasSet

fun holds_reading :: "phase \<Rightarrow> bool" where
  "holds_reading (HasRead c) = True"
| "holds_reading p = False"

text \<open>\<open>ra_seeking\<close>: a seek holds the session's lock.  \<open>ra_served\<close> is the history of
  the responses, by index; it is never shortened.\<close>

record race =
  ra_cursor :: int
  ra_seeking :: bool
  ra_multi :: multi
  ra_phases :: "phase list"
  ra_served :: "nat list"

definition race_start :: "nat \<Rightarrow> multi \<Rightarrow> race" where
  "race_start n m = \<lparr>ra_cursor = 0, ra_seeking = False, ra_multi = m, ra_phases = replicate n Free, ra_served = []\<rparr>"

definition phase_of :: "race \<Rightarrow> nat \<Rightarrow> phase option" where
  "phase_of s h = (if h < length (ra_phases s) then Some (ra_phases s ! h) else None)"

definition read_cursor :: "nat \<Rightarrow> race \<Rightarrow> race option" where
  "read_cursor h s =
     (if phase_of s h = Some Free \<and> \<not> ra_seeking s
      then Some (s\<lparr>ra_phases := (ra_phases s)[h := HasRead (ra_cursor s)]\<rparr>) else None)"

definition put_cursor :: "nat \<Rightarrow> race \<Rightarrow> race option" where
  "put_cursor h s =
     (case phase_of s h of
        Some (HasRead c) \<Rightarrow> Some (s\<lparr>ra_multi := SetCursor c (ra_multi s), ra_phases := (ra_phases s)[h := HasSet]\<rparr>)
      | _ \<Rightarrow> None)"

definition newly :: "multi \<Rightarrow> multi \<Rightarrow> nat list" where
  "newly m m' = filter (\<lambda>j. int j \<in> mu_consumed m' \<and> int j \<notin> mu_consumed m) [0..<length (mu_events m)]"

definition find_answer :: "unicode \<Rightarrow> bytes \<Rightarrow> bytes \<Rightarrow> nat \<Rightarrow> race \<Rightarrow> race option" where
  "find_answer u hostFilter request h s =
     (if phase_of s h \<noteq> Some HasSet then None
      else do {
        (out, m) \<leftarrow> multi_matchResponse u hostFilter None request (ra_multi s);
        Some (s\<lparr>ra_multi := m, ra_phases := (ra_phases s)[h := Free], ra_served := ra_served s @ newly (ra_multi s) m\<rparr>)
      })"

definition seek_target :: "int \<Rightarrow> race \<Rightarrow> int" where
  "seek_target index s =
     (let index1 = (if index < 0 then 0 else index); n = int (length (mu_events (ra_multi s)))
      in if n < index1 then n else index1)"

definition begin_seek :: "int \<Rightarrow> race \<Rightarrow> race option" where
  "begin_seek index s =
     (if ra_seeking s then None else Some (s\<lparr>ra_cursor := seek_target index s, ra_seeking := True\<rparr>))"

definition end_seek :: "race \<Rightarrow> race option" where
  "end_seek s =
     (if ra_seeking s then Some (s\<lparr>ra_multi := SetCursor (ra_cursor s) (ra_multi s), ra_seeking := False\<rparr>) else None)"

datatype race_step = ReadCursor nat | PutCursor nat | FindAnswer nat bytes bytes | BeginSeek int | EndSeek

fun race_do :: "unicode \<Rightarrow> race_step \<Rightarrow> race \<Rightarrow> race option" where
  "race_do u (ReadCursor h) s = read_cursor h s"
| "race_do u (PutCursor h) s = put_cursor h s"
| "race_do u (FindAnswer h hf req) s = find_answer u hf req h s"
| "race_do u (BeginSeek i) s = begin_seek i s"
| "race_do u EndSeek s = end_seek s"

fun race_run :: "unicode \<Rightarrow> race_step list \<Rightarrow> race \<Rightarrow> race option" where
  "race_run u [] s = Some s"
| "race_run u (st # sts) s = do { s' \<leftarrow> race_do u st s; race_run u sts s' }"

text \<open>A request without the interleaving is what \<open>multi_matchResponse\<close> does with the session's cursor.\<close>

lemma undisturbed_request:
  assumes "phase_of s h = Some Free" "\<not> ra_seeking s"
  shows "race_run u [ReadCursor h, PutCursor h, FindAnswer h hf req] s =
    map_option (\<lambda>(out, m). s\<lparr>ra_multi := m, ra_served := ra_served s @ newly (SetCursor (ra_cursor s) (ra_multi s)) m\<rparr>)
      (multi_matchResponse u hf (Some (ra_cursor s)) req (ra_multi s))"
  using assms
  by (cases "multi_matchResponse u hf None req (SetCursor (ra_cursor s) (ra_multi s))")
    (auto simp: read_cursor_def put_cursor_def find_answer_def phase_of_def multi_matchResponse_cursorFn list_update_same_conv
      split: if_splits)

text \<open>A seek without the interleaving is that of the session.\<close>

lemma undisturbed_seek:
  assumes "\<not> ra_seeking s" "se_proxy ses = Some (ra_multi s)" "snap_events (se_snap ses) = mu_events (ra_multi s)"
    and "Seek can_write i ses = (c, ses')" "race_run u [BeginSeek i, EndSeek] s = Some s'"
  shows "ra_cursor s' = c \<and> se_proxy ses' = Some (ra_multi s')"
  using assms
  by (auto simp: Seek_def onCursorChange_def begin_seek_def end_seek_def seek_target_def session_Events_def Let_def
      split: option.splits if_splits)

section \<open>The invariant\<close>

text \<open>A seek that waits for the connections that hold a reading, and moves forward.\<close>

fun patient :: "race_step \<Rightarrow> race \<Rightarrow> bool" where
  "patient (BeginSeek i) s = (\<not> list_ex holds_reading (ra_phases s) \<and> ra_cursor s \<le> seek_target i s)"
| "patient _ s = True"

fun patient_run :: "unicode \<Rightarrow> race_step list \<Rightarrow> race \<Rightarrow> bool" where
  "patient_run u [] s = True"
| "patient_run u (st # sts) s =
     (patient st s \<and> (case race_do u st s of None \<Rightarrow> True | Some s' \<Rightarrow> patient_run u sts s'))"

definition race_inv :: "ioevent list \<Rightarrow> race \<Rightarrow> bool" where
  "race_inv events s =
     (mu_events (ra_multi s) = events \<and> mu_consumed (ra_multi s) = int ` set (ra_served s) \<and> distinct (ra_served s) \<and>
      mu_cursor (ra_multi s) \<le> ra_cursor s \<and> (\<not> ra_seeking s \<longrightarrow> mu_cursor (ra_multi s) = ra_cursor s) \<and>
      (\<forall>c. HasRead c \<in> set (ra_phases s) \<longrightarrow> c = ra_cursor s \<and> \<not> ra_seeking s))"

lemma newly_one:
  assumes "int j \<notin> C" "j < n"
  shows "filter (\<lambda>i. int i \<in> insert (int j) C \<and> int i \<notin> C) [0..<n] = [j]"
proof -
  have "[0..<n] = [0..<j] @ j # [Suc j..<n]"
    using upt_add_eq_append [of 0 j "n - j"] assms(2) by (simp add: upt_conv_Cons)
  moreover have "filter (\<lambda>i. int i \<in> insert (int j) C \<and> int i \<notin> C) [0..<n] = filter (\<lambda>i. i = j) [0..<n]"
    using assms(1) by (intro filter_cong) auto
  ultimately show ?thesis by simp
qed

lemma SetCursor_forward: "mu_cursor m \<le> c \<Longrightarrow> SetCursor c m = m\<lparr>mu_cursor := c\<rparr>"
  by (simp add: SetCursor_def)

lemma race_inv_step:
  assumes "race_inv events s" "events_safe u events" "patient st s" "race_do u st s = Some s'"
  shows "race_inv events s'"
proof (cases st)
  case (ReadCursor h)
  then show ?thesis using assms(1,4)
    by (auto simp: race_inv_def read_cursor_def dest!: set_update_subset_insert [THEN subsetD] split: if_splits)
next
  case (PutCursor h)
  with assms(4) obtain c where c: "phase_of s h = Some (HasRead c)"
    "s' = s\<lparr>ra_multi := SetCursor c (ra_multi s), ra_phases := (ra_phases s)[h := HasSet]\<rparr>"
    by (auto simp: put_cursor_def split: option.splits phase.splits)
  then have "HasRead c \<in> set (ra_phases s)" by (metis nth_mem phase_of_def option.inject option.distinct(1))
  then have "c = ra_cursor s" "\<not> ra_seeking s" "mu_cursor (ra_multi s) \<le> c" using assms(1) by (auto simp: race_inv_def)
  with assms(1) c(2) show ?thesis
    by (auto simp: race_inv_def SetCursor_forward dest!: set_update_subset_insert [THEN subsetD])
next
  case (FindAnswer h hf req)
  with assms(4) obtain out m where m: "multi_matchResponse u hf None req (ra_multi s) = Some (out, m)"
    and s': "s' = s\<lparr>ra_multi := m, ra_phases := (ra_phases s)[h := Free], ra_served := ra_served s @ newly (ra_multi s) m\<rparr>"
    by (auto simp: find_answer_def split: if_splits Option.bind_splits)
  have events: "mu_events (ra_multi s) = events" using assms(1) by (simp add: race_inv_def)
  note found = multi_matchResponse_Some [OF assms(2) [folded events] m]
  have "mu_consumed m = int ` set (ra_served s') \<and> distinct (ra_served s')"
  proof (cases out)
    case None
    with found assms(1) show ?thesis by (simp add: s' newly_def race_inv_def)
  next
    case (Some resp)
    with found obtain j where j: "reply_at (mu_consumed (ra_multi s)) events j"
      "mu_consumed m = insert (int j) (mu_consumed (ra_multi s))" by (auto simp: events)
    then have "newly (ra_multi s) m = [j]" unfolding newly_def j(2) events
      by (intro newly_one) (auto simp: reply_at_def servable_def)
    with j assms(1) show ?thesis by (auto simp: s' race_inv_def reply_at_def servable_def)
  qed
  with found assms(1) show ?thesis
    by (auto simp: race_inv_def s' dest!: set_update_subset_insert [THEN subsetD])
next
  case (BeginSeek i)
  have "HasRead c \<notin> set (ra_phases s)" for c using assms(3) by (auto simp: BeginSeek list_ex_iff)
  with BeginSeek assms(1,3,4) show ?thesis
    by (auto simp: race_inv_def begin_seek_def split: if_splits)
next
  case EndSeek
  with assms show ?thesis by (auto simp: race_inv_def end_seek_def SetCursor_forward split: if_splits)
qed

lemma race_inv_run:
  "race_inv events s \<Longrightarrow> events_safe u events \<Longrightarrow> patient_run u sts s \<Longrightarrow> race_run u sts s = Some s' \<Longrightarrow> race_inv events s'"
proof (induction sts arbitrary: s)
  case (Cons st sts)
  from Cons.prems(4) obtain s1 where s1: "race_do u st s = Some s1" "race_run u sts s1 = Some s'"
    by (auto split: Option.bind_splits)
  with Cons.prems(3) have "patient st s" "patient_run u sts s1" by auto
  from Cons.IH [OF race_inv_step [OF Cons.prems(1,2) this(1) s1(1)] Cons.prems(2) this(2) s1(2)] show ?case .
qed simp

section \<open>Properties\<close>


text \<open>Two connections: the first is answered, the debugger moves to the next event, the second finds nothing left.\<close>

abbreviation get_root :: "nat \<Rightarrow> race_step" where
  "get_root h \<equiv> FindAnswer h [] ''GET /''"

definition demo_race :: race where
  "demo_race = race_start 2 (NewMulti [] [] demo_exchange)"

lemma demo_second_answer:
  "multi_matchResponse u [] None ''GET /'' ((NewMulti [] [] demo_exchange)\<lparr>mu_cursor := 1, mu_consumed := {1}\<rparr>) =
     Some (None, (NewMulti [] [] demo_exchange)\<lparr>mu_cursor := 1, mu_consumed := {1}\<rparr>)"
  by (simp add: multi_matchResponse_def Let_def get_request host_refused_def NewMulti_def demo_exchange_def
      small_event_facts(1-4) request_matches_def payload_slice_Some)

lemma demo_newly: "newly (NewMulti [] [] demo_exchange) ((NewMulti [] [] demo_exchange)\<lparr>mu_consumed := {1}\<rparr>) = [1]"
  by (simp add: newly_def NewMulti_def demo_exchange_def upt_rec)

lemma demo_start: "SetCursor 0 (NewMulti [] [] demo_exchange) = NewMulti [] [] demo_exchange"
  "SetCursor 1 ((NewMulti [] [] demo_exchange)\<lparr>mu_consumed := {1}\<rparr>) = (NewMulti [] [] demo_exchange)\<lparr>mu_cursor := 1, mu_consumed := {1}\<rparr>"
  "SetCursor 0 ((NewMulti [] [] demo_exchange)\<lparr>mu_cursor := 1, mu_consumed := {1}\<rparr>) = NewMulti [] [] demo_exchange"
  "length (mu_events (NewMulti [] [] demo_exchange)) = 2" "mu_consumed (NewMulti [] [] demo_exchange) = {}"
  by (auto simp: SetCursor_def NewMulti_def demo_exchange_def)

lemmas race_defs = read_cursor_def put_cursor_def find_answer_def begin_seek_def end_seek_def phase_of_def seek_target_def


text \<open>A connection that has read the cursor before a seek and sets it afterwards moves the proxy back, which forgets
  what has been served: the debugger only moves forward, and the same response goes out twice.\<close>

theorem overtaken_seek_serves_twice:
  "\<exists>s. race_run plain_unicode [ReadCursor 0, PutCursor 0, get_root 0, ReadCursor 1, BeginSeek 1, EndSeek, PutCursor 1, get_root 1] demo_race
      = Some s \<and> ra_served s = [1, 1] \<and> ra_cursor s = 1 \<and> mu_cursor (ra_multi s) = 0"
  by (simp add: demo_race_def race_start_def race_defs demo_start demo_exchange_answer demo_newly numeral_2_eq_2)
   (simp add: NewMulti_def)

end
