(* ===== verification/Spec2Isabelle.thy ===== *)
theory Spec2Isabelle
  imports Local_Capture Capture_Tap Project_Config Incident Collector Session Summary Time_Freeze
    Bypass_Monitor Agent_Forward Hooks Inspector CDP_Session Discovery Replay_Exchange
    Demo_Data Tool_Commands Sample_To_Disk Life_Cycle Discovery_Windows Replay_Race
begin

text \<open>
  BugIT records the network traffic of a running program, keeps it as a file when something goes
  wrong, and replays it under a debugger.  This development models the Go programs of the
  repository as functions on explicit states and proves what each part promises and that the parts
  fit together.

  \<^bold>\<open>The program.\<close>  The \<^emph>\<open>agent\<close> (dre-agent) attaches kernel probes, reads samples from a
  ring buffer, stamps a clock header into HTTP messages and sends the events to the
  \<^emph>\<open>collector\<close> (dre-collector) over gRPC.  The collector keeps a window of thirty seconds, draws the graph
  of causes from the clock headers, looks for error responses, and when a trigger fires (or a
  request asks for it) scrubs the window of credentials and exports it as an encrypted archive.
  \<^emph>\<open>Local capture\<close> (bugit, localcapture) runs a collector in its own process and feeds it from a
  recording proxy around a child process or from a tap on a Node process's inspector.
  The \<^emph>\<open>replay tool\<close> (dre-replay-cli) opens an archive and serves a session: a proxy that answers
  requests with the recorded responses, a frozen clock, and a debugger API with a cursor over the
  events.

  \<^bold>\<open>How code is rendered.\<close>  One definition stands for one function or method, under its own
  name (with the package's name in front where two packages use the same name); a struct is a
  record, an enumeration a datatype.  A method that changes its receiver takes the state and returns the
  new one.  An error is the left side of a sum, or an option beside the results, as the code
  returns it.  A run-time panic is \<open>None\<close> in the option monad, so that the absence of
  panics has to be proved; a search that need not end is a \<open>partial_function\<close> in the same
  monad.  Fixed-width integers are words; payload lengths, for instance, wrap as \<^verbatim>\<open>uint32\<close>
  does.  Strings and byte slices are lists of bytes.  Clock readings, random bytes, answers of the
  network, the kernel and the file system are arguments, so that a theorem holds for every answer.
  Mutexes make operations atomic; where goroutines meet in other ways
  (the inspector session, the replay proxy's connections and seeks) the model is a transition system.

  \<^bold>\<open>Foundations.\<close>
  \<^item> \<open>Go_Base\<close>, \<open>Go_Strings\<close>, \<open>Go_Unicode\<close>, \<open>Go_Path\<close>, \<open>Go_Net\<close>, \<open>Flags\<close>: the parts of Go's library the
    program computes with (\<^verbatim>\<open>strings\<close>, \<^verbatim>\<open>bytes\<close>, \<^verbatim>\<open>strconv\<close>, \<^verbatim>\<open>utf8\<close>, \<^verbatim>\<open>filepath\<close>, \<^verbatim>\<open>net\<close>, \<^verbatim>\<open>flag\<close>), with the
    list and string lemmas the components share.

  \<^bold>\<open>Events and archives.\<close>
  \<^item> \<open>IO_Event\<close> (api/ioevent, api/grpcapi): the event record, its fixed-width codec and the gRPC
    message.  The locales \<open>fixed_codec\<close> and \<open>stream_codec\<close> hold the round trips, interpreted
    for the little-endian integers and for the event stream.
  \<^item> \<open>Manifest\<close> (api/manifest, pkg/sourcemap): metadata and the source-map store, an
    interpretation of \<open>keyed_store\<close>.
  \<^item> \<open>Archive\<close> (pkg/drearchive, dre-collector/internal/snapshot): packing, encryption, the
    exporter and \<open>OpenFile\<close>.  The codecs of the standard library are a record with the laws
    \<open>codec_laws\<close>, which \<open>plain_codecs\<close> satisfies; an exported file opens to what was exported.

  \<^bold>\<open>The collector.\<close>
  \<^item> \<open>Rolling_Buffer\<close>, \<open>Trigger\<close>, \<open>Vector_Clock\<close>, \<open>Redact\<close>, \<open>Ingest\<close> (the packages of the same names
    under dre-collector/internal, and pkg/vectorclock): the buffer is the window of the last thirty
    seconds; automatic triggers keep their distance; every edge of the graph has its node; no rule
    of the scrubber matches its output.  The regular expressions are matched by a
    backtracking matcher that follows Go's leftmost-first order.  The header is written and read through the locale
    \<open>header_codec\<close>.
  \<^item> \<open>Collector\<close> (dre-collector/internal/server and storage): the snapshot function and the
    handlers; the scrubber is used through the locale \<open>scrubber\<close>.
  \<^item> \<open>Collector_Server\<close> (the same package): the routes, the calls and \<^verbatim>\<open>Run\<close>.  The locale
    \<open>call_server\<close> says what it is to serve a sequence of calls: every call is answered, with an answer that fits
    it, and the state keeps its invariant and only grows.  It is interpreted for the collector and
    (\<open>Daemon_Service\<close>) for the daemon of local capture.
  \<^item> \<open>Object_Storage\<close> (dre-collector/internal/storage): the clients of S3 and GCS over a map of objects, two
    interpretations of the locale \<open>object_store\<close>: an upload is what the presigned link serves,
    and uploads of different incidents do not meet.
  \<^item> \<open>Snapshot_Download\<close>: \<^verbatim>\<open>dre-cli download\<close> against the collector's handlers.
  \<^bold>\<open>The agent.\<close>
  \<^item> \<open>Agent_Probe\<close>, \<open>Bypass_Monitor\<close>, \<open>Agent_Forward\<close> (dre-agent, pkg/grpctls): attaching the probes
    with nothing left attached after a failure, the ring-buffer loop, the monitor with its
    \<^verbatim>\<open>float64\<close> comparison written out and shown to be exact on counters below \<open>2 ^ 53\<close>, the forwarder and the
    path of an event from the ring buffer to the collector's window.
  \<^item> \<open>Life_Cycle\<close>: \<^verbatim>\<open>main\<close> of the agent over all these, which leaves no probe behind; \<^verbatim>\<open>main\<close> of the
    collector; the parts that the daemon starts and stops.
  \<^bold>\<open>Local capture.\<close>
  \<^item> \<open>Project_Config\<close>, \<open>Hooks\<close>, \<open>Discovery\<close>, \<open>Inspector\<close> (pkg/project, pkg/discover,
    pkg/captureattach): the project's root, settings and scripts, the backend's ports and processes, the choice
    of an inspector target.  The walk up the directories ends because each step shortens the path.
  \<^item> \<open>Capture_Tap\<close>, \<open>CDP_Session\<close> (pkg/recordproxy, pkg/captureattach, pkg/debugbridge): the
    recorders, and the inspector session as a transition system whose invariant is that an answer
    reaches the call it belongs to.
  \<^item> \<open>Incident\<close>, \<open>Local_Capture\<close> (dre-collector/pkg/localcapture, pkg/runtimedetect): the summary of a
    failure, the daemon, posting, snapshots and their lookup.
  \<^item> \<open>Daemon_Service\<close>, \<open>Capture_Replay\<close>: the daemon as a server of calls; a capture that is saved
    is the one that the replay session opens.
  \<^item> \<open>Attach_Record\<close> (pkg/captureattach/attach_tap.go, localcapture/attach.go): recording a running
    program through its inspector, from the connection to the end.
  \<^item> \<open>Discovery_Windows\<close>: the look-ups of processes on Windows.
  \<^bold>\<open>Replay.\<close>
  \<^item> \<open>Replay_Proxy\<close>, \<open>Replay_Exchange\<close> (dre-replay-cli/internal/proxy): both proxies; the locale
    \<open>replayer\<close> states what they promise about a recorded conversation and is interpreted for each.
  \<^item> \<open>Time_Freeze\<close>, \<open>Summary\<close>, \<open>Debugger\<close>, \<open>Session\<close> (the packages of dre-replay-cli/internal): the
    frozen clock, the readable view, the debugger API over the locale \<open>controller\<close>, which the
    session implements.
  \<^item> \<open>Replay_Race\<close> (proxy/multi.go and orchestrator/session.go): the critical sections of the proxy's connections and of
    seeks, interleaved; every response is served once as long as a seek does not overtake a connection.

  \<^bold>\<open>The programs.\<close>
  \<^item> \<open>BugIT_Command\<close>, \<open>Tool_Commands\<close>, \<open>Demo_Data\<close> (bugit-cli, dre-replay-cli/cmd, dre-collector/cmd,
    pkg/demo, scripts): the commands with their flags and what they start, and the demonstration incident.

  \<^bold>\<open>Across the parts.\<close>  Local theorems are composed along the path of the data: samples from the
  kernel to the window (\<open>Agent_Forward\<close>), the window to the archive without
  credentials (\<open>Collector\<close>), the archive to the replay proxy (this theory), and the command line to the session
  (\<open>Tool_Commands\<close>).
  \<open>Sample_To_Disk\<close> joins the samples of several nodes, their interleaved streams, the trigger of an error response,
  the export, the download and the opened file in one theorem.
  The daemon's calls, the snapshot file, the command line of the replay and the running session
  are one theorem in \<open>Capture_Replay\<close>; the snapshot, the list, the download and the opened file one in
  \<open>Snapshot_Download\<close>.  Theorems that describe a defect say so: a recording by attachment is never
  saved (\<open>Attach_Record\<close>), a locally recorded exchange is not answered (\<open>Capture_Tap\<close>).

  \<^bold>\<open>Bounds.\<close>  No function is given fuel.  Lists of readings or answers stand for the
  turns of a loop that waits (polling, streams, ticks), and a theorem holds for lists of any length;
  where the code loops on its own data the recursion is structural or has a measure.

  \<^bold>\<open>Not modelled.\<close>  Generated protobuf code and gRPC registration; the eBPF programs (their C
  code is not run by these programs' Go code but by the kernel); Prometheus counters; the
  Kubernetes lease, whose outcome is an input, and the storage services behind the calls made on them; JSON, YAML, TLS, HTTP parsing and the
  cryptography, which are parameters; the JavaScript of the hooks, which is text here; the text of
  usage messages and logs; the stubs for systems other than Linux that only return an error.
\<close>

section \<open>From the capture to the replay\<close>


definition demo_buffer :: "buf_event list" where
  "demo_buffer = map (\<lambda>ev. \<lparr>be_event = ev, be_node = ''a'', be_at = 0\<rparr>) (conversation demo_pairs)"


section \<open>Events\<close>

lemma OpenFile_wf: "OpenFile c fs path key = Inr snap \<Longrightarrow> list_all wf_event (snap_events snap)"
  by (auto simp: OpenFile_def ParseTarGz_def parse_files_def Let_def decode_events_wf
      split: option.splits sum.splits if_splits)

text \<open>C11: Whatever reaches the program as an event has the type of an event.  A ring-buffer sample of
  any bytes and any snapshot file that opens give events whose command name and payload have
  their fixed sizes, and the injection of the clock header keeps them; events made from the
  agent's messages, from items posted over HTTP and from what a recording proxy or the attach tap
  reads moreover have a length within the payload, so that slicing them does not panic.\<close>

theorem events_have_their_types:
  "(decodeRecord raw = Inr evt \<longrightarrow> wf_event evt) \<and>
   (OpenFile c fs path key = Inr snap \<longrightarrow> list_all wf_event (snap_events snap)) \<and>
   (injectVector evt cl = Some (evt', cl') \<and> wf_event evt \<longrightarrow> wf_event evt') \<and>
   event_ok (ToNative msg) \<and> event_ok (event_of_item now item) \<and>
   event_ok (build_event now fd w payload comm)"
  using event_of_item_ok [of now item] build_event_ok [of now fd w payload comm]
  by (auto simp: decodeRecord_def OpenFile_wf injectVector_keeps event_ok_def split: if_splits)

lemma events_have_their_types_witness:
  "wf_event (event_of_record (replicate 2100 (CHR 0xFF)))"
  using events_have_their_types [of "replicate 2100 (CHR 0xFF)" "event_of_record (replicate 2100 (CHR 0xFF))"]
  by (simp add: decodeRecord_def size_defs)

end
